(* ===== verification/VaultFS_Prelude.thy ===== *)
theory VaultFS_Prelude
  imports Main "HOL-Library.Word" "HOL-Library.AList"
begin

text \<open>
  Shared vocabulary of the development: the machine integers of the Go sources, the
  built-in map type with its iteration order, and the generic facts on lists, maps and
  words that the component theories use.

  A Go map is an association list with distinct keys. The list order is the order in
  which one \<^verbatim>\<open>range\<close> loop visits the map; Go leaves that order open, and the lemmas
  hold for every list, so for every order.
\<close>

section \<open>Types of the Go sources\<close>

type_synonym u64 = "64 word"
type_synonym u32 = "32 word"
type_synonym byte = "8 word"
type_synonym bytes = "byte list"

text \<open>
  \<^verbatim>\<open>time.Time\<close> and \<^verbatim>\<open>time.Duration\<close> are integers counting nanoseconds.
\<close>

type_synonym gtime = int
type_synonym duration = int

type_synonym ('k, 'v) gomap = "('k \<times> 'v) list"

named_theorems gomap_simps \<open>lookup after update, delete and sweep of a Go map\<close>
named_theorems gomap_intros \<open>operations that keep the keys of a Go map distinct\<close>
named_theorems u64_simps \<open>unsigned 64-bit arithmetic read as natural numbers\<close>

section \<open>Go maps\<close>

definition gm_wf :: "('k, 'v) gomap \<Rightarrow> bool" where
  "gm_wf m \<longleftrightarrow> distinct (map fst m)"

abbreviation gm_empty :: "('k, 'v) gomap" where
  "gm_empty \<equiv> []"

abbreviation gm_lookup :: "('k, 'v) gomap \<Rightarrow> 'k \<Rightarrow> 'v option" where
  "gm_lookup \<equiv> map_of"

abbreviation gm_set :: "'k \<Rightarrow> 'v \<Rightarrow> ('k, 'v) gomap \<Rightarrow> ('k, 'v) gomap" where
  "gm_set \<equiv> AList.update"

abbreviation gm_delete :: "'k \<Rightarrow> ('k, 'v) gomap \<Rightarrow> ('k, 'v) gomap" where
  "gm_delete \<equiv> AList.delete"

text \<open>\<^verbatim>\<open>m[k]\<close> as an expression: the zero value of the element type for a missing key.\<close>

definition gm_get :: "'v \<Rightarrow> ('k, 'v) gomap \<Rightarrow> 'k \<Rightarrow> 'v" where
  "gm_get z m k = (case gm_lookup m k of None \<Rightarrow> z | Some v \<Rightarrow> v)"

text \<open>
  The loop \<^verbatim>\<open>for k, v := range m { if p(k, v) { delete(m, k) } }\<close>, run over the entries
  of the map at the start of the loop. Go guarantees that an entry deleted during the
  iteration is not visited again.
\<close>

fun gm_sweep_loop :: "('k \<Rightarrow> 'v \<Rightarrow> bool) \<Rightarrow> ('k \<times> 'v) list \<Rightarrow> ('k, 'v) gomap \<Rightarrow> ('k, 'v) gomap" where
  "gm_sweep_loop p [] m = m"
| "gm_sweep_loop p ((k, v) # es) m = gm_sweep_loop p es (if p k v then gm_delete k m else m)"

definition gm_sweep :: "('k \<Rightarrow> 'v \<Rightarrow> bool) \<Rightarrow> ('k, 'v) gomap \<Rightarrow> ('k, 'v) gomap" where
  "gm_sweep p m = gm_sweep_loop p m m"

subsection \<open>The interface of a map\<close>

text \<open>
  What the components rely on when they use a Go map: lookups after writes and deletes,
  and that the listed entries are exactly the graph of the lookup function.
\<close>

locale go_map =
  fixes empty :: "'m"
    and lookup :: "'m \<Rightarrow> 'k \<Rightarrow> 'v option"
    and update :: "'k \<Rightarrow> 'v \<Rightarrow> 'm \<Rightarrow> 'm"
    and delete :: "'k \<Rightarrow> 'm \<Rightarrow> 'm"
    and entries :: "'m \<Rightarrow> ('k \<times> 'v) list"
    and invar :: "'m \<Rightarrow> bool"
  assumes lookup_empty: "lookup empty = Map.empty"
    and lookup_update: "lookup (update k v m) = (lookup m)(k \<mapsto> v)"
    and lookup_delete: "lookup (delete k m) = (lookup m)(k := None)"
    and entries_lookup: "invar m \<Longrightarrow> (k, v) \<in> set (entries m) \<longleftrightarrow> lookup m k = Some v"
    and entries_distinct: "invar m \<Longrightarrow> distinct (map fst (entries m))"
    and invar_empty: "invar empty"
    and invar_update: "invar m \<Longrightarrow> invar (update k v m)"
    and invar_delete: "invar m \<Longrightarrow> invar (delete k m)"
begin

lemma invar_fold_delete: "invar m \<Longrightarrow> invar (fold delete ks m)"
  by (induction ks arbitrary: m) (auto intro: invar_delete)

lemma lookup_fold_delete:
  "lookup (fold delete ks m) k = (if k \<in> set ks then None else lookup m k)"
  by (induction ks arbitrary: m) (auto simp: lookup_delete)

text \<open>Deleting every entry that satisfies a predicate leaves the others as they were.\<close>

lemma lookup_delete_matching:
  assumes "invar m"
  shows "lookup (fold delete (map fst (filter (\<lambda>(k, v). p k v) (entries m))) m) k =
    (case lookup m k of None \<Rightarrow> None | Some v \<Rightarrow> if p k v then None else Some v)"
proof -
  have "k \<in> fst ` {e \<in> set (entries m). case e of (k, v) \<Rightarrow> p k v} \<longleftrightarrow>
      (\<exists>v. lookup m k = Some v \<and> p k v)"
    by (force simp: entries_lookup [OF assms] image_iff)
  then show ?thesis
    by (auto simp: lookup_fold_delete split: option.splits)
qed

lemma finite_dom_lookup:
  assumes "invar m"
  shows "finite (dom (lookup m))"
proof -
  have "dom (lookup m) \<subseteq> fst ` set (entries m)"
  proof
    fix k assume "k \<in> dom (lookup m)"
    then obtain v where "(k, v) \<in> set (entries m)"
      by (auto simp: entries_lookup [OF assms])
    then show "k \<in> fst ` set (entries m)"
      by force
  qed
  then show ?thesis
    by (rule finite_subset) simp
qed

end

interpretation gm: go_map "gm_empty" gm_lookup gm_set gm_delete "\<lambda>m. m" gm_wf
proof unfold_locales
  fix k v and m :: "('k \<times> 'v) list"
  assume "gm_wf m"
  then show "(k, v) \<in> set m \<longleftrightarrow> map_of m k = Some v"
    by (simp add: gm_wf_def)
qed (auto simp: gm_wf_def update_conv' delete_conv' distinct_update distinct_delete)

lemmas gm_update_lookup [gomap_simps] = gm.lookup_update
lemmas gm_delete_lookup [gomap_simps] = gm.lookup_delete
lemmas gm_wf_intros [gomap_intros, intro] = gm.invar_update gm.invar_delete

lemma gm_wf_empty [simp]: "gm_wf []"
  by (simp add: gm_wf_def)

lemma gm_get_empty [simp]: "gm_get z [] k = z"
  by (simp add: gm_get_def)

lemma gm_get_update [gomap_simps]:
  "gm_get z (gm_set k v m) k' = (if k' = k then v else gm_get z m k')"
  by (simp add: gm_get_def gomap_simps)

lemma gm_get_delete [gomap_simps]:
  "gm_get z (gm_delete k m) k' = (if k' = k then z else gm_get z m k')"
  by (simp add: gm_get_def gomap_simps)

lemma gm_sweep_loop_fold:
  "gm_sweep_loop p es m = fold gm_delete (map fst (filter (\<lambda>(k, v). p k v) es)) m"
  by (induction es arbitrary: m) auto

lemma gm_sweep_wf [gomap_intros, intro]: "gm_wf m \<Longrightarrow> gm_wf (gm_sweep p m)"
  by (simp add: gm_sweep_def gm_sweep_loop_fold gm.invar_fold_delete)

lemma gm_sweep_lookup [gomap_simps]:
  "gm_wf m \<Longrightarrow> gm_lookup (gm_sweep p m) k =
    (case gm_lookup m k of None \<Rightarrow> None | Some v \<Rightarrow> if p k v then None else Some v)"
  by (simp add: gm_sweep_def gm_sweep_loop_fold gm.lookup_delete_matching)

lemma gm_entries_iff: "gm_wf m \<Longrightarrow> (k, v) \<in> set m \<longleftrightarrow> gm_lookup m k = Some v"
  by (rule gm.entries_lookup)

lemma gm_get_entry: "gm_wf m \<Longrightarrow> (k, v) \<in> set m \<Longrightarrow> gm_get z m k = v"
  by (simp add: gm_get_def gm_entries_iff)

section \<open>Unsigned 64-bit arithmetic\<close>

lemma unat_u64_Suc [u64_simps]:
  fixes x :: u64
  assumes "x \<noteq> - 1"
  shows "unat (x + 1) = Suc (unat x)"
  using assms by (metis add.commute add_eq_0_iff unatSuc)

lemma u64_less_Suc:
  fixes x :: u64
  assumes "x \<noteq> - 1"
  shows "x < x + 1"
  using unat_u64_Suc [OF assms] by (simp add: word_less_nat_alt)

lemma unat_u64_add [u64_simps]:
  fixes x y :: u64
  assumes "unat x + unat y < 2 ^ 64"
  shows "unat (x + y) = unat x + unat y"
  using assms by (simp add: unat_word_ariths)

lemma unat_u64_diff [u64_simps]:
  fixes x y :: u64
  assumes "y \<le> x"
  shows "unat (x - y) = unat x - unat y"
  using assms by (simp add: unat_sub)

lemma unat_u64_offset [u64_simps]:
  fixes x y :: u64
  assumes "y < x"
  shows "unat (x - y - 1) = unat x - unat y - 1"
proof -
  have "1 \<le> x - y"
    using assms by (metis diff_add_cancel add_0 linorder_not_less word_less_1 not_less_iff_gr_or_eq)
  with assms show ?thesis
    by (simp add: unat_sub)
qed

lemma unat_u64_of_nat [u64_simps]:
  "n < 2 ^ 64 \<Longrightarrow> unat (of_nat n :: u64) = n"
  by (simp add: unat_of_nat take_bit_nat_eq_self)

end
