(* ===== verification/Clock.thy ===== *)
theory Clock
  imports VaultFS_Prelude
begin

text \<open>
  The package \<^verbatim>\<open>internal/clock\<close>: the scalar Lamport clock with its compare-and-swap loop
  and the vector clock, and \<^verbatim>\<open>internal/metadata/version.go\<close>, which wraps a vector clock
  as the version of a chunk.

  The specification of a vector clock is the function from node to counter that reads a
  missing key as 0 (\<open>vc_time\<close>); the operations implement the componentwise order and its
  join on these functions.
\<close>

section \<open>Lamport clock\<close>

record LamportClock =
  counter :: u64

text \<open>Each operation returns its result and the clock after it.\<close>

definition Tick :: "LamportClock \<Rightarrow> u64 \<times> LamportClock" where
  "Tick c = (let v = counter c + 1 in (v, c\<lparr>counter := v\<rparr>))"

definition Now :: "LamportClock \<Rightarrow> u64" where
  "Now c = counter c"

text \<open>
  The loop of \<^verbatim>\<open>Update\<close>. Between the load and the compare-and-swap of one attempt other
  goroutines may write the counter; the list gives what they do during each attempt, and
  attempts after its end run undisturbed.
\<close>

definition lamport_next :: "u64 \<Rightarrow> u64 \<Rightarrow> u64" where
  "lamport_next received cur = (if received \<ge> cur then received + 1 else cur + 1)"

fun LamportUpdate :: "(u64 \<Rightarrow> u64) list \<Rightarrow> LamportClock \<Rightarrow> u64 \<Rightarrow> u64 \<times> LamportClock" where
  "LamportUpdate [] c received =
     (let v = lamport_next received (counter c) in (v, c\<lparr>counter := v\<rparr>))"
| "LamportUpdate (interfere # rest) c received =
     (let cur = counter c; v = lamport_next received cur; seen = interfere cur
      in if seen = cur then (v, c\<lparr>counter := v\<rparr>)
         else LamportUpdate rest (c\<lparr>counter := seen\<rparr>) received)"

section \<open>Vector clock\<close>

type_synonym NodeID = string
type_synonym VectorClock = "(NodeID, u64) gomap"

definition vc_New :: VectorClock where
  "vc_New = gm_empty"

fun clone_loop :: "(NodeID \<times> u64) list \<Rightarrow> VectorClock \<Rightarrow> VectorClock" where
  "clone_loop [] c = c"
| "clone_loop ((k, v) # rest) c = clone_loop rest (gm_set k v c)"

definition clone :: "VectorClock \<Rightarrow> VectorClock" where
  "clone vc = clone_loop vc gm_empty"

definition vc_Increment :: "VectorClock \<Rightarrow> NodeID \<Rightarrow> VectorClock" where
  "vc_Increment vc i = (let nxt = clone vc in gm_set i (gm_get 0 nxt i + 1) nxt)"

fun merge_loop :: "(NodeID \<times> u64) list \<Rightarrow> VectorClock \<Rightarrow> VectorClock" where
  "merge_loop [] result = result"
| "merge_loop ((i, val) # rest) result =
     merge_loop rest (if val > gm_get 0 result i then gm_set i val result else result)"

definition vc_Merge :: "VectorClock \<Rightarrow> VectorClock \<Rightarrow> VectorClock" where
  "vc_Merge vc other = merge_loop other (clone vc)"

text \<open>
  The two loops of \<^verbatim>\<open>HappensBefore\<close>. The first returns early; \<open>None\<close> is the early
  \<^verbatim>\<open>return false\<close>, \<open>Some b\<close> carries \<^verbatim>\<open>atLeastOneStrict\<close> to the second loop.
\<close>

fun hb_loop1 :: "(NodeID \<times> u64) list \<Rightarrow> VectorClock \<Rightarrow> bool \<Rightarrow> bool option" where
  "hb_loop1 [] other strict = Some strict"
| "hb_loop1 ((i, val) # rest) other strict =
     (if val > gm_get 0 other i then None
      else hb_loop1 rest other (if val < gm_get 0 other i then True else strict))"

fun hb_loop2 :: "(NodeID \<times> u64) list \<Rightarrow> VectorClock \<Rightarrow> bool \<Rightarrow> bool" where
  "hb_loop2 [] vc strict = strict"
| "hb_loop2 ((i, val) # rest) vc strict =
     hb_loop2 rest vc (if gm_lookup vc i = None \<and> val > 0 then True else strict)"

definition vc_HappensBefore :: "VectorClock \<Rightarrow> VectorClock \<Rightarrow> bool" where
  "vc_HappensBefore vc other =
     (case hb_loop1 vc other False of
        None \<Rightarrow> False
      | Some strict \<Rightarrow> hb_loop2 other vc strict)"

fun all_ids :: "(NodeID \<times> u64) list \<Rightarrow> (NodeID, unit) gomap \<Rightarrow> (NodeID, unit) gomap" where
  "all_ids [] ids = ids"
| "all_ids ((i, val) # rest) ids = all_ids rest (gm_set i () ids)"

fun eq_loop :: "(NodeID \<times> unit) list \<Rightarrow> VectorClock \<Rightarrow> VectorClock \<Rightarrow> bool" where
  "eq_loop [] vc other = True"
| "eq_loop ((i, _) # rest) vc other =
     (if gm_get 0 vc i \<noteq> gm_get 0 other i then False else eq_loop rest vc other)"

definition vc_Equal :: "VectorClock \<Rightarrow> VectorClock \<Rightarrow> bool" where
  "vc_Equal vc other = eq_loop (all_ids other (all_ids vc gm_empty)) vc other"

definition vc_Concurrent :: "VectorClock \<Rightarrow> VectorClock \<Rightarrow> bool" where
  "vc_Concurrent vc other \<longleftrightarrow>
     \<not> vc_HappensBefore vc other \<and> \<not> vc_HappensBefore other vc \<and> \<not> vc_Equal vc other"

section \<open>Chunk versions\<close>

record ChunkVersion =
  cv_ChunkID :: string
  cv_Clock :: VectorClock

definition NewChunkVersion :: "string \<Rightarrow> ChunkVersion" where
  "NewChunkVersion chunkID = \<lparr>cv_ChunkID = chunkID, cv_Clock = vc_New\<rparr>"

definition cv_Increment :: "ChunkVersion \<Rightarrow> string \<Rightarrow> ChunkVersion" where
  "cv_Increment v nodeID = \<lparr>cv_ChunkID = cv_ChunkID v, cv_Clock = vc_Increment (cv_Clock v) nodeID\<rparr>"

definition cv_Merge :: "ChunkVersion \<Rightarrow> ChunkVersion \<Rightarrow> ChunkVersion" where
  "cv_Merge v other = \<lparr>cv_ChunkID = cv_ChunkID v, cv_Clock = vc_Merge (cv_Clock v) (cv_Clock other)\<rparr>"

definition cv_HappensBefore :: "ChunkVersion \<Rightarrow> ChunkVersion \<Rightarrow> bool" where
  "cv_HappensBefore v other = vc_HappensBefore (cv_Clock v) (cv_Clock other)"

definition cv_Concurrent :: "ChunkVersion \<Rightarrow> ChunkVersion \<Rightarrow> bool" where
  "cv_Concurrent v other = vc_Concurrent (cv_Clock v) (cv_Clock other)"

definition cv_Equal :: "ChunkVersion \<Rightarrow> ChunkVersion \<Rightarrow> bool" where
  "cv_Equal v other = vc_Equal (cv_Clock v) (cv_Clock other)"

section \<open>Lamport clock: monotonicity\<close>

lemma lamport_next_greater:
  assumes "received \<noteq> - 1" and "cur \<noteq> - 1"
  shows "received < lamport_next received cur" and "cur < lamport_next received cur"
  using u64_less_Suc [OF assms(1)] u64_less_Suc [OF assms(2)]
  by (auto simp: lamport_next_def)

text \<open>
  The values the counter takes before each attempt of the loop, the last one being the
  value the successful compare-and-swap replaced.
\<close>

fun update_replaced :: "(u64 \<Rightarrow> u64) list \<Rightarrow> u64 \<Rightarrow> u64" where
  "update_replaced [] cur = cur"
| "update_replaced (interfere # rest) cur =
     (if interfere cur = cur then cur else update_replaced rest (interfere cur))"

lemma LamportUpdate_result:
  "LamportUpdate envs c received =
     (let v = lamport_next received (update_replaced envs (counter c)) in (v, c\<lparr>counter := v\<rparr>))"
  by (induction envs c received rule: LamportUpdate.induct) (auto simp: Let_def)

section \<open>Vector clock: the order it implements\<close>

definition vc_time :: "VectorClock \<Rightarrow> NodeID \<Rightarrow> u64" where
  "vc_time vc i = gm_get 0 vc i"

lemma clone_loop_lookup:
  "distinct (map fst es) \<Longrightarrow>
    gm_lookup (clone_loop es c) k = (case gm_lookup es k of None \<Rightarrow> gm_lookup c k | Some v \<Rightarrow> Some v)"
  by (induction es c rule: clone_loop.induct)
    (auto simp: gomap_simps split: option.splits dest: map_of_SomeD
      intro: rev_image_eqI)

lemma clone_loop_wf: "gm_wf c \<Longrightarrow> gm_wf (clone_loop es c)"
  by (induction es c rule: clone_loop.induct) auto

lemma clone_wf [intro]: "gm_wf (clone vc)"
  by (simp add: clone_def clone_loop_wf)

lemma clone_lookup [simp]: "gm_wf vc \<Longrightarrow> gm_lookup (clone vc) = gm_lookup vc"
  by (auto simp: clone_def clone_loop_lookup gm_wf_def split: option.splits)

lemma vc_Increment_wf [intro]: "gm_wf (vc_Increment vc i)"
  by (auto simp: vc_Increment_def Let_def)

lemma vc_time_Increment:
  "gm_wf vc \<Longrightarrow> vc_time (vc_Increment vc i) = (vc_time vc)(i := vc_time vc i + 1)"
  by (auto simp: vc_Increment_def vc_time_def Let_def gomap_simps gm_get_def)

lemma merge_loop_wf: "gm_wf r \<Longrightarrow> gm_wf (merge_loop es r)"
  by (induction es r rule: merge_loop.induct) (simp_all add: gm.invar_update)

lemma vc_Merge_wf [intro]: "gm_wf (vc_Merge vc other)"
  by (simp add: vc_Merge_def merge_loop_wf clone_wf)

lemma merge_loop_time:
  "distinct (map fst es) \<Longrightarrow>
    vc_time (merge_loop es r) i = max (vc_time r i) (vc_time es i)"
proof (induction es r rule: merge_loop.induct)
  case (1 r)
  then show ?case by (simp add: vc_time_def)
next
  case (2 k v es r)
  have "vc_time es k = 0"
    using "2.prems" by (simp add: vc_time_def gm_get_def map_of_eq_None_iff [THEN iffD2])
  moreover have "vc_time ((k, v) # es) i = (if i = k then v else vc_time es i)"
    by (simp add: vc_time_def gm_get_def)
  ultimately show ?case
    using "2" by (auto simp: vc_time_def gomap_simps max_def word_gt_0)
qed

lemma vc_time_Merge:
  assumes "gm_wf vc" and "gm_wf other"
  shows "vc_time (vc_Merge vc other) i = max (vc_time vc i) (vc_time other i)"
  using assms merge_loop_time [of other "clone vc" i]
  by (simp add: vc_Merge_def vc_time_def gm_get_def gm_wf_def)

lemma hb_loop1_None:
  "hb_loop1 es other b = None \<longleftrightarrow> (\<exists>(i, v) \<in> set es. v > vc_time other i)"
  by (induction es other b rule: hb_loop1.induct) (auto simp: vc_time_def)

lemma hb_loop1_Some:
  "hb_loop1 es other b = Some s \<Longrightarrow> s \<longleftrightarrow> b \<or> (\<exists>(i, v) \<in> set es. v < vc_time other i)"
  by (induction es other b rule: hb_loop1.induct) (auto simp: vc_time_def split: if_splits)

lemma hb_loop2_iff:
  "hb_loop2 es vc b \<longleftrightarrow> b \<or> (\<exists>(i, v) \<in> set es. gm_lookup vc i = None \<and> v > 0)"
  by (induction es vc b rule: hb_loop2.induct) auto

lemma vc_entries:
  "gm_wf vc \<Longrightarrow> (i, v) \<in> set vc \<Longrightarrow> vc_time vc i = v"
  by (simp add: vc_time_def gm_get_entry)

lemma vc_time_pos_entry: "vc_time vc i > 0 \<Longrightarrow> (i, vc_time vc i) \<in> set vc"
  by (auto simp: vc_time_def gm_get_def split: option.splits dest: map_of_SomeD)

lemma hb_loop1_le:
  assumes "gm_wf vc"
  shows "hb_loop1 vc other b \<noteq> None \<longleftrightarrow> (\<forall>i. vc_time vc i \<le> vc_time other i)"
proof
  assume L: "hb_loop1 vc other b \<noteq> None"
  show "\<forall>i. vc_time vc i \<le> vc_time other i"
  proof
    fix i
    show "vc_time vc i \<le> vc_time other i"
    proof (cases "vc_time vc i > 0")
      case True
      from vc_time_pos_entry [OF this] L show ?thesis
        by (auto simp: hb_loop1_None not_less)
    next
      case False
      then show ?thesis by (simp add: word_neq_0_conv [symmetric])
    qed
  qed
next
  assume R: "\<forall>i. vc_time vc i \<le> vc_time other i"
  have "v \<le> vc_time other i" if "(i, v) \<in> set vc" for i v
    using R vc_entries [OF assms that] by metis
  then show "hb_loop1 vc other b \<noteq> None"
    by (auto simp: hb_loop1_None) (meson leD)
qed

lemma vc_strict_entry:
  assumes "gm_wf vc" and "gm_wf other"
  shows "(\<exists>i. vc_time vc i < vc_time other i) \<longleftrightarrow>
    (\<exists>(i, v) \<in> set vc. v < vc_time other i) \<or>
    (\<exists>(i, v) \<in> set other. gm_lookup vc i = None \<and> v > 0)"
  (is "?L \<longleftrightarrow> ?A \<or> ?B")
proof
  assume ?L
  then obtain i where i: "vc_time vc i < vc_time other i" by blast
  show "?A \<or> ?B"
  proof (cases "gm_lookup vc i")
    case None
    have "(i, vc_time other i) \<in> set other"
      using i by (intro vc_time_pos_entry) (auto intro: le_less_trans)
    moreover have "vc_time other i > 0"
      using i by (auto intro: le_less_trans)
    ultimately show ?thesis using None by blast
  next
    case (Some v)
    then have "(i, v) \<in> set vc" and "vc_time vc i = v"
      by (auto simp: vc_time_def gm_get_def dest: map_of_SomeD)
    with i show ?thesis by blast
  qed
next
  assume "?A \<or> ?B"
  then show ?L
  proof
    assume ?A
    then show ?L using vc_entries [OF assms(1)] by fastforce
  next
    assume ?B
    then obtain i v where "(i, v) \<in> set other" "gm_lookup vc i = None" "v > 0" by blast
    then have "vc_time vc i = 0" and "vc_time other i > 0"
      using vc_entries [OF assms(2)] by (auto simp: vc_time_def gm_get_def)
    then show ?L by metis
  qed
qed

lemma vc_HappensBefore_iff:
  assumes "gm_wf vc" and "gm_wf other"
  shows "vc_HappensBefore vc other \<longleftrightarrow>
    (\<forall>i. vc_time vc i \<le> vc_time other i) \<and> (\<exists>i. vc_time vc i < vc_time other i)"
proof (cases "hb_loop1 vc other False")
  case None
  with hb_loop1_le [OF assms(1), of other False] show ?thesis
    by (simp add: vc_HappensBefore_def)
next
  case (Some s)
  with hb_loop1_le [OF assms(1), of other False] hb_loop1_Some [OF Some]
    vc_strict_entry [OF assms]
  show ?thesis by (simp add: vc_HappensBefore_def hb_loop2_iff)
qed

lemma all_ids_keys: "fst ` set (all_ids es ids) = fst ` set es \<union> fst ` set ids"
  by (induction es ids rule: all_ids.induct) (auto simp: dom_update)

lemma eq_loop_iff:
  "eq_loop ids vc other \<longleftrightarrow> (\<forall>i \<in> fst ` set ids. vc_time vc i = vc_time other i)"
  by (induction ids vc other rule: eq_loop.induct) (auto simp: vc_time_def)

lemma vc_Equal_iff: "vc_Equal vc other \<longleftrightarrow> vc_time vc = vc_time other"
proof -
  have "vc_time vc i = vc_time other i" if "i \<notin> fst ` set other \<union> fst ` set vc" for i
    using that by (auto simp: vc_time_def gm_get_def split: option.splits dest!: map_of_SomeD)
      force+
  then show ?thesis
    by (auto simp: vc_Equal_def eq_loop_iff all_ids_keys fun_eq_iff)
qed

lemma vc_HappensBefore_less:
  "gm_wf vc \<Longrightarrow> gm_wf other \<Longrightarrow> vc_HappensBefore vc other \<longleftrightarrow> vc_time vc < vc_time other"
  by (simp add: vc_HappensBefore_iff less_fun_def le_fun_def not_le)

definition vc_below :: "VectorClock \<Rightarrow> VectorClock \<Rightarrow> bool" where
  "vc_below vc other \<longleftrightarrow> vc_HappensBefore vc other \<or> vc_Equal vc other"

lemma vc_below_iff:
  "gm_wf vc \<Longrightarrow> gm_wf other \<Longrightarrow> vc_below vc other \<longleftrightarrow> vc_time vc \<le> vc_time other"
  by (simp add: vc_below_def vc_HappensBefore_less vc_Equal_iff order_le_less)

lemma vc_time_Merge_le:
  "gm_wf a \<Longrightarrow> gm_wf b \<Longrightarrow> vc_time (vc_Merge a b) \<le> f \<longleftrightarrow> vc_time a \<le> f \<and> vc_time b \<le> f"
  by (auto simp: vc_time_Merge le_fun_def)

lemma fun_upd_less:
  fixes f :: "'a \<Rightarrow> 'b::order"
  assumes "f i < v"
  shows "f < f(i := v)"
  using assms by (auto simp: less_fun_def le_fun_def less_le_not_le)

section \<open>Properties\<close>

text \<open>A Lamport clock that receives a timestamp ends above it. Whatever other goroutines do to
  the counter between the load and the compare-and-swap of each attempt, the returned value is
  greater than the received timestamp and than the value it replaced, and it is the value the clock
  holds afterwards (away from the wrap-around at \<open>2 ^ 64 - 1\<close>).\<close>

theorem lamport_update_after:
  assumes "received \<noteq> - 1" and "update_replaced envs (counter c) \<noteq> - 1"
  shows "received < fst (LamportUpdate envs c received)
    \<and> update_replaced envs (counter c) < fst (LamportUpdate envs c received)
    \<and> Now (snd (LamportUpdate envs c received)) = fst (LamportUpdate envs c received)"
  using lamport_next_greater [OF assms] by (simp add: LamportUpdate_result Let_def Now_def)

theorem lamport_update_after_witness:
  "(7::u64) < fst (LamportUpdate [\<lambda>x. x + 10] \<lparr>counter = 3\<rparr> 7)
    \<and> 13 < fst (LamportUpdate [\<lambda>x. x + 10] \<lparr>counter = 3\<rparr> 7)
    \<and> fst (LamportUpdate [\<lambda>x. x + 10] \<lparr>counter = 3\<rparr> 7) = 14"
  using lamport_update_after [of 7 "[\<lambda>x. x + 10]" "\<lparr>counter = 3\<rparr>"]
  by (simp add: lamport_next_def)

text \<open>Any two vector clocks stand in exactly one of the four relations equal, before, after
  and concurrent, and before is the strict componentwise order in which a missing counter is 0.\<close>

theorem vc_relations_partition:
  assumes "gm_wf vc" and "gm_wf other"
  shows "(vc_HappensBefore vc other \<longleftrightarrow> vc_time vc < vc_time other)
    \<and> length (filter id [vc_Equal vc other, vc_HappensBefore vc other,
       vc_HappensBefore other vc, vc_Concurrent vc other]) = 1"
  using assms by (auto simp: vc_HappensBefore_less vc_Equal_iff vc_Concurrent_def)

theorem vc_relations_partition_witness:
  "vc_HappensBefore [(''a'', 1)] [(''b'', 2), (''a'', 1)] \<and>
     vc_time [(''a'', 1)] < vc_time [(''b'', 2), (''a'', 1)]"
  using vc_relations_partition [of "[(''a'', 1)]" "[(''b'', 2), (''a'', 1)]"]
  by (simp_all add: gm_wf_def vc_HappensBefore_def gm_get_def)

text \<open>Merging two vector clocks gives their least upper bound: neither clock is after the
  merged one, and the merged one is before or equal to every clock that both are before or equal
  to.\<close>

theorem vc_merge_least_upper_bound:
  assumes "gm_wf a" and "gm_wf b" and "gm_wf c"
  shows "vc_below a (vc_Merge a b) \<and> vc_below b (vc_Merge a b)
    \<and> (vc_below (vc_Merge a b) c \<longleftrightarrow> vc_below a c \<and> vc_below b c)"
  using assms vc_time_Merge_le [of a b "vc_time (vc_Merge a b)"]
  by (simp add: vc_below_iff vc_Merge_wf vc_time_Merge_le)

theorem vc_merge_least_upper_bound_witness:
  "vc_below [(''a'', 1)] (vc_Merge [(''a'', 1)] [(''b'', 2)])"
  using vc_merge_least_upper_bound [of "[(''a'', 1)]" "[(''b'', 2)]" "[]"]
  by (simp add: gm_wf_def)



end
