(* ===== verification/Raft_Log.thy ===== *)
theory Raft_Log
  imports VaultFS_Prelude
begin

text \<open>
  The in-memory Raft log of \<^verbatim>\<open>internal/raft/log.go\<close>, with the \<^verbatim>\<open>Entry\<close> type of
  \<^verbatim>\<open>internal/raft/types.go\<close>. Indices and terms are 64-bit words; a slice bound is the natural
  number the word denotes, as Go slices are shorter than \<open>2 ^ 63\<close>.

  Under the invariant of the source comment (\<open>log_wf\<close>) the offset arithmetic of \<^verbatim>\<open>Slice\<close>,
  \<^verbatim>\<open>TruncateAfter\<close> and \<^verbatim>\<open>SetSnapshot\<close> selects the entries by index, and \<^verbatim>\<open>Term\<close> answers for
  exactly the indices the log covers. The locale \<open>indexed_log\<close> is the part of this the node
  relies on.
\<close>

section \<open>Types\<close>

record Entry =
  e_Index :: u64
  e_Term :: u64
  e_Command :: bytes

datatype raft_error = ErrCompacted u64 | ErrIndexNotFound u64 | ErrNotLeader

record raftLog =
  log_entries :: "Entry list"
  snapIndex :: u64
  snapTerm :: u64

section \<open>Operations\<close>

definition newRaftLog :: raftLog where
  "newRaftLog = \<lparr>log_entries = [], snapIndex = 0, snapTerm = 0\<rparr>"

definition lastIndex :: "raftLog \<Rightarrow> u64" where
  "lastIndex l = (if log_entries l = [] then snapIndex l else e_Index (last (log_entries l)))"

definition lastTerm :: "raftLog \<Rightarrow> u64" where
  "lastTerm l = (if log_entries l = [] then snapTerm l else e_Term (last (log_entries l)))"

definition log_Term :: "raftLog \<Rightarrow> u64 \<Rightarrow> raft_error + u64" where
  "log_Term l index =
     (if index = 0 then Inr 0
      else if index = snapIndex l then Inr (snapTerm l)
      else if index < snapIndex l then Inl (ErrCompacted index)
      else let offset = index - snapIndex l - 1
        in if unat offset \<ge> length (log_entries l) then Inl (ErrIndexNotFound index)
           else Inr (e_Term (log_entries l ! unat offset)))"

definition log_Append :: "raftLog \<Rightarrow> Entry list \<Rightarrow> raftLog" where
  "log_Append l es = l\<lparr>log_entries := log_entries l @ es\<rparr>"

definition TruncateAfter :: "raftLog \<Rightarrow> u64 \<Rightarrow> raftLog" where
  "TruncateAfter l index =
     (if index \<le> snapIndex l then l\<lparr>log_entries := []\<rparr>
      else let offset = index - snapIndex l - 1
        in if unat offset < length (log_entries l)
           then l\<lparr>log_entries := take (unat offset) (log_entries l)\<rparr>
           else l)"

definition log_Slice :: "raftLog \<Rightarrow> u64 \<Rightarrow> u64 \<Rightarrow> Entry list" where
  "log_Slice l from to =
     (if from \<ge> to \<or> from \<le> snapIndex l \<or> length (log_entries l) = 0 then []
      else let fromOff = unat (from - snapIndex l - 1);
               toOff = unat (to - snapIndex l - 1)
        in if fromOff \<ge> length (log_entries l) then []
           else let toOff' = (if toOff > length (log_entries l) then length (log_entries l) else toOff)
             in take (toOff' - fromOff) (drop fromOff (log_entries l)))"

definition SetSnapshot :: "raftLog \<Rightarrow> u64 \<Rightarrow> u64 \<Rightarrow> raftLog" where
  "SetSnapshot l index tm =
     (if index \<le> snapIndex l then l
      else let offset = unat (index - snapIndex l);
               remaining = (if offset \<ge> length (log_entries l) then [] else drop offset (log_entries l))
        in l\<lparr>log_entries := remaining, snapIndex := index, snapTerm := tm\<rparr>)"

definition log_Len :: "raftLog \<Rightarrow> nat" where
  "log_Len l = length (log_entries l)"

section \<open>The invariant and the position of an index\<close>

text \<open>
  \<^verbatim>\<open>entries[i].Index == snapIndex + 1 + i\<close>, with room for the indices below \<open>2 ^ 64\<close>.
\<close>

definition log_wf :: "raftLog \<Rightarrow> bool" where
  "log_wf l \<longleftrightarrow> unat (snapIndex l) + length (log_entries l) < 2 ^ 64 \<and>
     (\<forall>i < length (log_entries l). unat (e_Index (log_entries l ! i)) = unat (snapIndex l) + 1 + i)"

lemma log_wfD:
  assumes "log_wf l"
  shows "unat (snapIndex l) + length (log_entries l) < 2 ^ 64"
    and "i < length (log_entries l) \<Longrightarrow> unat (e_Index (log_entries l ! i)) = unat (snapIndex l) + 1 + i"
  using assms by (auto simp: log_wf_def)

lemma newRaftLog_wf: "log_wf newRaftLog"
  by (simp add: newRaftLog_def log_wf_def)

lemma unat_lastIndex:
  assumes "log_wf l"
  shows "unat (lastIndex l) = unat (snapIndex l) + length (log_entries l)"
  using log_wfD(2) [OF assms, of "length (log_entries l) - 1"]
  by (cases "log_entries l" rule: rev_cases) (auto simp: lastIndex_def)

lemma filter_segment:
  assumes "\<And>i. i < length xs \<Longrightarrow> P (xs ! i) \<longleftrightarrow> a \<le> i \<and> i < b"
  shows "filter P xs = take (b - a) (drop a xs)"
  using assms
proof (induction xs arbitrary: a b)
  case Nil
  then show ?case by simp
next
  case (Cons x xs)
  have tail: "filter P xs = take ((b - 1) - (a - 1)) (drop (a - 1) xs)" if "0 < a"
    using that Cons.prems [of "Suc i" for i] by (intro Cons.IH) force
  have tail0: "filter P xs = take (b - 1) (drop 0 xs)" if "a = 0"
    using that Cons.prems [of "Suc i" for i] Cons.IH [of 0 "b - 1"] by force
  show ?case
  proof (cases a)
    case 0
    with Cons.prems [of 0] tail0 show ?thesis by (cases b) auto
  next
    case (Suc a')
    with Cons.prems [of 0] tail show ?thesis by auto
  qed
qed

section \<open>Operations select entries by index\<close>

lemma TruncateAfter_entries:
  assumes "log_wf l"
  shows "log_entries (TruncateAfter l index) = filter (\<lambda>e. e_Index e < index) (log_entries l)"
proof -
  let ?k = "unat index - unat (snapIndex l) - 1"
  have "filter (\<lambda>e. e_Index e < index) (log_entries l) = take (?k - 0) (drop 0 (log_entries l))"
    by (rule filter_segment) (auto simp: word_less_nat_alt log_wfD(2) [OF assms])
  moreover have "unat (index - snapIndex l - 1) = ?k" if "snapIndex l < index"
    using that by (rule unat_u64_offset)
  ultimately show ?thesis
    by (auto simp: TruncateAfter_def Let_def not_le [symmetric])
      (simp_all add: word_le_nat_alt)
qed

lemma log_Slice_entries:
  assumes "log_wf l"
  shows "log_Slice l from to =
    (if from \<le> snapIndex l then []
     else filter (\<lambda>e. from \<le> e_Index e \<and> e_Index e < to) (log_entries l))"
proof (cases "from \<le> snapIndex l \<or> to \<le> from")
  case True
  then show ?thesis by (auto simp: log_Slice_def filter_empty_conv intro!: sym [of _ "[]"])
next
  case False
  then have "snapIndex l < from" and "snapIndex l < to" by auto
  then have offs: "unat (from - snapIndex l - 1) = unat from - unat (snapIndex l) - 1"
      "unat (to - snapIndex l - 1) = unat to - unat (snapIndex l) - 1"
    by (simp_all add: unat_u64_offset)
  have "filter (\<lambda>e. from \<le> e_Index e \<and> e_Index e < to) (log_entries l) =
    take ((unat to - unat (snapIndex l) - 1) - (unat from - unat (snapIndex l) - 1))
      (drop (unat from - unat (snapIndex l) - 1) (log_entries l))"
    using False
    by (intro filter_segment)
      (auto simp: word_less_nat_alt word_le_nat_alt log_wfD(2) [OF assms])
  with False show ?thesis
    by (auto simp: log_Slice_def Let_def offs)
qed

lemma SetSnapshot_entries:
  assumes "log_wf l" and "snapIndex l < index"
  shows "log_entries (SetSnapshot l index tm) = filter (\<lambda>e. index < e_Index e) (log_entries l)"
proof -
  let ?k = "unat index - unat (snapIndex l)"
  have "filter (\<lambda>e. index < e_Index e) (log_entries l) =
      take (length (log_entries l) - ?k) (drop ?k (log_entries l))"
    using assms(2)
    by (intro filter_segment) (auto simp: word_less_nat_alt log_wfD(2) [OF assms(1)])
  moreover have "unat (index - snapIndex l) = ?k"
    using assms(2) by (intro unat_u64_diff) simp
  ultimately show ?thesis
    using assms(2) by (auto simp: SetSnapshot_def Let_def not_le)
qed

section \<open>The invariant is kept\<close>

definition consecutive_from :: "u64 \<Rightarrow> Entry list \<Rightarrow> bool" where
  "consecutive_from prev es \<longleftrightarrow> unat prev + length es < 2 ^ 64 \<and>
     (\<forall>i < length es. unat (e_Index (es ! i)) = unat prev + 1 + i)"

lemma log_wf_consecutive: "log_wf l \<longleftrightarrow> consecutive_from (snapIndex l) (log_entries l)"
  by (simp add: log_wf_def consecutive_from_def)

lemma log_Append_wf:
  assumes "log_wf l" and "consecutive_from (lastIndex l) es"
  shows "log_wf (log_Append l es)"
  using assms unat_lastIndex [OF assms(1)]
  by (auto simp: log_wf_def log_Append_def consecutive_from_def nth_append)

lemma TruncateAfter_wf: "log_wf l \<Longrightarrow> log_wf (TruncateAfter l index)"
  by (auto simp: log_wf_def TruncateAfter_def Let_def)

lemma SetSnapshot_wf:
  assumes "log_wf l"
  shows "log_wf (SetSnapshot l index tm)"
proof (cases "snapIndex l < index")
  case True
  then have off: "unat (index - snapIndex l) = unat index - unat (snapIndex l)"
    and lt: "unat (snapIndex l) < unat index"
    by (simp_all add: unat_u64_diff) (simp add: word_less_nat_alt)
  have "unat index < 2 ^ 64"
    using unsigned_less [of index] by simp
  with True off lt log_wfD [OF assms] show ?thesis
    by (auto simp: log_wf_def SetSnapshot_def Let_def not_le)
next
  case False
  with assms show ?thesis by (simp add: SetSnapshot_def not_less)
qed

section \<open>Reading terms\<close>

lemma log_Term_entry:
  assumes "log_wf l" and "e \<in> set (log_entries l)"
  shows "log_Term l (e_Index e) = Inr (e_Term e)"
proof -
  obtain i where i: "i < length (log_entries l)" "log_entries l ! i = e"
    using assms(2) by (auto simp: in_set_conv_nth)
  have idx: "unat (e_Index e) = unat (snapIndex l) + 1 + i"
    using log_wfD(2) [OF assms(1) i(1)] i(2) by simp
  then have "snapIndex l < e_Index e" and "e_Index e \<noteq> 0"
    by (auto simp: word_less_nat_alt)
  with idx i unat_u64_offset [of "snapIndex l" "e_Index e"] show ?thesis
    by (auto simp: log_Term_def Let_def)
qed

lemma log_Term_ok_iff:
  assumes "log_wf l"
  shows "(\<exists>t. log_Term l index = Inr t) \<longleftrightarrow>
    index = 0 \<or> (snapIndex l \<le> index \<and> index \<le> lastIndex l)"
proof (cases "snapIndex l < index")
  case True
  then have off: "unat (index - snapIndex l - 1) = unat index - unat (snapIndex l) - 1"
    by (rule unat_u64_offset)
  have nz: "index \<noteq> 0" "index \<noteq> snapIndex l" "\<not> index < snapIndex l" "snapIndex l \<le> index"
    using True by auto
  have "unat (snapIndex l) < unat index"
    using True by (simp add: word_less_nat_alt)
  then have "index \<le> lastIndex l \<longleftrightarrow> unat (index - snapIndex l - 1) < length (log_entries l)"
    unfolding word_le_nat_alt unat_lastIndex [OF assms] off by arith
  with nz show ?thesis
    by (simp add: log_Term_def Let_def not_le)
next
  case False
  have "snapIndex l \<le> lastIndex l"
    by (simp add: word_le_nat_alt unat_lastIndex [OF assms])
  with False show ?thesis
    by (auto simp: log_Term_def not_less)
qed

lemma log_Term_cases:
  assumes "log_wf l" and "log_Term l index = Inr t"
  obtains (zero) "index = 0" "t = 0"
    | (snap) "index = snapIndex l" "t = snapTerm l"
    | (entry) e where "e \<in> set (log_entries l)" "e_Index e = index" "e_Term e = t"
proof (cases "index = 0 \<or> index = snapIndex l")
  case True
  with assms(2) zero snap show thesis by (auto simp: log_Term_def split: if_splits)
next
  case False
  with assms(2) have gt: "snapIndex l < index"
    by (auto simp: log_Term_def not_less split: if_splits)
  define i where "i = unat (index - snapIndex l - 1)"
  have i: "i < length (log_entries l)" "t = e_Term (log_entries l ! i)"
    using False gt assms(2) by (auto simp: log_Term_def Let_def i_def split: if_splits)
  have "unat (e_Index (log_entries l ! i)) = unat index"
    using log_wfD(2) [OF assms(1) i(1)] unat_u64_offset [OF gt] gt
    by (simp add: i_def word_less_nat_alt)
  then have "e_Index (log_entries l ! i) = index"
    by (simp add: word_unat_eq_iff)
  with i show thesis by (intro entry [of "log_entries l ! i"]) auto
qed

section \<open>The log as the node sees it\<close>

lemma consecutive_from_Cons:
  "consecutive_from prev (e # es) \<longleftrightarrow>
     unat (e_Index e) = unat prev + 1 \<and> consecutive_from (e_Index e) es"
  by (auto simp: consecutive_from_def nth_Cons less_Suc_eq_0_disj split: nat.splits)

lemma consecutive_from_Nil [simp]: "consecutive_from prev []"
  using unsigned_less [of prev] by (simp add: consecutive_from_def)

lemma consecutive_from_index:
  assumes "consecutive_from prev es" and "e \<in> set es"
  shows "prev < e_Index e" and "unat (e_Index e) \<le> unat prev + length es"
proof -
  obtain i where "i < length es" "es ! i = e"
    using assms(2) by (auto simp: in_set_conv_nth)
  with assms(1) have "unat (e_Index e) = unat prev + 1 + i" and "i < length es"
    by (auto simp: consecutive_from_def)
  then show "prev < e_Index e" and "unat (e_Index e) \<le> unat prev + length es"
    by (auto simp: word_less_nat_alt)
qed

text \<open>
  The interface: \<open>base\<close> is the snapshot index, \<open>final\<close> the last index, \<open>termat\<close> the term read;
  the log covers \<open>base .. final\<close>. Truncating and appending change exactly what they should.
\<close>

locale indexed_log =
  fixes base final :: "'l \<Rightarrow> u64"
    and termat :: "'l \<Rightarrow> u64 \<Rightarrow> raft_error + u64"
    and append :: "'l \<Rightarrow> Entry list \<Rightarrow> 'l"
    and truncate :: "'l \<Rightarrow> u64 \<Rightarrow> 'l"
    and invar :: "'l \<Rightarrow> bool"
  assumes covered: "invar l \<Longrightarrow> (\<exists>t. termat l i = Inr t) \<longleftrightarrow> i = 0 \<or> (base l \<le> i \<and> i \<le> final l)"
    and append_invar: "invar l \<Longrightarrow> consecutive_from (final l) es \<Longrightarrow> invar (append l es)"
    and append_base: "base (append l es) = base l"
    and append_final: "invar l \<Longrightarrow> consecutive_from (final l) es \<Longrightarrow>
      unat (final (append l es)) = unat (final l) + length es"
    and append_old: "invar l \<Longrightarrow> consecutive_from (final l) es \<Longrightarrow> i \<le> final l \<Longrightarrow>
      termat (append l es) i = termat l i"
    and append_new: "invar l \<Longrightarrow> consecutive_from (final l) es \<Longrightarrow> e \<in> set es \<Longrightarrow>
      termat (append l es) (e_Index e) = Inr (e_Term e)"
    and truncate_invar: "invar l \<Longrightarrow> invar (truncate l i)"
    and truncate_base: "base (truncate l i) = base l"
    and truncate_final: "invar l \<Longrightarrow> base l < i \<Longrightarrow> i \<le> final l \<Longrightarrow>
      unat (final (truncate l i)) + 1 = unat i"
    and truncate_old: "invar l \<Longrightarrow> base l < i \<Longrightarrow> j < i \<Longrightarrow> termat (truncate l i) j = termat l j"
begin

text \<open>Cutting the log at the first new entry and appending makes the log end with the new entries.\<close>

lemma replace_tail:
  assumes "invar l" and "base l < e_Index e" and "e_Index e \<le> final l"
    and "consecutive_from prev (e # es)"
  shows "invar (append (truncate l (e_Index e)) (e # es))"
    and "unat (final (append (truncate l (e_Index e)) (e # es))) = unat prev + length (e # es)"
    and "x \<in> set (e # es) \<Longrightarrow>
      termat (append (truncate l (e_Index e)) (e # es)) (e_Index x) = Inr (e_Term x)"
    and "i \<le> prev \<Longrightarrow> termat (append (truncate l (e_Index e)) (e # es)) i = termat l i"
proof -
  have t: "invar (truncate l (e_Index e))"
    using assms(1) by (rule truncate_invar)
  have "unat (final (truncate l (e_Index e))) = unat prev"
    using truncate_final [OF assms(1-3)] assms(4) by (simp add: consecutive_from_Cons)
  then have f: "final (truncate l (e_Index e)) = prev"
    by (simp add: word_unat_eq_iff)
  with assms(4) have c: "consecutive_from (final (truncate l (e_Index e))) (e # es)"
    by simp
  show "invar (append (truncate l (e_Index e)) (e # es))"
    using t c by (rule append_invar)
  show "unat (final (append (truncate l (e_Index e)) (e # es))) = unat prev + length (e # es)"
    using append_final [OF t c] f by simp
  show "x \<in> set (e # es) \<Longrightarrow>
      termat (append (truncate l (e_Index e)) (e # es)) (e_Index x) = Inr (e_Term x)"
    using t c by (rule append_new)
  show "termat (append (truncate l (e_Index e)) (e # es)) i = termat l i" if "i \<le> prev"
  proof -
    have "i < e_Index e"
      using that assms(4) by (simp add: consecutive_from_Cons word_le_nat_alt word_less_nat_alt)
    then have "termat (truncate l (e_Index e)) i = termat l i"
      using assms(1,2) by (intro truncate_old)
    then show ?thesis
      using append_old [OF t c, of i] that f by simp
  qed
qed

end

lemma snapIndex_unchanged [simp]:
  "snapIndex (log_Append l es) = snapIndex l" "snapTerm (log_Append l es) = snapTerm l"
  "snapIndex (TruncateAfter l i) = snapIndex l" "snapTerm (TruncateAfter l i) = snapTerm l"
  by (simp_all add: log_Append_def TruncateAfter_def Let_def)

lemma log_Term_append_old:
  assumes "log_wf l" and "i \<le> lastIndex l"
  shows "log_Term (log_Append l es) i = log_Term l i"
proof (cases "snapIndex l < i")
  case True
  have "unat (i - snapIndex l - 1) < length (log_entries l)"
    using True assms(2) unat_u64_offset [OF True] unat_lastIndex [OF assms(1)]
    by (simp add: word_le_nat_alt word_less_nat_alt)
  then show ?thesis
    by (simp add: log_Term_def log_Append_def Let_def nth_append)
next
  case False
  then show ?thesis
    by (auto simp: log_Term_def log_Append_def not_less)
qed

lemma log_Term_truncate_old:
  assumes "log_wf l" and "snapIndex l < i" and "j < i"
  shows "log_Term (TruncateAfter l i) j = log_Term l j"
proof (cases "snapIndex l < j")
  case True
  have "unat (j - snapIndex l - 1) < unat (i - snapIndex l - 1)"
    using True assms(2,3) by (simp add: unat_u64_offset word_less_nat_alt)
  with assms(2) show ?thesis
    by (auto simp: log_Term_def TruncateAfter_def Let_def)
next
  case False
  with assms(2) show ?thesis
    by (auto simp: log_Term_def TruncateAfter_def Let_def not_less)
qed

lemma TruncateAfter_final:
  assumes "log_wf l" and "snapIndex l < i" and "i \<le> lastIndex l"
  shows "unat (lastIndex (TruncateAfter l i)) + 1 = unat i"
proof -
  have "unat (i - snapIndex l - 1) < length (log_entries l)"
    using assms unat_u64_offset [OF assms(2)] unat_lastIndex [OF assms(1)]
    by (simp add: word_le_nat_alt word_less_nat_alt)
  then have "length (log_entries (TruncateAfter l i)) = unat i - unat (snapIndex l) - 1"
    and "snapIndex (TruncateAfter l i) = snapIndex l"
    using assms(2) by (auto simp: TruncateAfter_def Let_def unat_u64_offset)
  with assms(2) unat_lastIndex [OF TruncateAfter_wf [OF assms(1), of i]] show ?thesis
    by (simp add: word_less_nat_alt)
qed

interpretation rl: indexed_log snapIndex lastIndex log_Term log_Append TruncateAfter log_wf
proof unfold_locales
  fix l es
  assume l: "log_wf l" and c: "consecutive_from (lastIndex l) es"
  show "unat (lastIndex (log_Append l es)) = unat (lastIndex l) + length es"
    using unat_lastIndex [OF l] unat_lastIndex [OF log_Append_wf [OF l c]]
    by (simp add: log_Append_def)
  show "log_Term (log_Append l es) (e_Index e) = Inr (e_Term e)" if "e \<in> set es" for e
    using that log_Append_wf [OF l c] by (intro log_Term_entry) (auto simp: log_Append_def)
qed (simp_all add: log_Term_ok_iff log_Append_wf log_Term_append_old TruncateAfter_wf
    TruncateAfter_final [simplified] log_Term_truncate_old)

section \<open>The log as a map from indices to entries\<close>

lemma log_Term_find:
  assumes "log_wf l" and "snapIndex l < i"
  shows "log_Term l i = (case find (\<lambda>e. e_Index e = i) (log_entries l) of
           None \<Rightarrow> Inl (ErrIndexNotFound i) | Some e \<Rightarrow> Inr (e_Term e))"
proof (cases "find (\<lambda>e. e_Index e = i) (log_entries l)")
  case None
  have "i \<noteq> 0" using assms(2) by auto
  show ?thesis
  proof (cases "unat (i - snapIndex l - 1) < length (log_entries l)")
    case True
    then have "unat (e_Index (log_entries l ! unat (i - snapIndex l - 1))) = unat i"
      using log_wfD(2) [OF assms(1) True] assms(2) unat_u64_offset [OF assms(2)]
      by (simp add: word_less_nat_alt)
    then have "e_Index (log_entries l ! unat (i - snapIndex l - 1)) = i" by (simp add: word_unat_eq_iff)
    with None True show ?thesis by (auto simp: find_None_iff)
  next
    case False
    with None \<open>i \<noteq> 0\<close> assms(2) show ?thesis by (auto simp: log_Term_def Let_def)
  qed
next
  case (Some e)
  then have "e \<in> set (log_entries l)" and "e_Index e = i"
    by (auto simp: find_Some_iff)
  with log_Term_entry [OF assms(1), of e] Some show ?thesis by simp
qed

text \<open>
  C38: With \<open>entries[i].Index == snapIndex + 1 + i\<close>, the offset arithmetic of the log (unsigned,
  wrapping) selects exactly by index: \<open>Slice\<close> returns the entries with an index in the half-open
  range, and nothing when the range starts in the snapshot; \<open>TruncateAfter\<close> keeps the entries
  below the index; \<open>SetSnapshot\<close> keeps those above it; and \<open>Term\<close> of an index above the
  snapshot is the term of the entry with that index, or \<open>ErrIndexNotFound\<close>.
\<close>
theorem raft_log_select_by_index:
  assumes "log_wf l"
  shows "log_Slice l from to = (if from \<le> snapIndex l then []
      else filter (\<lambda>e. from \<le> e_Index e \<and> e_Index e < to) (log_entries l)) \<and>
    log_entries (TruncateAfter l i) = filter (\<lambda>e. e_Index e < i) (log_entries l) \<and>
    (snapIndex l < i \<longrightarrow>
      log_entries (SetSnapshot l i tm) = filter (\<lambda>e. i < e_Index e) (log_entries l) \<and>
      log_Term l i = (case find (\<lambda>e. e_Index e = i) (log_entries l) of
         None \<Rightarrow> Inl (ErrIndexNotFound i) | Some e \<Rightarrow> Inr (e_Term e)))"
  using log_Slice_entries [OF assms] TruncateAfter_entries [OF assms] SetSnapshot_entries [OF assms]
    log_Term_find [OF assms] by blast

text \<open>A log with a snapshot at 3 and the entries 4, 5 and 6.\<close>

definition sample_log :: raftLog where
  "sample_log = \<lparr>log_entries = [\<lparr>e_Index = 4, e_Term = 1, e_Command = []\<rparr>,
      \<lparr>e_Index = 5, e_Term = 2, e_Command = []\<rparr>, \<lparr>e_Index = 6, e_Term = 2, e_Command = []\<rparr>],
    snapIndex = 3, snapTerm = 1\<rparr>"

lemma sample_log_wf: "log_wf sample_log"
  by (simp add: log_wf_def sample_log_def less_Suc_eq nth_Cons')

theorem raft_log_select_by_index_witness:
  "log_wf sample_log \<and> map e_Index (log_Slice sample_log 5 6) = [5] \<and>
   map e_Index (log_entries (TruncateAfter sample_log 5)) = [4] \<and>
   map e_Index (log_entries (SetSnapshot sample_log 4 1)) = [5, 6] \<and> log_Term sample_log 4 = Inr 1"
  using sample_log_wf raft_log_select_by_index [OF sample_log_wf, of 5 6 5 1]
    raft_log_select_by_index [OF sample_log_wf, of 5 6 4 1]
  by (simp add: sample_log_def)

end
