(* ===== verification/Raft_Node.thy ===== *)
theory Raft_Node
  imports Raft_Log
begin

text \<open>
  One Raft participant: the state of \<^verbatim>\<open>Node\<close> (\<^verbatim>\<open>internal/raft/node.go\<close>), the messages of
  \<^verbatim>\<open>types.go\<close>, and the code of \<^verbatim>\<open>election.go\<close>, \<^verbatim>\<open>replication.go\<close> and \<^verbatim>\<open>snapshot.go\<close>.

  Every critical section under \<^verbatim>\<open>n.mu\<close> is one function on the node state. A method that
  releases the lock around an RPC is split where the lock is released: \<^verbatim>\<open>maybeStartElection\<close>
  into \<open>startElection\<close>, \<open>singleNodeWin\<close> and \<open>handleVoteReply\<close>, \<^verbatim>\<open>replicateTo\<close> into
  \<open>replicateTo_send\<close> and \<open>replicateTo_reply\<close>, \<^verbatim>\<open>sendSnapshot\<close> into \<open>sendSnapshot_send\<close> and
  \<open>sendSnapshot_reply\<close>. A buffered channel of capacity one is a flag that says it is full, so
  the non-blocking send of the source sets the flag.
\<close>

section \<open>State and messages\<close>

datatype NodeState = Follower | Candidate | Leader

definition NodeState_String :: "NodeState \<Rightarrow> string" where
  "NodeState_String s =
     (case s of Follower \<Rightarrow> ''follower'' | Candidate \<Rightarrow> ''candidate'' | Leader \<Rightarrow> ''leader'')"

record Node =
  nd_id :: string
  nd_peers :: "string list"
  currentTerm :: u64
  votedFor :: string
  nd_log :: raftLog
  nd_state :: NodeState
  leaderID :: string
  commitIndex :: u64
  lastApplied :: u64
  nextIndex :: "(string, u64) gomap"
  matchIndex :: "(string, u64) gomap"
  electionReset :: bool
  heartbeatSig :: bool
  applySig :: bool
  stopCh :: bool

record RequestVoteArgs =
  rv_Term :: u64
  rv_CandidateID :: string
  rv_LastLogIndex :: u64
  rv_LastLogTerm :: u64

record RequestVoteReply =
  rvr_Term :: u64
  rvr_VoteGranted :: bool

record AppendEntriesArgs =
  ae_Term :: u64
  ae_LeaderID :: string
  ae_PrevLogIndex :: u64
  ae_PrevLogTerm :: u64
  ae_Entries :: "Entry list"
  ae_LeaderCommit :: u64

record AppendEntriesReply =
  aer_Term :: u64
  aer_Success :: bool
  aer_ConflictIndex :: u64
  aer_ConflictTerm :: u64

record InstallSnapshotArgs =
  is_Term :: u64
  is_LeaderID :: string
  is_LastIncludedIndex :: u64
  is_LastIncludedTerm :: u64
  is_Data :: bytes
  is_Offset :: int
  is_Done :: bool

record InstallSnapshotReply =
  isr_Term :: u64

record Snapshot =
  sn_LastIncludedIndex :: u64
  sn_LastIncludedTerm :: u64
  sn_Data :: bytes

section \<open>Configuration\<close>

record raft_Config =
  cfg_ID :: string
  cfg_Peers :: "string list"
  ElectionMinTimeout :: duration
  ElectionMaxTimeout :: duration
  HeartbeatInterval :: duration

definition raft_DefaultConfig :: "string \<Rightarrow> string list \<Rightarrow> raft_Config" where
  "raft_DefaultConfig i ps =
     \<lparr>cfg_ID = i, cfg_Peers = ps, ElectionMinTimeout = 150 * 10 ^ 6,
      ElectionMaxTimeout = 300 * 10 ^ 6, HeartbeatInterval = 50 * 10 ^ 6\<rparr>"

text \<open>
  \<^verbatim>\<open>rand.Int63n(spread)\<close> draws from \<open>0 ..< spread\<close> and panics (\<open>None\<close>) unless \<open>spread\<close> is
  positive; \<open>r\<close> is the raw random number.
\<close>

definition randomElectionTimeout :: "raft_Config \<Rightarrow> int \<Rightarrow> duration option" where
  "randomElectionTimeout cfg r =
     (let spread = ElectionMaxTimeout cfg - ElectionMinTimeout cfg
      in if spread \<le> 0 then None else Some (ElectionMinTimeout cfg + r mod spread))"

section \<open>node.go\<close>

definition raft_New :: "raft_Config \<Rightarrow> Node" where
  "raft_New cfg =
     \<lparr>nd_id = cfg_ID cfg, nd_peers = cfg_Peers cfg, currentTerm = 0, votedFor = '''', nd_log = newRaftLog,
      nd_state = Follower, leaderID = '''', commitIndex = 0, lastApplied = 0,
      nextIndex = gm_empty, matchIndex = gm_empty,
      electionReset = False, heartbeatSig = False, applySig = False, stopCh = False\<rparr>"

definition raft_Stop :: "Node \<Rightarrow> Node" where
  "raft_Stop n = (if stopCh n then n else n\<lparr>stopCh := True\<rparr>)"

definition signalElectionReset :: "Node \<Rightarrow> Node" where
  "signalElectionReset n = n\<lparr>electionReset := True\<rparr>"

definition signalApply :: "Node \<Rightarrow> Node" where
  "signalApply n = n\<lparr>applySig := True\<rparr>"

definition becomeFollower :: "Node \<Rightarrow> u64 \<Rightarrow> Node" where
  "becomeFollower n tm = n\<lparr>nd_state := Follower, currentTerm := tm, votedFor := ''''\<rparr>"

fun becomeLeader_loop :: "string list \<Rightarrow> u64 \<Rightarrow> (string, u64) gomap \<Rightarrow> (string, u64) gomap \<Rightarrow>
    (string, u64) gomap \<times> (string, u64) gomap" where
  "becomeLeader_loop [] lastIdx nxt mtch = (nxt, mtch)"
| "becomeLeader_loop (p # ps) lastIdx nxt mtch =
     becomeLeader_loop ps lastIdx (gm_set p (lastIdx + 1) nxt) (gm_set p 0 mtch)"

definition becomeLeader :: "Node \<Rightarrow> Node" where
  "becomeLeader n =
     (if nd_state n \<noteq> Candidate then n
      else let lastIdx = lastIndex (nd_log n);
               (nxt, mtch) = becomeLeader_loop (nd_peers n) lastIdx gm_empty gm_empty
        in n\<lparr>nd_state := Leader, leaderID := nd_id n, nextIndex := nxt,
             matchIndex := gm_set (nd_id n) lastIdx mtch, heartbeatSig := True\<rparr>)"

section \<open>election.go\<close>

definition logUpToDate :: "Node \<Rightarrow> u64 \<Rightarrow> u64 \<Rightarrow> bool" where
  "logUpToDate n candidateLastIndex candidateLastTerm =
     (let myLastTerm = lastTerm (nd_log n); myLastIndex = lastIndex (nd_log n)
      in if candidateLastTerm \<noteq> myLastTerm then candidateLastTerm > myLastTerm
         else candidateLastIndex \<ge> myLastIndex)"

text \<open>
  One election of one candidate: the term it is held in, the vote counter and the quorum that
  the goroutines of \<^verbatim>\<open>maybeStartElection\<close> share, and whether \<^verbatim>\<open>once\<close> has fired.
\<close>

record election =
  el_term :: u64
  el_votes :: int
  el_quorum :: int
  el_once :: bool

definition electionQuorum :: "string list \<Rightarrow> int" where
  "electionQuorum ps = (int (length ps) + 1) div 2 + 1"

definition startElection :: "Node \<Rightarrow> Node \<times> (election \<times> RequestVoteArgs) option" where
  "startElection n =
     (if nd_state n = Leader then (n, None)
      else let n' = n\<lparr>nd_state := Candidate, currentTerm := currentTerm n + 1,
                      votedFor := nd_id n, leaderID := ''''\<rparr>
        in (n', Some (\<lparr>el_term = currentTerm n', el_votes = 1,
                       el_quorum = electionQuorum (nd_peers n), el_once = False\<rparr>,
                      \<lparr>rv_Term = currentTerm n', rv_CandidateID = nd_id n,
                       rv_LastLogIndex = lastIndex (nd_log n),
                       rv_LastLogTerm = lastTerm (nd_log n)\<rparr>)))"

definition singleNodeWin :: "election \<Rightarrow> Node \<Rightarrow> election \<times> Node" where
  "singleNodeWin el n =
     (if el_votes el \<ge> el_quorum el \<and> nd_state n = Candidate \<and> currentTerm n = el_term el
      then (if el_once el then (el, n) else (el\<lparr>el_once := True\<rparr>, becomeLeader n))
      else (el, n))"

definition handleVoteReply :: "election \<Rightarrow> Node \<Rightarrow> RequestVoteReply \<Rightarrow> election \<times> Node" where
  "handleVoteReply el n reply =
     (if rvr_Term reply > currentTerm n then (el, becomeFollower n (rvr_Term reply))
      else if \<not> rvr_VoteGranted reply \<or> nd_state n \<noteq> Candidate \<or> currentTerm n \<noteq> el_term el
        then (el, n)
      else let el' = el\<lparr>el_votes := el_votes el + 1\<rparr>
        in if el_votes el' \<ge> el_quorum el' \<and> \<not> el_once el'
           then (el'\<lparr>el_once := True\<rparr>, becomeLeader n)
           else (el', n))"

definition HandleRequestVote :: "Node \<Rightarrow> RequestVoteArgs \<Rightarrow> Node \<times> RequestVoteReply" where
  "HandleRequestVote n args =
     (if rv_Term args < currentTerm n
      then (n, \<lparr>rvr_Term = currentTerm n, rvr_VoteGranted = False\<rparr>)
      else let n1 = (if rv_Term args > currentTerm n then becomeFollower n (rv_Term args) else n);
               reply = \<lparr>rvr_Term = currentTerm n1, rvr_VoteGranted = False\<rparr>
        in if votedFor n1 \<noteq> '''' \<and> votedFor n1 \<noteq> rv_CandidateID args then (n1, reply)
           else if \<not> logUpToDate n1 (rv_LastLogIndex args) (rv_LastLogTerm args) then (n1, reply)
           else (signalElectionReset (n1\<lparr>votedFor := rv_CandidateID args\<rparr>),
                 reply\<lparr>rvr_VoteGranted := True\<rparr>))"

section \<open>replication.go\<close>

definition advanceCommitIndex :: "Node \<Rightarrow> Node" where
  "advanceCommitIndex n =
     (let indices = rev (sort (map snd (matchIndex n)));
          quorum = (length (nd_peers n) + 1 + 1) div 2
      in if quorum > length indices then n
         else let newCommit = indices ! (quorum - 1)
           in if newCommit > commitIndex n
              then (case log_Term (nd_log n) newCommit of
                      Inr t \<Rightarrow> if t = currentTerm n
                        then signalApply (n\<lparr>commitIndex := newCommit\<rparr>) else n
                    | Inl _ \<Rightarrow> n)
              else n)"

definition Propose :: "Node \<Rightarrow> bytes \<Rightarrow> Node \<times> (raft_error + unit)" where
  "Propose n command =
     (if nd_state n \<noteq> Leader then (n, Inl ErrNotLeader)
      else let nxt = lastIndex (nd_log n) + 1;
               e = \<lparr>e_Index = nxt, e_Term = currentTerm n, e_Command = command\<rparr>;
               n1 = n\<lparr>nd_log := log_Append (nd_log n) [e],
                      matchIndex := gm_set (nd_id n) nxt (matchIndex n)\<rparr>;
               n2 = advanceCommitIndex n1
        in (n2\<lparr>heartbeatSig := True\<rparr>, Inr ()))"

definition maybeSendHeartbeats :: "Node \<Rightarrow> string list" where
  "maybeSendHeartbeats n = (if nd_state n \<noteq> Leader then [] else nd_peers n)"

datatype replicate_msg = SendNothing | SendEntries AppendEntriesArgs | SendSnapshotInstead

definition replicateTo_send :: "Node \<Rightarrow> string \<Rightarrow> replicate_msg" where
  "replicateTo_send n peer =
     (if nd_state n \<noteq> Leader then SendNothing
      else let nextIdx = gm_get 0 (nextIndex n) peer; prevIdx = nextIdx - 1
        in case log_Term (nd_log n) prevIdx of
             Inl _ \<Rightarrow> SendSnapshotInstead
           | Inr prevTerm \<Rightarrow> SendEntries
               \<lparr>ae_Term = currentTerm n, ae_LeaderID = nd_id n, ae_PrevLogIndex = prevIdx,
                ae_PrevLogTerm = prevTerm,
                ae_Entries = log_Slice (nd_log n) nextIdx (lastIndex (nd_log n) + 1),
                ae_LeaderCommit = commitIndex n\<rparr>)"

text \<open>
  The search for the last entry with the conflict term, from \<open>i\<close> down to the snapshot.
\<close>

function backup_loop :: "raftLog \<Rightarrow> u64 \<Rightarrow> u64 \<Rightarrow> u64 \<Rightarrow> u64" where
  "backup_loop l conflictTerm newNext i =
     (if i > snapIndex l
      then (case log_Term l i of
              Inl _ \<Rightarrow> newNext
            | Inr t \<Rightarrow> if t = conflictTerm then i + 1
                else if t < conflictTerm then newNext
                else backup_loop l conflictTerm newNext (i - 1))
      else newNext)"
  by pat_completeness auto
termination
proof (relation "measure (\<lambda>(l, ct, nn, i). unat i)")
  fix l :: raftLog and ct nn i :: u64
  assume "snapIndex l < i"
  then have "1 \<le> i"
    by (metis word_less_1 not_le word_not_simps(1))
  then show "((l, ct, nn, i - 1), (l, ct, nn, i)) \<in> measure (\<lambda>(l, ct, nn, i). unat i)"
    by (simp add: unat_sub word_le_nat_alt)
qed simp

declare backup_loop.simps [simp del]

definition replicateTo_reply :: "Node \<Rightarrow> string \<Rightarrow> AppendEntriesArgs \<Rightarrow> AppendEntriesReply \<Rightarrow> Node" where
  "replicateTo_reply n peer args reply =
     (if aer_Term reply > currentTerm n then becomeFollower n (aer_Term reply)
      else if nd_state n \<noteq> Leader \<or> currentTerm n \<noteq> ae_Term args then n
      else if aer_Success reply
        then let newMatch = ae_PrevLogIndex args + of_nat (length (ae_Entries args));
                 n1 = (if newMatch > gm_get 0 (matchIndex n) peer
                       then n\<lparr>matchIndex := gm_set peer newMatch (matchIndex n)\<rparr> else n);
                 n2 = n1\<lparr>nextIndex := gm_set peer (gm_get 0 (matchIndex n1) peer + 1) (nextIndex n1)\<rparr>
             in advanceCommitIndex n2
      else if aer_ConflictTerm reply \<noteq> 0
        then n\<lparr>nextIndex := gm_set peer
                 (backup_loop (nd_log n) (aer_ConflictTerm reply) (aer_ConflictIndex reply)
                   (lastIndex (nd_log n)))
                 (nextIndex n)\<rparr>
      else if aer_ConflictIndex reply > 0
        then n\<lparr>nextIndex := gm_set peer (aer_ConflictIndex reply) (nextIndex n)\<rparr>
      else if gm_get 0 (nextIndex n) peer > 1
        then n\<lparr>nextIndex := gm_set peer (gm_get 0 (nextIndex n) peer - 1) (nextIndex n)\<rparr>
      else n)"

function conflict_loop :: "raftLog \<Rightarrow> u64 \<Rightarrow> u64 \<Rightarrow> u64" where
  "conflict_loop l conflictTerm conflictIndex =
     (if conflictIndex > snapIndex l + 1
      then (case log_Term l (conflictIndex - 1) of
              Inl _ \<Rightarrow> conflictIndex
            | Inr t \<Rightarrow> if t \<noteq> conflictTerm then conflictIndex
                else conflict_loop l conflictTerm (conflictIndex - 1))
      else conflictIndex)"
  by pat_completeness auto
termination
proof (relation "measure (\<lambda>(l, ct, ci). unat ci)")
  fix l :: raftLog and ct ci :: u64
  assume "snapIndex l + 1 < ci"
  then have "1 \<le> ci"
    by (metis word_less_1 not_le word_not_simps(1))
  then show "((l, ct, ci - 1), (l, ct, ci)) \<in> measure (\<lambda>(l, ct, ci). unat ci)"
    by (simp add: unat_sub word_le_nat_alt)
qed simp

declare conflict_loop.simps [simp del]

definition conflictHint :: "Node \<Rightarrow> u64 \<Rightarrow> u64 \<Rightarrow> u64 \<times> u64" where
  "conflictHint n prevLogIndex prevTerm =
     (let lastIdx = lastIndex (nd_log n)
      in if prevLogIndex > lastIdx then (lastIdx + 1, 0)
         else (conflict_loop (nd_log n) prevTerm prevLogIndex, prevTerm))"

fun appendEntries_loop :: "raftLog \<Rightarrow> Entry list \<Rightarrow> raftLog" where
  "appendEntries_loop l [] = l"
| "appendEntries_loop l (e # es) =
     (case log_Term l (e_Index e) of
        Inl _ \<Rightarrow> log_Append l (e # es)
      | Inr existingTerm \<Rightarrow>
          if existingTerm \<noteq> e_Term e then log_Append (TruncateAfter l (e_Index e)) (e # es)
          else appendEntries_loop l es)"

definition HandleAppendEntries :: "Node \<Rightarrow> AppendEntriesArgs \<Rightarrow> Node \<times> AppendEntriesReply" where
  "HandleAppendEntries n args =
     (if ae_Term args < currentTerm n
      then (n, \<lparr>aer_Term = currentTerm n, aer_Success = False, aer_ConflictIndex = 0, aer_ConflictTerm = 0\<rparr>)
      else let n1 = (if ae_Term args > currentTerm n \<or> nd_state n \<noteq> Follower
                     then becomeFollower n (ae_Term args) else n);
               n2 = signalElectionReset (n1\<lparr>leaderID := ae_LeaderID args\<rparr>);
               reply = \<lparr>aer_Term = currentTerm n1, aer_Success = False, aer_ConflictIndex = 0, aer_ConflictTerm = 0\<rparr>;
               prev = log_Term (nd_log n2) (ae_PrevLogIndex args);
               prevTerm = (case prev of Inl _ \<Rightarrow> 0 | Inr t \<Rightarrow> t)
        in if ae_PrevLogIndex args > 0 \<and> prev \<noteq> Inr (ae_PrevLogTerm args)
           then let (ci, ct) = conflictHint n2 (ae_PrevLogIndex args) prevTerm
                in (n2, reply\<lparr>aer_ConflictIndex := ci, aer_ConflictTerm := ct\<rparr>)
           else let n3 = n2\<lparr>nd_log := appendEntries_loop (nd_log n2) (ae_Entries args)\<rparr>;
                    n4 = (if ae_LeaderCommit args > commitIndex n3
                          then let lastNew = lastIndex (nd_log n3)
                               in signalApply (n3\<lparr>commitIndex :=
                                    (if ae_LeaderCommit args < lastNew then ae_LeaderCommit args else lastNew)\<rparr>)
                          else n3)
                in (n4, reply\<lparr>aer_Success := True\<rparr>))"

section \<open>snapshot.go\<close>

definition TakeSnapshot :: "Node \<Rightarrow> bytes \<Rightarrow> Node \<times> (raft_error + Snapshot)" where
  "TakeSnapshot n data =
     (let idx = lastApplied n
      in case log_Term (nd_log n) idx of
           Inl e \<Rightarrow> (n, Inl e)
         | Inr tm \<Rightarrow> (n\<lparr>nd_log := SetSnapshot (nd_log n) idx tm\<rparr>,
             Inr \<lparr>sn_LastIncludedIndex = idx, sn_LastIncludedTerm = tm, sn_Data = data\<rparr>))"

definition sendSnapshot_send :: "Node \<Rightarrow> InstallSnapshotArgs option" where
  "sendSnapshot_send n =
     (if nd_state n \<noteq> Leader then None
      else Some \<lparr>is_Term = currentTerm n, is_LeaderID = nd_id n,
                 is_LastIncludedIndex = snapIndex (nd_log n),
                 is_LastIncludedTerm = snapTerm (nd_log n),
                 is_Data = [], is_Offset = 0, is_Done = True\<rparr>)"

definition sendSnapshot_reply :: "Node \<Rightarrow> string \<Rightarrow> InstallSnapshotArgs \<Rightarrow> InstallSnapshotReply \<Rightarrow> Node" where
  "sendSnapshot_reply n peer args reply =
     (if isr_Term reply > currentTerm n then becomeFollower n (isr_Term reply)
      else if nd_state n \<noteq> Leader then n
      else let n1 = (if is_LastIncludedIndex args > gm_get 0 (matchIndex n) peer
                     then n\<lparr>matchIndex := gm_set peer (is_LastIncludedIndex args) (matchIndex n)\<rparr>
                     else n)
        in n1\<lparr>nextIndex := gm_set peer (is_LastIncludedIndex args + 1) (nextIndex n1)\<rparr>)"

definition HandleInstallSnapshot :: "Node \<Rightarrow> InstallSnapshotArgs \<Rightarrow> Node \<times> InstallSnapshotReply" where
  "HandleInstallSnapshot n args =
     (if is_Term args < currentTerm n then (n, \<lparr>isr_Term = currentTerm n\<rparr>)
      else let n1 = (if is_Term args > currentTerm n then becomeFollower n (is_Term args) else n);
               reply = \<lparr>isr_Term = currentTerm n1\<rparr>;
               n2 = signalElectionReset (n1\<lparr>leaderID := is_LeaderID args\<rparr>)
        in if is_LastIncludedIndex args \<le> snapIndex (nd_log n2) then (n2, reply)
           else let n3 = n2\<lparr>nd_log := SetSnapshot (nd_log n2) (is_LastIncludedIndex args)
                                      (is_LastIncludedTerm args)\<rparr>;
                    n4 = (if is_LastIncludedIndex args > commitIndex n3
                          then n3\<lparr>commitIndex := is_LastIncludedIndex args\<rparr> else n3);
                    n5 = (if is_LastIncludedIndex args > lastApplied n4
                          then n4\<lparr>lastApplied := is_LastIncludedIndex args\<rparr> else n4)
                in (n5, reply))"

section \<open>The apply loop\<close>

text \<open>
  \<^verbatim>\<open>applyCommitted\<close> takes the lock only for short steps: it reads the bounds, takes the slice,
  advances \<^verbatim>\<open>lastApplied\<close> once per delivered entry and finally compacts a long log.
  \<open>applyCommitted\<close> below is one run of the loop body without other writers in between. It
  returns the entries sent on \<^verbatim>\<open>CommitCh\<close>; \<open>stop = Some k\<close> is the run in which the stop channel
  wins the select for the entry after the first \<open>k\<close>.
\<close>

definition compactThreshold :: nat where
  "compactThreshold = 10000"

definition applyEntries :: "Node \<Rightarrow> Entry list" where
  "applyEntries n = log_Slice (nd_log n) (lastApplied n + 1) (commitIndex n + 1)"

fun applyLoop_deliver :: "nat option \<Rightarrow> Node \<Rightarrow> Entry list \<Rightarrow> Entry list \<Rightarrow> Node \<times> Entry list \<times> bool" where
  "applyLoop_deliver stop n [] sent = (n, sent, False)"
| "applyLoop_deliver stop n (e # es) sent =
     (if stop = Some (length sent) then (n, sent, True)
      else applyLoop_deliver stop (n\<lparr>lastApplied := e_Index e\<rparr>) es (sent @ [e]))"

definition applyCompact :: "Node \<Rightarrow> Node" where
  "applyCompact n =
     (if log_Len (nd_log n) \<ge> compactThreshold
      then (case log_Term (nd_log n) (lastApplied n) of
              Inr tm \<Rightarrow> n\<lparr>nd_log := SetSnapshot (nd_log n) (lastApplied n) tm\<rparr>
            | Inl _ \<Rightarrow> n)
      else n)"

definition applyCommitted :: "nat option \<Rightarrow> Node \<Rightarrow> Node \<times> Entry list" where
  "applyCommitted stop n =
     (if commitIndex n \<le> lastApplied n then (n, [])
      else let (n', sent, stopped) = applyLoop_deliver stop n (applyEntries n) []
        in if stopped then (n', sent) else (applyCompact n', sent))"

end
