(* ===== verification/Raft_Replication.thy ===== *)
theory Raft_Replication
  imports Raft_Node
begin

text \<open>
  What the replication code of one node guarantees: the log it has after an AppendEntries, the
  messages a leader builds, the commit rule, and the positions it compares in elections.
\<close>

section \<open>Log positions\<close>

text \<open>
  The pair (last term, last index) that \<^verbatim>\<open>logUpToDate\<close> compares, ordered by term first.
\<close>

datatype log_pos = LogPos (lp_term: u64) (lp_index: u64)

instantiation log_pos :: linorder
begin

definition less_eq_log_pos :: "log_pos \<Rightarrow> log_pos \<Rightarrow> bool" where
  "less_eq_log_pos p q \<longleftrightarrow> lp_term p < lp_term q \<or> (lp_term p = lp_term q \<and> lp_index p \<le> lp_index q)"

definition less_log_pos :: "log_pos \<Rightarrow> log_pos \<Rightarrow> bool" where
  "less_log_pos p q \<longleftrightarrow> lp_term p < lp_term q \<or> (lp_term p = lp_term q \<and> lp_index p < lp_index q)"

instance
  by standard
    (auto simp: less_eq_log_pos_def less_log_pos_def intro: log_pos.expand)

end

definition node_pos :: "Node \<Rightarrow> log_pos" where
  "node_pos n = LogPos (lastTerm (nd_log n)) (lastIndex (nd_log n))"

lemma logUpToDate_iff:
  "logUpToDate n ci ct \<longleftrightarrow> node_pos n \<le> LogPos ct ci"
  by (auto simp: logUpToDate_def node_pos_def less_eq_log_pos_def Let_def)

section \<open>Appending entries\<close>

lemma appendEntries_loop_spec:
  assumes "log_wf l" and "consecutive_from prev es" and "snapIndex l \<le> prev" and "prev \<le> lastIndex l"
  shows "log_wf (appendEntries_loop l es)
    \<and> (\<forall>e \<in> set es. log_Term (appendEntries_loop l es) (e_Index e) = Inr (e_Term e))
    \<and> (\<forall>i \<le> prev. log_Term (appendEntries_loop l es) i = log_Term l i)
    \<and> unat prev + length es \<le> unat (lastIndex (appendEntries_loop l es))"
  using assms(2-4)
proof (induction es arbitrary: prev)
  case Nil
  with assms(1) show ?case by (simp add: word_le_nat_alt)
next
  case (Cons e es)
  have e: "unat (e_Index e) = unat prev + 1" and ces: "consecutive_from (e_Index e) es"
    using Cons.prems(1) by (auto simp: consecutive_from_Cons)
  then have above: "snapIndex l < e_Index e" and nz: "e_Index e \<noteq> 0"
    using Cons.prems(2) by (auto simp: word_less_nat_alt word_le_nat_alt)
  show ?case
  proof (cases "log_Term l (e_Index e)")
    case (Inl err)
    then have "\<not> e_Index e \<le> lastIndex l"
      using log_Term_ok_iff [OF assms(1), of "e_Index e"] above by auto
    then have "unat (lastIndex l) = unat prev"
      using e Cons.prems(3) by (simp add: word_le_nat_alt)
    then have "lastIndex l = prev" by (simp add: word_unat_eq_iff)
    with Cons.prems(1) have c: "consecutive_from (lastIndex l) (e # es)" by simp
    show ?thesis
      using Inl rl.append_invar [OF assms(1) c] rl.append_new [OF assms(1) c]
        rl.append_old [OF assms(1) c] rl.append_final [OF assms(1) c] \<open>lastIndex l = prev\<close>
      by auto
  next
    case (Inr t)
    then have le: "e_Index e \<le> lastIndex l"
      using log_Term_ok_iff [OF assms(1), of "e_Index e"] nz by auto
    show ?thesis
    proof (cases "t = e_Term e")
      case True
      have "snapIndex l \<le> e_Index e"
        using above by simp
      note IH = Cons.IH [OF ces this le]
      have "prev \<le> e_Index e"
        using e by (simp add: word_le_nat_alt)
      with IH Inr True e show ?thesis
        by (auto simp: word_le_nat_alt)
    next
      case False
      note r = rl.replace_tail [OF assms(1) above le Cons.prems(1)]
      show ?thesis
        using Inr False r by auto
    qed
  qed
qed

lemma appendEntries_loop_stable:
  "(\<And>e. e \<in> set es \<Longrightarrow> log_Term l (e_Index e) = Inr (e_Term e)) \<Longrightarrow> appendEntries_loop l es = l"
  by (induction es) auto

lemma snapIndex_appendEntries_loop [simp]:
  "snapIndex (appendEntries_loop l es) = snapIndex l"
  "snapTerm (appendEntries_loop l es) = snapTerm l"
  by (induction es) (auto split: sum.splits)

section \<open>Messages a leader builds\<close>

lemma log_Slice_tail:
  assumes "log_wf l" and "snapIndex l < from" and "lastIndex l \<noteq> - 1"
  shows "log_Slice l from (lastIndex l + 1) =
    drop (unat from - unat (snapIndex l) - 1) (log_entries l)"
proof -
  have last: "unat (lastIndex l + 1) = unat (snapIndex l) + length (log_entries l) + 1"
    using unat_u64_Suc [OF assms(3)] unat_lastIndex [OF assms(1)] by simp
  have "filter (\<lambda>e. from \<le> e_Index e \<and> e_Index e < lastIndex l + 1) (log_entries l) =
    take (length (log_entries l) - (unat from - unat (snapIndex l) - 1))
      (drop (unat from - unat (snapIndex l) - 1) (log_entries l))"
    using assms(2) last
    by (intro filter_segment)
      (auto simp: word_less_nat_alt word_le_nat_alt log_wfD(2) [OF assms(1)])
  with assms(1,2) show ?thesis
    by (simp add: log_Slice_entries not_le [symmetric])
qed

lemma consecutive_from_drop:
  assumes "log_wf l" and "snapIndex l \<le> prev" and "prev \<le> lastIndex l"
  shows "consecutive_from prev (drop (unat prev - unat (snapIndex l)) (log_entries l))"
  using assms log_wfD [OF assms(1)] unat_lastIndex [OF assms(1)]
  by (auto simp: consecutive_from_def word_le_nat_alt)

text \<open>
  A leader whose \<^verbatim>\<open>nextIndex\<close> for the peer lies after its snapshot and at most one past its
  log sends the whole rest of its log.
\<close>

lemma replicateTo_send_entries:
  assumes "nd_state n = Leader" and wf: "log_wf (nd_log n)" and room: "lastIndex (nd_log n) \<noteq> - 1"
    and lo: "snapIndex (nd_log n) < gm_get 0 (nextIndex n) peer"
    and hi: "gm_get 0 (nextIndex n) peer \<le> lastIndex (nd_log n) + 1"
  shows "\<exists>args. replicateTo_send n peer = SendEntries args
    \<and> ae_Term args = currentTerm n \<and> ae_LeaderID args = nd_id n
    \<and> ae_LeaderCommit args = commitIndex n
    \<and> unat (ae_PrevLogIndex args) + 1 = unat (gm_get 0 (nextIndex n) peer)
    \<and> log_Term (nd_log n) (ae_PrevLogIndex args) = Inr (ae_PrevLogTerm args)
    \<and> snapIndex (nd_log n) \<le> ae_PrevLogIndex args
    \<and> ae_PrevLogIndex args \<le> lastIndex (nd_log n)
    \<and> consecutive_from (ae_PrevLogIndex args) (ae_Entries args)
    \<and> unat (ae_PrevLogIndex args) + length (ae_Entries args) = unat (lastIndex (nd_log n))
    \<and> set (ae_Entries args) \<subseteq> set (log_entries (nd_log n))"
proof -
  let ?l = "nd_log n" and ?next = "gm_get 0 (nextIndex n) peer"
  have pos: "1 \<le> ?next"
    using lo by (metis word_less_1 not_le word_not_simps(1))
  then have prev: "unat (?next - 1) + 1 = unat ?next"
    by (simp add: unat_sub word_le_nat_alt)
  have ple: "snapIndex ?l \<le> ?next - 1" and phi: "?next - 1 \<le> lastIndex ?l"
    using prev lo hi unat_u64_Suc [OF room] by (auto simp: word_le_nat_alt word_less_nat_alt)
  then obtain t where t: "log_Term ?l (?next - 1) = Inr t"
    using log_Term_ok_iff [OF wf] by blast
  have sl: "log_Slice ?l ?next (lastIndex ?l + 1) = drop (unat (?next - 1) - unat (snapIndex ?l)) (log_entries ?l)"
    using log_Slice_tail [OF wf lo room] prev by (simp add: algebra_simps)
      (metis Suc_diff_le Suc_eq_plus1 diff_Suc_Suc ple word_le_nat_alt)
  have "unat (?next - 1) + length (log_Slice ?l ?next (lastIndex ?l + 1)) = unat (lastIndex ?l)"
    using sl ple phi unat_lastIndex [OF wf] by (simp add: word_le_nat_alt)
  with consecutive_from_drop [OF wf ple phi] sl t prev ple phi assms(1) show ?thesis
    by (auto simp: replicateTo_send_def Let_def dest: in_set_dropD)
qed

section \<open>The commit rule\<close>

lemma nth_rev_sort_count:
  fixes ys :: "'a::linorder list"
  assumes "0 < q" and "q \<le> length ys"
  shows "q \<le> length (filter (\<lambda>x. rev (sort ys) ! (q - 1) \<le> x) ys)"
proof -
  let ?d = "rev (sort ys)"
  have "?d ! (q - 1) \<le> ?d ! i" if "i < q" for i
    using that assms by (auto simp: rev_nth intro!: sorted_nth_mono)
  then have "filter (\<lambda>x. ?d ! (q - 1) \<le> x) (take q ?d) = take q ?d"
    using assms by (intro filter_True) (auto simp: in_set_conv_nth)
  then have "q \<le> length (filter (\<lambda>x. ?d ! (q - 1) \<le> x) (take q ?d @ drop q ?d))"
    unfolding filter_append using assms by simp
  also have "\<dots> = length (filter (\<lambda>x. ?d ! (q - 1) \<le> x) ys)"
    unfolding append_take_drop_id
    by (simp add: rev_filter [symmetric] filter_sort)
  finally show ?thesis .
qed

text \<open>The servers whose \<^verbatim>\<open>matchIndex\<close> has reached an index.\<close>

definition replicated_on :: "Node \<Rightarrow> u64 \<Rightarrow> string list" where
  "replicated_on n i = map fst (filter (\<lambda>(k, v). i \<le> v) (matchIndex n))"

lemma advanceCommitIndex_cases:
  obtains (unchanged) "advanceCommitIndex n = n"
    | (commit) c where "advanceCommitIndex n = signalApply (n\<lparr>commitIndex := c\<rparr>)"
      "commitIndex n < c" "log_Term (nd_log n) c = Inr (currentTerm n)"
      "(length (nd_peers n) + 2) div 2 \<le> length (replicated_on n c)"
proof -
  let ?ys = "map snd (matchIndex n)" and ?q = "(length (nd_peers n) + 2) div 2"
  let ?c = "rev (sort ?ys) ! (?q - 1)"
  show thesis
  proof (cases "?q \<le> length ?ys \<and> commitIndex n < ?c \<and> log_Term (nd_log n) ?c = Inr (currentTerm n)")
    case True
    have "?q \<le> length (filter (\<lambda>x. ?c \<le> x) ?ys)"
      using True by (intro nth_rev_sort_count) auto
    also have "\<dots> = length (replicated_on n ?c)"
      by (simp add: replicated_on_def filter_map comp_def case_prod_unfold)
    finally show thesis
      using True by (intro commit [of ?c]) (auto simp: advanceCommitIndex_def Let_def)
  next
    case False
    then show thesis
      by (intro unchanged) (auto simp: advanceCommitIndex_def Let_def split: sum.splits)
  qed
qed

lemma advanceCommitIndex_frame [simp]:
  "nd_id (advanceCommitIndex n) = nd_id n" "nd_peers (advanceCommitIndex n) = nd_peers n"
  "currentTerm (advanceCommitIndex n) = currentTerm n" "votedFor (advanceCommitIndex n) = votedFor n"
  "nd_log (advanceCommitIndex n) = nd_log n" "nd_state (advanceCommitIndex n) = nd_state n"
  "nextIndex (advanceCommitIndex n) = nextIndex n" "matchIndex (advanceCommitIndex n) = matchIndex n"
  "lastApplied (advanceCommitIndex n) = lastApplied n"
  by (auto intro: advanceCommitIndex_cases [of n] simp: signalApply_def)

end
