(* ===== verification/Raft_CatchUp.thy ===== *)
theory Raft_CatchUp
  imports Raft_Replication
begin

text \<open>
  A leader bringing a follower up to date: repeated rounds of \<^verbatim>\<open>replicateTo\<close> over a transport
  that delivers, with the fast log back-up of \<^verbatim>\<open>conflictHint\<close> on rejected rounds. The rounds end
  and the follower then holds the leader's log.
\<close>

section \<open>Rounds\<close>

definition replicate_round :: "Node \<Rightarrow> Node \<Rightarrow> string \<Rightarrow> (Node \<times> Node \<times> bool) option" where
  "replicate_round leader follower peer =
     (case replicateTo_send leader peer of
        SendNothing \<Rightarrow> None
      | SendEntries args \<Rightarrow>
          let (follower', reply) = HandleAppendEntries follower args
          in Some (replicateTo_reply leader peer args reply, follower', aer_Success reply)
      | SendSnapshotInstead \<Rightarrow>
          (case sendSnapshot_send leader of
             None \<Rightarrow> None
           | Some args \<Rightarrow>
               let (follower', reply) = HandleInstallSnapshot follower args
               in Some (sendSnapshot_reply leader peer args reply, follower', False)))"

fun catch_up :: "nat \<Rightarrow> Node \<Rightarrow> Node \<Rightarrow> string \<Rightarrow> (Node \<times> Node) option" where
  "catch_up 0 leader follower peer = None"
| "catch_up (Suc fuel) leader follower peer =
     (case replicate_round leader follower peer of
        None \<Rightarrow> None
      | Some (leader', follower', done) \<Rightarrow>
          if done then Some (leader', follower') else catch_up fuel leader' follower' peer)"

section \<open>Outcomes of HandleAppendEntries\<close>

lemma HandleAppendEntries_elim:
  assumes "HandleAppendEntries n args = (n', r)"
  obtains
    (stale) "ae_Term args < currentTerm n" "n' = n" "\<not> aer_Success r" "aer_Term r = currentTerm n"
  | (conflict) "currentTerm n \<le> ae_Term args" "0 < ae_PrevLogIndex args"
      "log_Term (nd_log n) (ae_PrevLogIndex args) \<noteq> Inr (ae_PrevLogTerm args)"
      "n' = signalElectionReset ((if ae_Term args > currentTerm n \<or> nd_state n \<noteq> Follower
          then becomeFollower n (ae_Term args) else n)\<lparr>leaderID := ae_LeaderID args\<rparr>)"
      "\<not> aer_Success r" "aer_Term r = ae_Term args"
      "(aer_ConflictIndex r, aer_ConflictTerm r) = conflictHint n (ae_PrevLogIndex args)
          (case log_Term (nd_log n) (ae_PrevLogIndex args) of Inl _ \<Rightarrow> 0 | Inr t \<Rightarrow> t)"
  | (success) n1 where "currentTerm n \<le> ae_Term args"
      "ae_PrevLogIndex args = 0 \<or> log_Term (nd_log n) (ae_PrevLogIndex args) = Inr (ae_PrevLogTerm args)"
      "n1 = (signalElectionReset ((if ae_Term args > currentTerm n \<or> nd_state n \<noteq> Follower
          then becomeFollower n (ae_Term args) else n)\<lparr>leaderID := ae_LeaderID args\<rparr>))
            \<lparr>nd_log := appendEntries_loop (nd_log n) (ae_Entries args)\<rparr>"
      "n' = (if ae_LeaderCommit args > commitIndex n
         then signalApply (n1\<lparr>commitIndex := min (ae_LeaderCommit args) (lastIndex (nd_log n1))\<rparr>)
         else n1)"
      "aer_Success r" "aer_Term r = ae_Term args"
proof (cases "ae_Term args < currentTerm n")
  case True
  show thesis
    by (rule stale) (use True assms in \<open>auto simp: HandleAppendEntries_def\<close>)
next
  case False
  define b where "b = (if ae_Term args > currentTerm n \<or> nd_state n \<noteq> Follower
    then becomeFollower n (ae_Term args) else n)"
  have b: "currentTerm b = ae_Term args" "nd_log b = nd_log n" "commitIndex b = commitIndex n"
    using False by (auto simp: b_def becomeFollower_def)
  show thesis
  proof (cases "0 < ae_PrevLogIndex args
      \<and> log_Term (nd_log n) (ae_PrevLogIndex args) \<noteq> Inr (ae_PrevLogTerm args)")
    case True
    with assms False b have
      "n' = signalElectionReset (b\<lparr>leaderID := ae_LeaderID args\<rparr>)"
      "\<not> aer_Success r" "aer_Term r = ae_Term args"
      "(aer_ConflictIndex r, aer_ConflictTerm r) = conflictHint n (ae_PrevLogIndex args)
          (case log_Term (nd_log n) (ae_PrevLogIndex args) of Inl _ \<Rightarrow> 0 | Inr t \<Rightarrow> t)"
      by (auto simp: HandleAppendEntries_def Let_def b_def [symmetric] signalElectionReset_def
          conflictHint_def split: prod.splits)
    with True False show thesis by (intro conflict) (simp_all add: b_def)
  next
    case no_conflict: False
    define m where "m = (signalElectionReset (b\<lparr>leaderID := ae_LeaderID args\<rparr>))
      \<lparr>nd_log := appendEntries_loop (nd_log n) (ae_Entries args)\<rparr>"
    have "(n', r) = ((if ae_LeaderCommit args > commitIndex n
        then signalApply (m\<lparr>commitIndex := (if ae_LeaderCommit args < lastIndex (nd_log m)
          then ae_LeaderCommit args else lastIndex (nd_log m))\<rparr>) else m),
       \<lparr>aer_Term = ae_Term args, aer_Success = True, aer_ConflictIndex = 0, aer_ConflictTerm = 0\<rparr>)"
      using assms False no_conflict b
      by (auto simp: HandleAppendEntries_def Let_def b_def [symmetric] m_def signalElectionReset_def)
    then have "n' = (if ae_LeaderCommit args > commitIndex n
         then signalApply (m\<lparr>commitIndex := min (ae_LeaderCommit args) (lastIndex (nd_log m))\<rparr>)
         else m)" "aer_Success r" "aer_Term r = ae_Term args"
      by (auto simp: min_def not_less)
    with no_conflict False show thesis
      by (intro success [of m]) (auto simp: m_def b_def word_neq_0_conv [symmetric])
  qed
qed

section \<open>The conflict hint and the back-up search\<close>

lemma u64_pred:
  fixes x y :: u64
  assumes "y < x"
  shows "unat (x - 1) = unat x - 1" and "x - 1 < x" and "y \<le> x - 1"
proof -
  have "1 \<le> x"
    using assms by (metis word_less_1 not_le word_not_simps(1))
  then show u: "unat (x - 1) = unat x - 1"
    by (simp add: unat_sub)
  show "x - 1 < x" "y \<le> x - 1"
    using assms \<open>1 \<le> x\<close> by (auto simp: word_less_nat_alt word_le_nat_alt u)
qed

lemma conflict_loop_bounds:
  "conflict_loop l ct ci \<le> ci \<and> (snapIndex l + 1 \<le> ci \<longrightarrow> snapIndex l + 1 \<le> conflict_loop l ct ci)"
proof (induction l ct ci rule: conflict_loop.induct)
  case (1 l ct ci)
  show ?case
  proof (cases "snapIndex l + 1 < ci \<and> log_Term l (ci - 1) = Inr ct")
    case True
    then have eq: "conflict_loop l ct ci = conflict_loop l ct (ci - 1)"
      by (subst conflict_loop.simps) simp
    have "conflict_loop l ct (ci - 1) \<le> ci - 1 \<and>
        (snapIndex l + 1 \<le> ci - 1 \<longrightarrow> snapIndex l + 1 \<le> conflict_loop l ct (ci - 1))"
      using True by (intro "1.IH") auto
    with True u64_pred [of "snapIndex l + 1" ci] show ?thesis
      unfolding eq by (meson order_trans order_less_imp_le)
  next
    case False
    then have "conflict_loop l ct ci = ci"
      by (subst conflict_loop.simps) (auto split: sum.splits)
    then show ?thesis by simp
  qed
qed

lemma backup_loop_result:
  "backup_loop l ct nn i = nn \<or>
    (\<exists>k \<le> i. snapIndex l < k \<and> log_Term l k = Inr ct \<and> backup_loop l ct nn i = k + 1)"
proof (induction l ct nn i rule: backup_loop.induct)
  case (1 l ct nn i)
  show ?case
  proof (cases "snapIndex l < i \<and> (\<exists>t. log_Term l i = Inr t \<and> t \<noteq> ct \<and> \<not> t < ct)")
    case True
    then obtain t where t: "snapIndex l < i" "log_Term l i = Inr t" "t \<noteq> ct" "\<not> t < ct" by blast
    then have "backup_loop l ct nn i = backup_loop l ct nn (i - 1)"
      by (subst backup_loop.simps) simp
    with "1.IH" [OF t(1,2,3,4)] u64_pred(2) [OF t(1)] show ?thesis
      by (metis order_trans order_less_imp_le)
  next
    case False
    then have "backup_loop l ct nn i = nn \<or>
        (snapIndex l < i \<and> log_Term l i = Inr ct \<and> backup_loop l ct nn i = i + 1)"
      by (cases "log_Term l i") (auto simp: backup_loop.simps [of l ct nn i])
    then show ?thesis by blast
  qed
qed

section \<open>One round makes progress\<close>

text \<open>
  What the logs of a leader and a follower have in common in a Raft cluster: equal terms at an
  index mean equal terms below it, and a term of the follower that also occurs later in the
  leader's log stands at the same index of the leader's log.
\<close>

definition logs_match :: "raftLog \<Rightarrow> raftLog \<Rightarrow> bool" where
  "logs_match l f \<longleftrightarrow>
     (\<forall>i j t. 0 < j \<and> j \<le> i \<and> log_Term l i = Inr t \<and> log_Term f i = Inr t \<longrightarrow>
        log_Term f j = log_Term l j) \<and>
     (\<forall>i j t. 0 < j \<and> j < i \<and> log_Term l i = Inr t \<and> log_Term f j = Inr t \<longrightarrow> log_Term l j = Inr t)"

definition syncable :: "Node \<Rightarrow> Node \<Rightarrow> string \<Rightarrow> bool" where
  "syncable leader follower peer \<longleftrightarrow>
     nd_state leader = Leader \<and> currentTerm follower \<le> currentTerm leader
     \<and> log_wf (nd_log leader) \<and> log_wf (nd_log follower)
     \<and> snapIndex (nd_log leader) = 0 \<and> snapIndex (nd_log follower) = 0
     \<and> lastIndex (nd_log leader) \<noteq> - 1
     \<and> logs_match (nd_log leader) (nd_log follower)
     \<and> 0 < gm_get 0 (nextIndex leader) peer
     \<and> gm_get 0 (nextIndex leader) peer \<le> lastIndex (nd_log leader) + 1"

lemma conflictHint_below:
  assumes "log_wf (nd_log n)" and "snapIndex (nd_log n) = 0" and "0 < prev"
    and "conflictHint n prev pt = (ci, ct)"
  shows "0 < ci" and "ci \<le> prev" and "ct \<noteq> 0 \<Longrightarrow> prev \<le> lastIndex (nd_log n) \<and> ct = pt"
proof -
  have one: "(1 :: u64) \<le> prev"
    using assms(3) by (metis word_less_1 not_le word_not_simps(1))
  show "0 < ci" "ci \<le> prev"
  proof (atomize(full), cases "lastIndex (nd_log n) < prev")
    case True
    then have "lastIndex (nd_log n) \<noteq> - 1"
      by (metis word_order.extremum not_less)
    then have "unat (lastIndex (nd_log n) + 1) = Suc (unat (lastIndex (nd_log n)))"
      by (rule unat_u64_Suc)
    with True assms(4) show "0 < ci \<and> ci \<le> prev"
      by (auto simp: conflictHint_def word_less_nat_alt word_le_nat_alt)
  next
    case False
    with assms(2,4) one conflict_loop_bounds [of "nd_log n" pt prev] show "0 < ci \<and> ci \<le> prev"
      by (auto simp: conflictHint_def word_le_nat_alt word_less_nat_alt)
  qed
  show "ct \<noteq> 0 \<Longrightarrow> prev \<le> lastIndex (nd_log n) \<and> ct = pt"
    using assms(4) by (auto simp: conflictHint_def Let_def split: if_splits)
qed

lemma backup_below:
  assumes match: "logs_match l f" and prev: "0 < prev"
    and ft: "log_Term f prev = Inr ct" and lt: "log_Term l prev \<noteq> Inr ct"
    and nn: "0 < nn" "nn \<le> prev"
  shows "0 < backup_loop l ct nn i \<and> backup_loop l ct nn i \<le> prev"
proof -
  from backup_loop_result [of l ct nn i] show ?thesis
  proof
    assume "backup_loop l ct nn i = nn"
    with nn show ?thesis by simp
  next
    assume "\<exists>k \<le> i. snapIndex l < k \<and> log_Term l k = Inr ct \<and> backup_loop l ct nn i = k + 1"
    then obtain k where k: "log_Term l k = Inr ct" "backup_loop l ct nn i = k + 1" by blast
    have "\<not> prev < k"
      using match k(1) ft lt prev unfolding logs_match_def by blast
    moreover have "k \<noteq> prev" using k(1) lt by auto
    ultimately have "k < prev" by simp
    then have "k \<noteq> - 1" by (metis word_order.extremum not_less)
    with \<open>k < prev\<close> k(2) unat_u64_Suc [of k] show ?thesis
      by (simp add: word_less_nat_alt word_le_nat_alt)
  qed
qed

lemma consecutive_from_member:
  assumes "consecutive_from prev es" and "prev < i" and "unat i \<le> unat prev + length es"
  shows "\<exists>e \<in> set es. e_Index e = i"
proof -
  let ?k = "unat i - unat prev - 1"
  have "?k < length es" and "unat (e_Index (es ! ?k)) = unat i"
    using assms by (auto simp: consecutive_from_def word_less_nat_alt)
  then show ?thesis
    by (metis nth_mem word_unat_eq_iff)
qed

text \<open>An accepted round leaves the follower with the leader's terms up to the leader's last index.\<close>

lemma accepted_agree:
  assumes L: "log_wf l" and F: "log_wf f" and snap: "snapIndex f = 0" and match: "logs_match l f"
    and prev: "prev = 0 \<or> log_Term f prev = Inr pt" and pt: "log_Term l prev = Inr pt"
    and es: "consecutive_from prev es" "set es \<subseteq> set (log_entries l)"
    and len: "unat prev + length es = unat (lastIndex l)"
    and i: "i \<le> lastIndex l"
  shows "log_Term (appendEntries_loop f es) i = log_Term l i"
proof -
  have "prev \<le> lastIndex f"
    using prev log_Term_ok_iff [OF F, of prev] by auto
  with F es(1) snap have spec: "\<forall>e \<in> set es. log_Term (appendEntries_loop f es) (e_Index e) = Inr (e_Term e)"
      "\<forall>i \<le> prev. log_Term (appendEntries_loop f es) i = log_Term f i"
    using appendEntries_loop_spec [of f prev es] by auto
  show ?thesis
  proof (cases "i \<le> prev")
    case True
    have "log_Term f i = log_Term l i"
    proof (cases "i = 0")
      case False
      with True prev have "log_Term f prev = Inr pt" and "0 < i"
        by (auto simp: word_neq_0_conv)
      with True pt match show ?thesis
        unfolding logs_match_def by blast
    qed (simp add: log_Term_def)
    with True spec(2) show ?thesis by simp
  next
    case False
    have "unat i \<le> unat prev + length es"
      using i len by (simp add: word_le_nat_alt)
    with False obtain e where "e \<in> set es" "e_Index e = i"
      using consecutive_from_member [OF es(1), of i] by (auto simp: not_le)
    with spec(1) es(2) log_Term_entry [OF L, of e] show ?thesis by auto
  qed
qed

lemma replicateTo_reply_success:
  assumes "nd_state n = Leader" and "aer_Term r = currentTerm n" and "ae_Term args = currentTerm n"
    and "aer_Success r"
  shows "nd_log (replicateTo_reply n peer args r) = nd_log n"
    and "ae_PrevLogIndex args + of_nat (length (ae_Entries args))
      \<le> gm_get 0 (matchIndex (replicateTo_reply n peer args r)) peer"
  using assms by (auto simp: replicateTo_reply_def Let_def gomap_simps)

lemma replicateTo_reply_conflict:
  assumes "nd_state n = Leader" and "aer_Term r = currentTerm n" and "ae_Term args = currentTerm n"
    and "\<not> aer_Success r" and "0 < aer_ConflictIndex r"
  shows "replicateTo_reply n peer args r = n\<lparr>nextIndex := gm_set peer
    (if aer_ConflictTerm r \<noteq> 0
     then backup_loop (nd_log n) (aer_ConflictTerm r) (aer_ConflictIndex r) (lastIndex (nd_log n))
     else aer_ConflictIndex r) (nextIndex n)\<rparr>"
  using assms by (auto simp: replicateTo_reply_def)

lemma replicate_round_progress:
  assumes "syncable L F peer"
  obtains (accepted) L' F' where "replicate_round L F peer = Some (L', F', True)"
      "\<And>i. i \<le> lastIndex (nd_log L) \<Longrightarrow> log_Term (nd_log F') i = log_Term (nd_log L) i"
      "nd_log L' = nd_log L" "lastIndex (nd_log L) \<le> gm_get 0 (matchIndex L') peer"
  | (rejected) L' F' where "replicate_round L F peer = Some (L', F', False)" "syncable L' F' peer"
      "nd_log L' = nd_log L"
      "gm_get 0 (nextIndex L') peer < gm_get 0 (nextIndex L) peer"
proof -
  let ?next = "gm_get 0 (nextIndex L) peer"
  note S = assms [unfolded syncable_def]
  have "snapIndex (nd_log L) < ?next"
    using S by simp
  with S obtain args where args: "replicateTo_send L peer = SendEntries args"
      "ae_Term args = currentTerm L" "unat (ae_PrevLogIndex args) + 1 = unat ?next"
      "log_Term (nd_log L) (ae_PrevLogIndex args) = Inr (ae_PrevLogTerm args)"
      "consecutive_from (ae_PrevLogIndex args) (ae_Entries args)"
      "unat (ae_PrevLogIndex args) + length (ae_Entries args) = unat (lastIndex (nd_log L))"
      "set (ae_Entries args) \<subseteq> set (log_entries (nd_log L))"
    using replicateTo_send_entries [of L peer] by blast
  obtain F' r where F': "HandleAppendEntries F args = (F', r)" by fastforce
  have round: "replicate_round L F peer = Some (replicateTo_reply L peer args r, F', aer_Success r)"
    by (simp add: replicate_round_def args(1) F')
  from F' show thesis
  proof (cases rule: HandleAppendEntries_elim)
    case stale
    with S args(2) show thesis by auto
  next
    case (success n1)
    have log: "nd_log F' = appendEntries_loop (nd_log F) (ae_Entries args)"
      using success(3,4) by (auto simp: signalApply_def)
    have agree: "log_Term (nd_log F') i = log_Term (nd_log L) i" if "i \<le> lastIndex (nd_log L)" for i
      unfolding log using S that success(2) args(4-7)
      by (intro accepted_agree [of "nd_log L" "nd_log F" "ae_PrevLogIndex args" "ae_PrevLogTerm args"]) auto
    have "ae_PrevLogIndex args + of_nat (length (ae_Entries args)) = lastIndex (nd_log L)"
      using args(6) by (metis of_nat_add of_nat_unat ucast_id)
    with replicateTo_reply_success [of L r args peer] S success(5,6) args(2) round agree
    show thesis by (intro accepted [of "replicateTo_reply L peer args r" F']) auto
  next
    case conflict
    define nxt where "nxt = (if aer_ConflictTerm r \<noteq> 0
      then backup_loop (nd_log L) (aer_ConflictTerm r) (aer_ConflictIndex r) (lastIndex (nd_log L))
      else aer_ConflictIndex r)"
    let ?pt = "case log_Term (nd_log F) (ae_PrevLogIndex args) of Inl _ \<Rightarrow> 0 | Inr t \<Rightarrow> t"
    have hint: "0 < aer_ConflictIndex r" "aer_ConflictIndex r \<le> ae_PrevLogIndex args"
        "aer_ConflictTerm r \<noteq> 0 \<Longrightarrow>
          ae_PrevLogIndex args \<le> lastIndex (nd_log F) \<and> aer_ConflictTerm r = ?pt"
      using conflictHint_below [of F "ae_PrevLogIndex args" ?pt] S conflict(2,7) by (metis)+
    have nxt: "0 < nxt \<and> nxt \<le> ae_PrevLogIndex args"
    proof (cases "aer_ConflictTerm r = 0")
      case True
      with hint show ?thesis by (simp add: nxt_def)
    next
      case False
      then obtain t where t: "log_Term (nd_log F) (ae_PrevLogIndex args) = Inr t"
        using hint(3) by (cases "log_Term (nd_log F) (ae_PrevLogIndex args)") auto
      with False hint have ct: "aer_ConflictTerm r = t" by simp
      have "t \<noteq> ae_PrevLogTerm args"
        using conflict(3) t by auto
      with False ct t args(4) hint conflict(2) S show ?thesis
        by (simp add: nxt_def) (intro backup_below, auto)
    qed
    have reply: "replicateTo_reply L peer args r = L\<lparr>nextIndex := gm_set peer nxt (nextIndex L)\<rparr>"
      using replicateTo_reply_conflict [of L r args peer] S conflict(5,6) args(2) hint(1)
      by (simp add: nxt_def)
    have lt: "nxt < ?next"
      using nxt args(3) by (simp add: word_less_nat_alt word_le_nat_alt)
    have F'log: "nd_log F' = nd_log F" "currentTerm F' = ae_Term args"
      using conflict(1,4) by (auto simp: signalElectionReset_def becomeFollower_def)
    have "syncable (replicateTo_reply L peer args r) F' peer"
      using S nxt lt F'log args(2) unfolding reply syncable_def by (auto simp: gomap_simps)
    with round reply lt conflict(5) show thesis
      by (intro rejected [of "replicateTo_reply L peer args r" F']) (auto simp: gomap_simps)
  qed
qed

lemma catch_up_terminates:
  assumes "syncable L F peer" and "unat (gm_get 0 (nextIndex L) peer) < fuel"
  shows "\<exists>L' F'. catch_up fuel L F peer = Some (L', F')
    \<and> (\<forall>i \<le> lastIndex (nd_log L). log_Term (nd_log F') i = log_Term (nd_log L) i)
    \<and> lastIndex (nd_log L) \<le> gm_get 0 (matchIndex L') peer"
  using assms
proof (induction fuel arbitrary: L F)
  case 0
  then show ?case by simp
next
  case (Suc fuel)
  from Suc.prems(1) show ?case
  proof (cases rule: replicate_round_progress)
    case (accepted L' F')
    then show ?thesis by auto
  next
    case (rejected L' F')
    have "unat (gm_get 0 (nextIndex L') peer) < fuel"
      using rejected(4) Suc.prems(2) by (simp add: word_less_nat_alt)
    from Suc.IH [OF rejected(2) this] rejected(1,3) show ?thesis by auto
  qed
qed

end
