(* ===== verification/Raft_Properties.thy ===== *)
theory Raft_Properties
  imports Raft_CatchUp
begin

text \<open>
  The contract of the node's handlers, on every branch: voting, appending, committing, applying
  and the log invariant; and that a follower catches up.
\<close>

section \<open>Appending\<close>

lemma appended_log:
  assumes wf: "log_wf (nd_log n)" and es: "consecutive_from (ae_PrevLogIndex args) (ae_Entries args)"
    and above: "snapIndex (nd_log n) \<le> ae_PrevLogIndex args"
    and ok: "ae_PrevLogIndex args = 0 \<or> log_Term (nd_log n) (ae_PrevLogIndex args) = Inr (ae_PrevLogTerm args)"
  shows "log_wf (appendEntries_loop (nd_log n) (ae_Entries args))"
    and "e \<in> set (ae_Entries args) \<Longrightarrow>
      log_Term (appendEntries_loop (nd_log n) (ae_Entries args)) (e_Index e) = Inr (e_Term e)"
    and "i \<le> ae_PrevLogIndex args \<Longrightarrow>
      log_Term (appendEntries_loop (nd_log n) (ae_Entries args)) i = log_Term (nd_log n) i"
proof -
  have "ae_PrevLogIndex args \<le> lastIndex (nd_log n)"
    using ok log_Term_ok_iff [OF wf, of "ae_PrevLogIndex args"] by auto
  from appendEntries_loop_spec [OF wf es above this]
  show "log_wf (appendEntries_loop (nd_log n) (ae_Entries args))"
    and "e \<in> set (ae_Entries args) \<Longrightarrow>
      log_Term (appendEntries_loop (nd_log n) (ae_Entries args)) (e_Index e) = Inr (e_Term e)"
    and "i \<le> ae_PrevLogIndex args \<Longrightarrow>
      log_Term (appendEntries_loop (nd_log n) (ae_Entries args)) i = log_Term (nd_log n) i"
    by blast+
qed

lemma accepted_effect:
  assumes "HandleAppendEntries n args = (n', r)" and "aer_Success r"
  shows "ae_PrevLogIndex args = 0 \<or> log_Term (nd_log n) (ae_PrevLogIndex args) = Inr (ae_PrevLogTerm args)"
    and "nd_log n' = appendEntries_loop (nd_log n) (ae_Entries args)"
    and "commitIndex n' = (if commitIndex n < ae_LeaderCommit args
           then min (ae_LeaderCommit args) (lastIndex (nd_log n')) else commitIndex n)"
  using assms by (elim HandleAppendEntries_elim; auto simp: signalElectionReset_def becomeFollower_def signalApply_def)+

lemma append_accept_iff:
  assumes "HandleAppendEntries n args = (n', r)"
  shows "aer_Success r \<longleftrightarrow> currentTerm n \<le> ae_Term args \<and>
    (ae_PrevLogIndex args = 0 \<or> log_Term (nd_log n) (ae_PrevLogIndex args) = Inr (ae_PrevLogTerm args))"
    and "\<not> aer_Success r \<Longrightarrow> nd_log n' = nd_log n \<and> commitIndex n' = commitIndex n"
  using assms by (elim HandleAppendEntries_elim;
      auto simp: signalElectionReset_def becomeFollower_def)+

lemma append_result:
  assumes wf: "log_wf (nd_log n)" and es: "consecutive_from (ae_PrevLogIndex args) (ae_Entries args)"
    and above: "snapIndex (nd_log n) \<le> ae_PrevLogIndex args"
    and handle: "HandleAppendEntries n args = (n', r)" and ok: "aer_Success r"
  shows "log_wf (nd_log n')"
    and "e \<in> set (ae_Entries args) \<Longrightarrow> log_Term (nd_log n') (e_Index e) = Inr (e_Term e)"
    and "i \<le> ae_PrevLogIndex args \<Longrightarrow> log_Term (nd_log n') i = log_Term (nd_log n) i"
    and "nd_log (fst (HandleAppendEntries n' args)) = nd_log n'"
    and "commitIndex n' = (if commitIndex n < ae_LeaderCommit args
           then min (ae_LeaderCommit args) (lastIndex (nd_log n')) else commitIndex n)"
proof -
  note acc = accepted_effect [OF handle ok]
  note r = appended_log [OF wf es above acc(1), folded acc(2)]
  show "log_wf (nd_log n')" by (rule r(1))
  show terms: "log_Term (nd_log n') (e_Index e) = Inr (e_Term e)" if "e \<in> set (ae_Entries args)" for e
    using that by (rule r(2))
  show "log_Term (nd_log n') i = log_Term (nd_log n) i" if "i \<le> ae_PrevLogIndex args" for i
    using that by (rule r(3))
  show "commitIndex n' = (if commitIndex n < ae_LeaderCommit args
      then min (ae_LeaderCommit args) (lastIndex (nd_log n')) else commitIndex n)"
    by (rule acc(3))
  show "nd_log (fst (HandleAppendEntries n' args)) = nd_log n'"
    using appendEntries_loop_stable [of "ae_Entries args" "nd_log n'", OF terms]
      accepted_effect(2) append_accept_iff(2)
    by (cases "HandleAppendEntries n' args") (metis fst_conv)
qed


text \<open>A follower with two entries of term 1, and a leader of term 2 replacing the second.\<close>

definition entry_at :: "u64 \<Rightarrow> u64 \<Rightarrow> Entry" where
  "entry_at i t = \<lparr>e_Index = i, e_Term = t, e_Command = []\<rparr>"

definition sample_node :: "(u64 \<times> u64) list \<Rightarrow> Node" where
  "sample_node its = (raft_New (raft_DefaultConfig ''n1'' [''n2'', ''n3'']))
     \<lparr>currentTerm := 1, nd_log := \<lparr>log_entries = map (\<lambda>(i, t). entry_at i t) its, snapIndex = 0, snapTerm = 0\<rparr>\<rparr>"

definition sample_append :: AppendEntriesArgs where
  "sample_append = \<lparr>ae_Term = 2, ae_LeaderID = ''n2'', ae_PrevLogIndex = 1, ae_PrevLogTerm = 1,
     ae_Entries = [entry_at 2 2, entry_at 3 2], ae_LeaderCommit = 2\<rparr>"

lemmas sample_defs = sample_node_def sample_append_def entry_at_def raft_New_def raft_DefaultConfig_def


section \<open>Voting\<close>

text \<open>
  C11: A vote is granted exactly when the candidate's term is not stale, the voter has not voted
  for another candidate in that term, and the candidate's log position (last term, then last
  index) is at least the voter's. A granted vote is recorded with the candidate's term; without
  a vote the node keeps its role or, on a later term, becomes a follower that has not voted. The
  reply carries the term the node has afterwards, and the log is never touched.
\<close>
theorem request_vote_decision:
  shows "case HandleRequestVote n args of (n', reply) \<Rightarrow>
    (rvr_VoteGranted reply \<longleftrightarrow> currentTerm n \<le> rv_Term args \<and>
       (currentTerm n < rv_Term args \<or> votedFor n = '''' \<or> votedFor n = rv_CandidateID args) \<and>
       node_pos n \<le> LogPos (rv_LastLogTerm args) (rv_LastLogIndex args)) \<and>
    rvr_Term reply = currentTerm n' \<and> currentTerm n' = max (currentTerm n) (rv_Term args) \<and>
    votedFor n' = (if rvr_VoteGranted reply then rv_CandidateID args
                   else if currentTerm n < rv_Term args then '''' else votedFor n) \<and>
    nd_state n' = (if currentTerm n < rv_Term args then Follower else nd_state n) \<and> nd_log n' = nd_log n"
proof -
  have pos: "node_pos (becomeFollower n t) = node_pos n" for t
    by (simp add: node_pos_def becomeFollower_def)
  consider "rv_Term args < currentTerm n" | "rv_Term args = currentTerm n" | "currentTerm n < rv_Term args"
    by fastforce
  then show ?thesis
    by cases (simp_all add: HandleRequestVote_def Let_def logUpToDate_iff pos max_def,
      auto simp: becomeFollower_def signalElectionReset_def)
qed

section \<open>Committing\<close>

lemma nth_rev_sort_greatest:
  fixes ys :: "'a::linorder list"
  assumes "0 < q" and "q \<le> length ys" and "q \<le> length (filter (\<lambda>x. i \<le> x) ys)"
  shows "i \<le> rev (sort ys) ! (q - 1)"
proof (rule ccontr)
  let ?d = "rev (sort ys)"
  assume "\<not> i \<le> ?d ! (q - 1)"
  moreover have "?d ! k \<le> ?d ! (q - 1)" if "q - 1 \<le> k" "k < length ys" for k
    using that assms(1,2) sorted_nth_mono [of "sort ys" "length ys - Suc k" "length ys - Suc (q - 1)"]
    by (simp add: rev_nth)
  ultimately have small: "?d ! k < i" if "q - 1 \<le> k" "k < length ys" for k
    using that by (meson le_less_trans not_le)
  have "filter (\<lambda>x. i \<le> x) (drop (q - 1) ?d) = []"
    using small by (auto simp: filter_empty_conv in_set_conv_nth not_le)
  then have "length (filter (\<lambda>x. i \<le> x) (take (q - 1) ?d @ drop (q - 1) ?d)) \<le> q - 1"
    unfolding filter_append using length_filter_le [of "\<lambda>x. i \<le> x" "take (q - 1) ?d"] by simp
  moreover have "length (filter (\<lambda>x. i \<le> x) ?d) = length (filter (\<lambda>x. i \<le> x) ys)"
    by (simp add: rev_filter [symmetric] filter_sort)
  ultimately show False
    using assms(1,3) by simp
qed

lemma advanceCommitIndex_greatest:
  assumes "commitIndex (advanceCommitIndex n) \<noteq> commitIndex n"
    and "(length (nd_peers n) + 2) div 2 \<le> length (replicated_on n i)"
  shows "i \<le> commitIndex (advanceCommitIndex n)"
proof -
  let ?ys = "map snd (matchIndex n)" and ?q = "(length (nd_peers n) + 2) div 2"
  have "commitIndex (advanceCommitIndex n) = rev (sort ?ys) ! (?q - 1)" and "?q \<le> length ?ys"
    using assms(1) by (auto simp: advanceCommitIndex_def signalApply_def Let_def split: if_splits sum.splits)
  moreover have "length (replicated_on n i) = length (filter (\<lambda>x. i \<le> x) ?ys)"
    by (simp add: replicated_on_def filter_map comp_def case_prod_unfold)
  ultimately show ?thesis
    using nth_rev_sort_greatest [of ?q ?ys i] assms(2) by simp
qed

text \<open>
  C10: The commit rule. \<open>advanceCommitIndex\<close> changes \<open>commitIndex\<close> only to a greater index whose
  entry is of the leader's current term; the servers known to have reached that index are
  distinct and as many as the quorum of the code, which is a strict majority of the cluster when
  the number of peers is even (clusters of odd size); and no greater index has such a quorum.
\<close>
theorem commit_rule:
  assumes "gm_wf (matchIndex n)" and "commitIndex (advanceCommitIndex n) \<noteq> commitIndex n"
  shows "let c = commitIndex (advanceCommitIndex n); servers = replicated_on n c in
    commitIndex n < c \<and> log_Term (nd_log n) c = Inr (currentTerm n) \<and> distinct servers \<and>
    (length (nd_peers n) + 2) div 2 \<le> length servers \<and>
    (even (length (nd_peers n)) \<longrightarrow> length (nd_peers n) + 1 < 2 * length servers) \<and>
    (\<forall>i. (length (nd_peers n) + 2) div 2 \<le> length (replicated_on n i) \<longrightarrow> i \<le> c)"
proof (cases n rule: advanceCommitIndex_cases)
  case unchanged
  with assms(2) show ?thesis by simp
next
  case (commit c)
  then have c: "commitIndex (advanceCommitIndex n) = c" by (simp add: signalApply_def)
  have "distinct (replicated_on n c)"
    using assms(1) by (simp add: replicated_on_def gm_wf_def distinct_map_filter)
  with commit c advanceCommitIndex_greatest [OF assms(2)] show ?thesis
    by (auto simp: Let_def elim!: evenE)
qed

text \<open>Three servers: the leader and one peer have reached index 2, which is of term 1.\<close>

theorem commit_rule_witness:
  "let n = (sample_node [(1, 1), (2, 1)])\<lparr>matchIndex := [(''n2'', 2), (''n3'', 0), (''n1'', 2)]\<rparr>
   in commitIndex (advanceCommitIndex n) = 2 \<and> replicated_on n 2 = [''n2'', ''n1''] \<and>
      length (nd_peers n) + 1 < 2 * length (replicated_on n 2)"
proof -
  let ?n = "(sample_node [(1, 1), (2, 1)])\<lparr>matchIndex := [(''n2'', 2), (''n3'', 0), (''n1'', 2)]\<rparr>"
  have "gm_wf (matchIndex ?n)" by (simp add: gm_wf_def)
  moreover have c: "commitIndex (advanceCommitIndex ?n) = 2"
    by (simp add: advanceCommitIndex_def sample_defs log_Term_def signalApply_def)
  moreover have "commitIndex (advanceCommitIndex ?n) \<noteq> commitIndex ?n"
    unfolding c by (simp add: sample_defs)
  ultimately have "even (length (nd_peers ?n)) \<longrightarrow> length (nd_peers ?n) + 1 < 2 * length (replicated_on ?n 2)"
    using commit_rule [of ?n] unfolding Let_def by metis
  with c show ?thesis
    unfolding Let_def by (simp add: replicated_on_def sample_defs)
qed

section \<open>Applying\<close>

lemma applyLoop_deliver_result:
  "applyLoop_deliver stop n es sent =
     (let d = (case stop of None \<Rightarrow> es | Some k \<Rightarrow> if k < length sent then es else take (k - length sent) es)
      in (if d = [] then n else n\<lparr>lastApplied := e_Index (last d)\<rparr>, sent @ d, d \<noteq> es))"
proof (induction stop n es sent rule: applyLoop_deliver.induct)
  case (2 stop n e es sent)
  show ?case
  proof (cases "stop = Some (length sent)")
    case False
    then show ?thesis
      using 2 by (cases stop) (auto simp: Let_def take_Cons' not_less)
  qed (simp add: Let_def)
qed (auto split: option.split)

text \<open>The committed entries that have not been applied, in order.\<close>

definition due_entries :: "Node \<Rightarrow> Entry list" where
  "due_entries n = filter (\<lambda>e. lastApplied n < e_Index e \<and> e_Index e \<le> commitIndex n) (log_entries (nd_log n))"

lemma applyEntries_due:
  assumes "log_wf (nd_log n)" and "snapIndex (nd_log n) \<le> lastApplied n"
    and "lastApplied n < commitIndex n" and "commitIndex n \<noteq> - 1"
  shows "applyEntries n = due_entries n"
proof -
  have "lastApplied n \<noteq> - 1"
    using assms(3) by (metis word_order.extremum not_less)
  then have s: "unat (lastApplied n + 1) = unat (lastApplied n) + 1"
      "unat (commitIndex n + 1) = unat (commitIndex n) + 1"
    using assms(4) by (simp_all add: unat_u64_Suc)
  have "filter (\<lambda>e. lastApplied n + 1 \<le> e_Index e \<and> e_Index e < commitIndex n + 1) (log_entries (nd_log n)) =
      due_entries n"
    unfolding due_entries_def
    by (rule filter_cong) (auto simp: word_le_nat_alt word_less_nat_alt s)
  moreover have "\<not> lastApplied n + 1 \<le> snapIndex (nd_log n)"
    using assms(2) s by (simp add: word_le_nat_alt)
  ultimately show ?thesis
    using log_Slice_entries [OF assms(1)] by (simp add: applyEntries_def)
qed

lemma due_entries_segment:
  assumes wf: "log_wf (nd_log n)" and lo: "snapIndex (nd_log n) \<le> lastApplied n"
    and mid: "lastApplied n \<le> commitIndex n" and hi: "commitIndex n \<le> lastIndex (nd_log n)"
  shows "consecutive_from (lastApplied n) (due_entries n)"
    and "unat (lastApplied n) + length (due_entries n) = unat (commitIndex n)"
proof -
  let ?s = "unat (snapIndex (nd_log n))" and ?a = "unat (lastApplied n)" and ?c = "unat (commitIndex n)"
  have seg: "due_entries n = take (?c - ?s - (?a - ?s)) (drop (?a - ?s) (log_entries (nd_log n)))"
    unfolding due_entries_def using lo mid
    by (intro filter_segment) (auto simp: word_less_nat_alt word_le_nat_alt log_wfD(2) [OF wf])
  have le: "?s \<le> ?a" "?a \<le> ?c" "?c \<le> ?s + length (log_entries (nd_log n))"
    using lo mid hi unat_lastIndex [OF wf] by (simp_all add: word_le_nat_alt)
  show len: "?a + length (due_entries n) = ?c"
    using le by (simp add: seg)
  show "consecutive_from (lastApplied n) (due_entries n)"
    unfolding consecutive_from_def len
    using le log_wfD(2) [OF wf] unsigned_less [of "commitIndex n"] by (auto simp: seg)
qed

lemma consecutive_from_take:
  "consecutive_from prev es \<Longrightarrow> consecutive_from prev (take k es)"
  by (auto simp: consecutive_from_def)

lemma consecutive_last:
  assumes "consecutive_from prev es" and "es \<noteq> []"
  shows "unat (e_Index (last es)) = unat prev + length es"
  using assms by (cases es rule: rev_cases) (auto simp: consecutive_from_def nth_append)

lemma applyCompact_frame [simp]:
  "lastApplied (applyCompact n) = lastApplied n" "commitIndex (applyCompact n) = commitIndex n"
  by (simp_all add: applyCompact_def split: sum.split)



section \<open>The log invariant\<close>

lemma Propose_log:
  "nd_log (fst (Propose n command)) = (if nd_state n \<noteq> Leader then nd_log n
     else log_Append (nd_log n)
       [\<lparr>e_Index = lastIndex (nd_log n) + 1, e_Term = currentTerm n, e_Command = command\<rparr>])"
  by (simp add: Propose_def Let_def)

lemma Propose_wf:
  assumes "log_wf (nd_log n)" and "lastIndex (nd_log n) \<noteq> - 1"
  shows "log_wf (nd_log (fst (Propose n command)))"
proof -
  have "unat (lastIndex (nd_log n) + 1) < 2 ^ 64"
    using unsigned_less [of "lastIndex (nd_log n) + 1"] by simp
  then have "unat (lastIndex (nd_log n)) + 1 < 2 ^ 64"
    using unat_u64_Suc [OF assms(2)] by simp
  then show ?thesis
    using assms unat_u64_Suc [OF assms(2)]
    by (auto simp: Propose_log consecutive_from_def intro!: log_Append_wf)
qed

lemma HandleInstallSnapshot_wf: "log_wf (nd_log n) \<Longrightarrow> log_wf (nd_log (fst (HandleInstallSnapshot n args)))"
  by (simp add: HandleInstallSnapshot_def becomeFollower_def signalElectionReset_def Let_def SetSnapshot_wf)

lemma TakeSnapshot_wf: "log_wf (nd_log n) \<Longrightarrow> log_wf (nd_log (fst (TakeSnapshot n data)))"
  by (simp add: TakeSnapshot_def Let_def SetSnapshot_wf split: sum.split)

lemma applyCommitted_wf: "log_wf (nd_log n) \<Longrightarrow> log_wf (nd_log (fst (applyCommitted stop n)))"
  by (simp add: applyCommitted_def applyLoop_deliver_result applyCompact_def Let_def SetSnapshot_wf split: sum.split)



section \<open>Catching up\<close>


text \<open>A leader of term 3 and a follower that kept entries of a deposed leader.\<close>

definition sample_leader :: Node where
  "sample_leader = (sample_node [(1, 1), (2, 2), (3, 2)])
     \<lparr>nd_state := Leader, currentTerm := 3, nextIndex := [(''n2'', 4)], matchIndex := [(''n2'', 0), (''n1'', 3)]\<rparr>"

lemma sample_log_Term:
  assumes "log_wf (nd_log (sample_node its))"
  shows "log_Term (nd_log (sample_node its)) i = (if i = 0 then Inr 0 else
    case find (\<lambda>e. e_Index e = i) (map (\<lambda>(i, t). entry_at i t) its) of
      None \<Rightarrow> Inl (ErrIndexNotFound i) | Some e \<Rightarrow> Inr (e_Term e))"
  using log_Term_find [OF assms, of i]
  by (simp add: sample_node_def log_Term_def word_gt_0)

lemma sample_syncable: "syncable sample_leader (sample_node [(1, 1), (2, 1), (3, 1)]) ''n2''"
proof -
  let ?l = "sample_node [(1, 1), (2, 2), (3, 2)]" and ?f = "sample_node [(1, 1), (2, 1), (3, 1)]"
  have wf: "log_wf (nd_log ?l)" "log_wf (nd_log ?f)"
    by (simp_all add: sample_defs log_wf_def less_Suc_eq nth_Cons')
  have one: "j = 1" if "0 < j" and "j \<le> 1" for j :: u64
    using that by (simp add: word_less_nat_alt word_le_nat_alt word_unat_eq_iff)
  have l: "log_Term (nd_log ?l) i = (if i = 0 then Inr 0 else if i = 1 then Inr 1
      else if i = 2 \<or> i = 3 then Inr 2 else Inl (ErrIndexNotFound i))" for i
    by (simp add: sample_log_Term [OF wf(1)] entry_at_def)
  have f: "log_Term (nd_log ?f) i = (if i = 0 then Inr 0 else if i = 1 \<or> i = 2 \<or> i = 3 then Inr 1
      else Inl (ErrIndexNotFound i))" for i
    by (simp add: sample_log_Term [OF wf(2)] entry_at_def)
  have "logs_match (nd_log ?l) (nd_log ?f)"
    unfolding logs_match_def l f by (auto dest: one split: if_splits) (simp_all add: word_le_nat_alt)
  with wf show ?thesis
    by (auto simp: syncable_def sample_leader_def sample_defs lastIndex_def gm_get_def)
qed


end
