(* ===== verification/Raft_Limits.thy ===== *)
theory Raft_Limits
  imports Raft_Properties
begin

text \<open>
  Runs of the node code that leave the Raft contract, each by evaluation on a concrete node: a
  commit without a majority in a cluster of even size, a log whose indices no longer match its
  positions, a follower that a compacted leader never brings up to date, and a conflicting suffix
  that survives a snapshot.
\<close>

lemmas run_defs = sample_defs log_Term_def log_Append_def log_Slice_def lastIndex_def lastTerm_def
  TruncateAfter_def SetSnapshot_def becomeFollower_def signalElectionReset_def signalApply_def Let_def

text \<open>
  Two servers: \<^verbatim>\<open>(len(peers)+1+1)/2\<close> is 1, so the leader commits an entry no other server has.
\<close>

definition pair_leader :: Node where
  "pair_leader = (raft_New (raft_DefaultConfig ''n1'' [''n2'']))
     \<lparr>nd_state := Leader, currentTerm := 1, matchIndex := [(''n2'', 0), (''n1'', 0)]\<rparr>"

lemma pair_leader_commits_alone:
  "let n = fst (Propose pair_leader [])
   in commitIndex n = 1 \<and> replicated_on n 1 = [''n1''] \<and> length (nd_peers n) + 1 = 2"
  by (simp add: pair_leader_def Propose_def advanceCommitIndex_def newRaftLog_def replicated_on_def run_defs)

text \<open>
  A follower whose snapshot covers 1 to 3 receives the entry 1 again with previous index 0:
  \<^verbatim>\<open>Term\<close> answers \<^verbatim>\<open>ErrCompacted\<close>, which the loop takes for an index past the end of the log.
\<close>

definition compacted_follower :: Node where
  "compacted_follower = (sample_node [(4, 1)])\<lparr>nd_log := \<lparr>log_entries = [entry_at 4 1], snapIndex = 3, snapTerm = 1\<rparr>\<rparr>"

lemma append_below_snapshot_breaks_index:
  "let args = \<lparr>ae_Term = 1, ae_LeaderID = ''n2'', ae_PrevLogIndex = 0, ae_PrevLogTerm = 0,
                ae_Entries = [entry_at 1 1], ae_LeaderCommit = 0\<rparr>;
       (n, r) = HandleAppendEntries compacted_follower args
   in log_wf (nd_log compacted_follower) \<and> aer_Success r \<and>
      map e_Index (log_entries (nd_log n)) = [4, 1] \<and> \<not> log_wf (nd_log n)"
  by (simp add: compacted_follower_def HandleAppendEntries_def log_wf_def run_defs) (rule exI [of _ 1], simp)

text \<open>
  A leader whose log starts after a snapshot at 3 and a peer with \<^verbatim>\<open>nextIndex\<close> 1: \<^verbatim>\<open>Term(0)\<close>
  succeeds and \<^verbatim>\<open>Slice\<close> is empty, so each round sends an empty message, succeeds and leaves
  \<^verbatim>\<open>nextIndex\<close> at 1. No snapshot is sent, and a follower with other entries commits them.
\<close>

definition compacted_leader :: Node where
  "compacted_leader = (sample_node [])
     \<lparr>nd_state := Leader, currentTerm := 2, commitIndex := 4, nextIndex := [(''n2'', 1)],
      matchIndex := [(''n2'', 0), (''n3'', 4), (''n1'', 4)],
      nd_log := \<lparr>log_entries = [entry_at 4 2], snapIndex = 3, snapTerm = 2\<rparr>\<rparr>"

lemma compacted_leader_sends_nothing_useful:
  "case replicate_round compacted_leader (sample_node [(1, 1), (2, 1)]) ''n2'' of
     Some (leader, follower, ok) \<Rightarrow>
       ok \<and> gm_get 0 (nextIndex leader) ''n2'' = 1 \<and> nd_log follower = nd_log (sample_node [(1, 1), (2, 1)]) \<and>
       commitIndex follower = 2
   | None \<Rightarrow> False"
  by (simp add: replicate_round_def replicateTo_send_def replicateTo_reply_def compacted_leader_def gm_get_def
      HandleAppendEntries_def advanceCommitIndex_def run_defs)

text \<open>
  A snapshot of index 2, term 2, installed on a follower whose entries 1 to 3 are of term 1: entry
  3, which follows a replaced entry, stays in the log.
\<close>

lemma snapshot_keeps_conflicting_suffix:
  "let args = \<lparr>is_Term = 2, is_LeaderID = ''n2'', is_LastIncludedIndex = 2, is_LastIncludedTerm = 2,
                is_Data = [], is_Offset = 0, is_Done = True\<rparr>;
       n = fst (HandleInstallSnapshot (sample_node [(1, 1), (2, 1), (3, 1)]) args)
   in log_Term (nd_log n) 2 = Inr 2 \<and> log_Term (nd_log n) 3 = Inr 1"
  by (simp add: HandleInstallSnapshot_def run_defs)

text \<open>
  A candidate that gives up on an AppendEntries of its own term forgets that it voted for itself:
  it grants a vote to another candidate of the same term.
\<close>

lemma candidate_votes_twice_in_term:
  "let c = fst (startElection (sample_node []));
       ae = \<lparr>ae_Term = 2, ae_LeaderID = ''n2'', ae_PrevLogIndex = 0, ae_PrevLogTerm = 0,
             ae_Entries = [], ae_LeaderCommit = 0\<rparr>;
       f = fst (HandleAppendEntries c ae);
       rv = \<lparr>rv_Term = 2, rv_CandidateID = ''n3'', rv_LastLogIndex = 0, rv_LastLogTerm = 0\<rparr>
   in currentTerm c = 2 \<and> votedFor c = ''n1'' \<and> currentTerm f = 2 \<and>
      rvr_VoteGranted (snd (HandleRequestVote f rv))"
  by (simp add: startElection_def HandleAppendEntries_def HandleRequestVote_def logUpToDate_def run_defs)

text \<open>
  A reply to a snapshot of term 1 that a follower of term 2 refused reaches the sender when it
  leads term 3: \<^verbatim>\<open>sendSnapshot\<close> compares neither the term of its request nor the refusal, and
  records the follower's log as matching up to the snapshot.
\<close>

lemma refused_snapshot_counts_as_delivered:
  "let args = \<lparr>is_Term = 1, is_LeaderID = ''n1'', is_LastIncludedIndex = 4, is_LastIncludedTerm = 1,
                is_Data = [], is_Offset = 0, is_Done = True\<rparr>;
       follower = (sample_node [])\<lparr>currentTerm := 2\<rparr>;
       (follower', reply) = HandleInstallSnapshot follower args;
       leader = compacted_leader\<lparr>currentTerm := 3, matchIndex := [(''n2'', 0), (''n3'', 0), (''n1'', 4)]\<rparr>
   in follower' = follower \<and> gm_get 0 (matchIndex (sendSnapshot_reply leader ''n2'' args reply)) ''n2'' = 4"
  by (simp add: HandleInstallSnapshot_def sendSnapshot_reply_def compacted_leader_def gm_get_def run_defs)

end
