(* ===== verification/Raft_Cluster.thy ===== *)
theory Raft_Cluster
  imports Raft_CatchUp
begin

text \<open>
  A cluster of nodes exchanging messages: every critical section of the node code is a step,
  taken in any order. Messages already sent stay available, so they may be delayed, reordered,
  delivered more than once or never; only a vote reply is consumed at most once per peer, as
  each vote request has its own goroutine. A restart of a node, which would forget the term
  and the vote that the source keeps in memory only, is not a step.

  The result is election safety: one term never has two leaders.
\<close>

section \<open>Quorums\<close>

locale quorum_system =
  fixes quorum :: "'a set \<Rightarrow> bool"
  assumes intersect: "quorum Q \<Longrightarrow> quorum R \<Longrightarrow> Q \<inter> R \<noteq> {}"
begin

text \<open>Two decisions, each backed by a quorum, share a backer.\<close>

lemma shared_member:
  assumes "quorum Q" and "quorum R"
    and "\<And>x. x \<in> Q \<Longrightarrow> P x" and "\<And>x. x \<in> R \<Longrightarrow> P' x"
  obtains x where "P x" and "P' x"
  using intersect [OF assms(1,2)] assms(3,4) by blast

lemma nonempty: "quorum Q \<Longrightarrow> Q \<noteq> {}"
  using intersect by blast

end

text \<open>A set of nodes large enough to win an election among \<open>ids\<close>.\<close>

definition vote_quorum :: "string list \<Rightarrow> string set \<Rightarrow> bool" where
  "vote_quorum ids Q \<longleftrightarrow> Q \<subseteq> set ids \<and> int (length ids) div 2 + 1 \<le> int (card Q)"

lemma majorities_meet:
  assumes "finite U" and "Q \<subseteq> U" and "R \<subseteq> U" and "card U < card Q + card R"
  shows "Q \<inter> R \<noteq> {}"
proof
  assume "Q \<inter> R = {}"
  with assms have "card (Q \<union> R) = card Q + card R"
    by (intro card_Un_disjoint) (auto intro: finite_subset)
  moreover have "card (Q \<union> R) \<le> card U"
    using assms by (intro card_mono) auto
  ultimately show False using assms(4) by simp
qed

interpretation votes: quorum_system "vote_quorum ids" for ids
proof
  fix Q R
  assume "vote_quorum ids Q" and "vote_quorum ids R"
  moreover have "card (set ids) \<le> length ids" by (rule card_length)
  ultimately show "Q \<inter> R \<noteq> {}"
    by (intro majorities_meet [of "set ids"]) (auto simp: vote_quorum_def)
qed

section \<open>Cluster state and steps\<close>

record cluster =
  cl_nodes :: "string \<Rightarrow> Node"
  cl_elections :: "string \<times> u64 \<Rightarrow> election option"
  cl_counted :: "string \<times> u64 \<Rightarrow> string set"
  cl_votereqs :: "RequestVoteArgs set"
  cl_votereps :: "(string \<times> string \<times> u64 \<times> RequestVoteReply) set"
  cl_aereqs :: "(string \<times> AppendEntriesArgs) set"
  cl_aereps :: "(string \<times> AppendEntriesArgs \<times> AppendEntriesReply) set"
  cl_isreqs :: "(string \<times> InstallSnapshotArgs) set"
  cl_isreps :: "(string \<times> InstallSnapshotArgs \<times> InstallSnapshotReply) set"
  cl_elected :: "(string \<times> u64) set"

text \<open>
  \<open>ids\<close> are the node IDs; \<open>peers i\<close> is the configured peer list of node \<open>i\<close>, and \<open>route\<close> the
  transport's map from a peer name to the node registered under it (the identity for the
  in-memory network, address to node for gRPC). \<open>cl_elected\<close> only records which node became
  leader in which term.
\<close>

definition cluster_config :: "string list \<Rightarrow> (string \<Rightarrow> string list) \<Rightarrow> (string \<Rightarrow> string) \<Rightarrow> bool" where
  "cluster_config ids peers route \<longleftrightarrow>
     distinct ids \<and> '''' \<notin> set ids \<and>
     (\<forall>i \<in> set ids. distinct (map route (peers i)) \<and> route ` set (peers i) = set ids - {i})"

definition cluster_init :: "(string \<Rightarrow> string list) \<Rightarrow> cluster" where
  "cluster_init peers =
     \<lparr>cl_nodes = (\<lambda>i. raft_New (raft_DefaultConfig i (peers i))),
      cl_elections = (\<lambda>_. None), cl_counted = (\<lambda>_. {}), cl_votereqs = {}, cl_votereps = {},
      cl_aereqs = {}, cl_aereps = {}, cl_isreqs = {}, cl_isreps = {}, cl_elected = {}\<rparr>"

definition set_node :: "string \<Rightarrow> Node \<Rightarrow> cluster \<Rightarrow> cluster" where
  "set_node i n s = s\<lparr>cl_nodes := (cl_nodes s)(i := n)\<rparr>"

text \<open>Node \<open>i\<close> continues as \<open>n\<close> after a step of its election in term \<open>t\<close>.\<close>

definition elect_node :: "string \<Rightarrow> u64 \<Rightarrow> election \<Rightarrow> Node \<Rightarrow> cluster \<Rightarrow> cluster" where
  "elect_node i t el n s =
     (set_node i n s)\<lparr>cl_elections := (cl_elections s)((i, t) := Some el),
       cl_elected := (if nd_state n = Leader \<and> nd_state (cl_nodes s i) \<noteq> Leader
                      then insert (i, currentTerm n) (cl_elected s) else cl_elected s)\<rparr>"

inductive cluster_step :: "string list \<Rightarrow> (string \<Rightarrow> string) \<Rightarrow> cluster \<Rightarrow> cluster \<Rightarrow> bool"
  for ids :: "string list" and route :: "string \<Rightarrow> string" where
  election_timeout:
    "\<lbrakk>i \<in> set ids; currentTerm (cl_nodes s i) \<noteq> - 1;
      startElection (cl_nodes s i) = (n, Some (el, args))\<rbrakk> \<Longrightarrow>
     cluster_step ids route s
       ((set_node i n s)\<lparr>cl_elections := (cl_elections s)((i, el_term el) := Some el),
                         cl_votereqs := insert args (cl_votereqs s)\<rparr>)"
| single_node_win:
    "\<lbrakk>i \<in> set ids; cl_elections s (i, t) = Some el; el_votes el = 1;
      singleNodeWin el (cl_nodes s i) = (el', n)\<rbrakk> \<Longrightarrow>
     cluster_step ids route s (elect_node i t el' n s)"
| deliver_vote_request:
    "\<lbrakk>args \<in> cl_votereqs s; p \<in> set (nd_peers (cl_nodes s (rv_CandidateID args))); route p = j;
      HandleRequestVote (cl_nodes s j) args = (n, reply)\<rbrakk> \<Longrightarrow>
     cluster_step ids route s
       ((set_node j n s)\<lparr>cl_votereps :=
          insert (j, rv_CandidateID args, rv_Term args, reply) (cl_votereps s)\<rparr>)"
| vote_reply:
    "\<lbrakk>i \<in> set ids; (j, i, t, reply) \<in> cl_votereps s; p \<in> set (nd_peers (cl_nodes s i)); route p = j;
      p \<notin> cl_counted s (i, t); cl_elections s (i, t) = Some el;
      handleVoteReply el (cl_nodes s i) reply = (el', n)\<rbrakk> \<Longrightarrow>
     cluster_step ids route s
       ((elect_node i t el' n s)\<lparr>cl_counted :=
          (cl_counted s)((i, t) := insert p (cl_counted s (i, t)))\<rparr>)"
| client_propose:
    "\<lbrakk>i \<in> set ids; Propose (cl_nodes s i) command = (n, res)\<rbrakk> \<Longrightarrow>
     cluster_step ids route s (set_node i n s)"
| replicate_send:
    "\<lbrakk>i \<in> set ids; p \<in> set (nd_peers (cl_nodes s i)); route p = j;
      replicateTo_send (cl_nodes s i) p = SendEntries args\<rbrakk> \<Longrightarrow>
     cluster_step ids route s (s\<lparr>cl_aereqs := insert (j, args) (cl_aereqs s)\<rparr>)"
| deliver_append_entries:
    "\<lbrakk>(j, args) \<in> cl_aereqs s; HandleAppendEntries (cl_nodes s j) args = (n, reply)\<rbrakk> \<Longrightarrow>
     cluster_step ids route s
       ((set_node j n s)\<lparr>cl_aereps := insert (j, args, reply) (cl_aereps s)\<rparr>)"
| append_entries_reply:
    "\<lbrakk>i \<in> set ids; (j, args, reply) \<in> cl_aereps s; i = ae_LeaderID args;
      p \<in> set (nd_peers (cl_nodes s i)); route p = j\<rbrakk> \<Longrightarrow>
     cluster_step ids route s (set_node i (replicateTo_reply (cl_nodes s i) p args reply) s)"
| snapshot_send:
    "\<lbrakk>i \<in> set ids; p \<in> set (nd_peers (cl_nodes s i)); route p = j;
      sendSnapshot_send (cl_nodes s i) = Some args\<rbrakk> \<Longrightarrow>
     cluster_step ids route s (s\<lparr>cl_isreqs := insert (j, args) (cl_isreqs s)\<rparr>)"
| deliver_install_snapshot:
    "\<lbrakk>j \<in> set ids; (j, args) \<in> cl_isreqs s; HandleInstallSnapshot (cl_nodes s j) args = (n, reply)\<rbrakk> \<Longrightarrow>
     cluster_step ids route s
       ((set_node j n s)\<lparr>cl_isreps := insert (j, args, reply) (cl_isreps s)\<rparr>)"
| install_snapshot_reply:
    "\<lbrakk>i \<in> set ids; (j, args, reply) \<in> cl_isreps s; i = is_LeaderID args;
      p \<in> set (nd_peers (cl_nodes s i)); route p = j\<rbrakk> \<Longrightarrow>
     cluster_step ids route s (set_node i (sendSnapshot_reply (cl_nodes s i) p args reply) s)"
| take_snapshot:
    "\<lbrakk>i \<in> set ids; TakeSnapshot (cl_nodes s i) data = (n, res)\<rbrakk> \<Longrightarrow>
     cluster_step ids route s (set_node i n s)"
| apply_committed:
    "\<lbrakk>i \<in> set ids; applyCommitted stop (cl_nodes s i) = (n, sent)\<rbrakk> \<Longrightarrow>
     cluster_step ids route s (set_node i n s)"

inductive reachable :: "string list \<Rightarrow> (string \<Rightarrow> string list) \<Rightarrow> (string \<Rightarrow> string) \<Rightarrow> cluster \<Rightarrow> bool"
  for ids :: "string list" and peers :: "string \<Rightarrow> string list" and route :: "string \<Rightarrow> string" where
  reach_init: "reachable ids peers route (cluster_init peers)"
| reach_step: "reachable ids peers route s \<Longrightarrow> cluster_step ids route s s' \<Longrightarrow> reachable ids peers route s'"

section \<open>The invariant\<close>

definition granted :: "cluster \<Rightarrow> string \<Rightarrow> string \<Rightarrow> u64 \<Rightarrow> bool" where
  "granted s j c t \<longleftrightarrow> (\<exists>r. (j, c, t, r) \<in> cl_votereps s \<and> rvr_VoteGranted r)"

definition inv_nodes :: "string list \<Rightarrow> (string \<Rightarrow> string list) \<Rightarrow> cluster \<Rightarrow> bool" where
  "inv_nodes ids peers s \<longleftrightarrow>
     (\<forall>i \<in> set ids. nd_id (cl_nodes s i) = i \<and> nd_peers (cl_nodes s i) = peers i \<and>
        (nd_state (cl_nodes s i) \<noteq> Follower \<longrightarrow> votedFor (cl_nodes s i) = i))"

definition inv_votes :: "string list \<Rightarrow> cluster \<Rightarrow> bool" where
  "inv_votes ids s \<longleftrightarrow>
     (\<forall>args \<in> cl_votereqs s. rv_CandidateID args \<in> set ids) \<and>
     (\<forall>j c t. granted s j c t \<longrightarrow> j \<in> set ids \<and> c \<in> set ids \<and> j \<noteq> c \<and>
        t \<le> currentTerm (cl_nodes s j) \<and>
        (t = currentTerm (cl_nodes s j) \<longrightarrow>
           votedFor (cl_nodes s j) = c \<and> nd_state (cl_nodes s j) = Follower)) \<and>
     (\<forall>j c d t. granted s j c t \<and> granted s j d t \<longrightarrow> c = d)"

definition election_ok :: "(string \<Rightarrow> string list) \<Rightarrow> (string \<Rightarrow> string) \<Rightarrow> cluster \<Rightarrow> string \<Rightarrow> u64 \<Rightarrow> election \<Rightarrow> bool" where
  "election_ok peers route s i t el \<longleftrightarrow>
     el_term el = t \<and> t \<le> currentTerm (cl_nodes s i) \<and> el_quorum el = electionQuorum (peers i) \<and>
     (\<exists>S \<subseteq> set (peers i) \<inter> cl_counted s (i, t).
        el_votes el = 1 + int (card S) \<and> (\<forall>p \<in> S. granted s (route p) i t))"

definition inv_elections :: "string list \<Rightarrow> (string \<Rightarrow> string list) \<Rightarrow> (string \<Rightarrow> string) \<Rightarrow> cluster \<Rightarrow> bool" where
  "inv_elections ids peers route s \<longleftrightarrow>
     (\<forall>i t el. i \<in> set ids \<and> cl_elections s (i, t) = Some el \<longrightarrow> election_ok peers route s i t el)"

definition inv_elected :: "string list \<Rightarrow> cluster \<Rightarrow> bool" where
  "inv_elected ids s \<longleftrightarrow>
     (\<forall>i t. (i, t) \<in> cl_elected s \<longrightarrow>
        i \<in> set ids \<and> t \<le> currentTerm (cl_nodes s i) \<and>
        (t = currentTerm (cl_nodes s i) \<longrightarrow> nd_state (cl_nodes s i) = Leader) \<and>
        (\<forall>c. \<not> granted s i c t) \<and>
        (\<exists>Q. vote_quorum ids Q \<and> (\<forall>j \<in> Q. j = i \<or> granted s j i t))) \<and>
     (\<forall>i \<in> set ids. nd_state (cl_nodes s i) = Leader \<longrightarrow> (i, currentTerm (cl_nodes s i)) \<in> cl_elected s) \<and>
     (\<forall>(j, args) \<in> cl_aereqs s. j \<in> set ids \<and> j \<noteq> ae_LeaderID args \<and>
        (ae_LeaderID args, ae_Term args) \<in> cl_elected s)"

definition inv_unique :: "cluster \<Rightarrow> bool" where
  "inv_unique s \<longleftrightarrow> (\<forall>i j t. (i, t) \<in> cl_elected s \<and> (j, t) \<in> cl_elected s \<longrightarrow> i = j)"

definition cluster_inv :: "string list \<Rightarrow> (string \<Rightarrow> string list) \<Rightarrow> (string \<Rightarrow> string) \<Rightarrow> cluster \<Rightarrow> bool" where
  "cluster_inv ids peers route s \<longleftrightarrow>
     inv_nodes ids peers s \<and> inv_votes ids s \<and> inv_elections ids peers route s \<and>
     inv_elected ids s \<and> inv_unique s"

lemmas cluster_inv_defs = cluster_inv_def inv_nodes_def inv_votes_def inv_elections_def inv_elected_def inv_unique_def

section \<open>What a critical section does to the role of a node\<close>

definition role_kept :: "Node \<Rightarrow> Node \<Rightarrow> bool" where
  "role_kept n n' \<longleftrightarrow> nd_id n' = nd_id n \<and> nd_peers n' = nd_peers n \<and>
     currentTerm n' = currentTerm n \<and> votedFor n' = votedFor n \<and> nd_state n' = nd_state n"

definition stepped_down :: "Node \<Rightarrow> Node \<Rightarrow> bool" where
  "stepped_down n n' \<longleftrightarrow> nd_id n' = nd_id n \<and> nd_peers n' = nd_peers n \<and>
     currentTerm n < currentTerm n' \<and> votedFor n' = '''' \<and> nd_state n' = Follower"

lemmas role_defs = role_kept_def stepped_down_def becomeFollower_def signalApply_def signalElectionReset_def

lemma advanceCommitIndex_role: "role_kept n (advanceCommitIndex n)"
  by (auto simp: advanceCommitIndex_def role_defs Let_def split: sum.split)

lemma Propose_role: "role_kept n (fst (Propose n command))"
  using advanceCommitIndex_role
  by (auto simp: Propose_def role_kept_def Let_def)

lemma replicateTo_reply_role:
  "role_kept n (replicateTo_reply n p args reply) \<or> stepped_down n (replicateTo_reply n p args reply)"
  using advanceCommitIndex_role
  by (auto simp: replicateTo_reply_def role_defs Let_def)

lemma sendSnapshot_reply_role:
  "role_kept n (sendSnapshot_reply n p args reply) \<or> stepped_down n (sendSnapshot_reply n p args reply)"
  by (auto simp: sendSnapshot_reply_def role_defs Let_def)

lemma HandleInstallSnapshot_role:
  "role_kept n (fst (HandleInstallSnapshot n args)) \<or> stepped_down n (fst (HandleInstallSnapshot n args))"
  by (auto simp: HandleInstallSnapshot_def role_defs Let_def)

lemma TakeSnapshot_role: "role_kept n (fst (TakeSnapshot n data))"
  by (auto simp: TakeSnapshot_def role_defs Let_def split: sum.split)

lemma applyLoop_deliver_role: "role_kept n (fst (applyLoop_deliver stop n es sent))"
  by (induction stop n es sent rule: applyLoop_deliver.induct) (auto simp: role_kept_def)

lemma applyCommitted_role: "role_kept n (fst (applyCommitted stop n))"
  using applyLoop_deliver_role [of n stop "applyEntries n" "[]"]
  by (auto simp: applyCommitted_def applyCompact_def role_kept_def split: prod.split sum.split)

text \<open>An AppendEntries of the current term also turns a candidate into a follower without a vote.\<close>

lemma HandleAppendEntries_role:
  fixes n :: Node and args :: AppendEntriesArgs
  defines "n' \<equiv> fst (HandleAppendEntries n args)"
  shows "role_kept n n' \<or> stepped_down n n' \<or>
    (nd_id n' = nd_id n \<and> nd_peers n' = nd_peers n \<and> ae_Term args = currentTerm n \<and>
     nd_state n \<noteq> Follower \<and> currentTerm n' = currentTerm n \<and> votedFor n' = '''' \<and> nd_state n' = Follower)"
  unfolding n'_def
  by (auto simp: HandleAppendEntries_def role_defs Let_def split: prod.split)

lemma becomeLeader_role:
  "nd_state n = Candidate \<Longrightarrow>
     nd_id (becomeLeader n) = nd_id n \<and> nd_peers (becomeLeader n) = nd_peers n \<and>
     currentTerm (becomeLeader n) = currentTerm n \<and> votedFor (becomeLeader n) = votedFor n \<and>
     nd_state (becomeLeader n) = Leader"
  by (simp add: becomeLeader_def Let_def split: prod.split)

section \<open>Preservation\<close>

lemma granted_cong: "cl_votereps s' = cl_votereps s \<Longrightarrow> granted s' = granted s"
  by (intro ext) (simp add: granted_def)

lemma inv_node:
  assumes "cluster_inv ids peers route s" and "i \<in> set ids"
  shows "nd_id (cl_nodes s i) = i" and "nd_peers (cl_nodes s i) = peers i"
    and "nd_state (cl_nodes s i) \<noteq> Follower \<Longrightarrow> votedFor (cl_nodes s i) = i"
  using assms by (auto simp: cluster_inv_def inv_nodes_def)

lemma inv_request:
  "cluster_inv ids peers route s \<Longrightarrow> args \<in> cl_votereqs s \<Longrightarrow> rv_CandidateID args \<in> set ids"
  by (simp add: cluster_inv_def inv_votes_def)

lemma inv_grant:
  assumes "cluster_inv ids peers route s" and "granted s j c t"
  shows "j \<in> set ids" and "c \<in> set ids" and "j \<noteq> c" and "t \<le> currentTerm (cl_nodes s j)"
    and "t = currentTerm (cl_nodes s j) \<Longrightarrow> votedFor (cl_nodes s j) = c \<and> nd_state (cl_nodes s j) = Follower"
  using assms by (auto simp: cluster_inv_def inv_votes_def)

lemma candidate_no_grant:
  assumes "cluster_inv ids peers route s" and "nd_state (cl_nodes s i) = Candidate"
  shows "\<not> granted s i c (currentTerm (cl_nodes s i))"
proof
  assume "granted s i c (currentTerm (cl_nodes s i))"
  from inv_grant(5) [OF assms(1) this] assms(2) show False by simp
qed

lemma inv_grant_unique:
  "cluster_inv ids peers route s \<Longrightarrow> granted s j c t \<Longrightarrow> granted s j d t \<Longrightarrow> c = d"
  unfolding cluster_inv_def inv_votes_def by blast

lemma inv_election:
  "cluster_inv ids peers route s \<Longrightarrow> i \<in> set ids \<Longrightarrow> cl_elections s (i, t) = Some el \<Longrightarrow>
     election_ok peers route s i t el"
  by (simp add: cluster_inv_def inv_elections_def)

lemma inv_elected_node:
  assumes "cluster_inv ids peers route s" and "(i, t) \<in> cl_elected s"
  shows "i \<in> set ids" and "t \<le> currentTerm (cl_nodes s i)"
    and "t = currentTerm (cl_nodes s i) \<Longrightarrow> nd_state (cl_nodes s i) = Leader"
    and "\<not> granted s i c t"
    and "\<exists>Q. vote_quorum ids Q \<and> (\<forall>j \<in> Q. j = i \<or> granted s j i t)"
  using assms by (auto simp: cluster_inv_def inv_elected_def)

lemma inv_leader:
  "cluster_inv ids peers route s \<Longrightarrow> i \<in> set ids \<Longrightarrow> nd_state (cl_nodes s i) = Leader \<Longrightarrow>
     (i, currentTerm (cl_nodes s i)) \<in> cl_elected s"
  by (simp add: cluster_inv_def inv_elected_def)

lemma inv_append_entries:
  "cluster_inv ids peers route s \<Longrightarrow> (j, args) \<in> cl_aereqs s \<Longrightarrow>
     j \<in> set ids \<and> j \<noteq> ae_LeaderID args \<and> (ae_LeaderID args, ae_Term args) \<in> cl_elected s"
  by (auto simp: cluster_inv_def inv_elected_def)

lemma inv_one_elected:
  "cluster_inv ids peers route s \<Longrightarrow> (i, t) \<in> cl_elected s \<Longrightarrow> (j, t) \<in> cl_elected s \<Longrightarrow> i = j"
  unfolding cluster_inv_def inv_unique_def by blast

lemma inv_votesI:
  assumes "\<And>a. a \<in> cl_votereqs s \<Longrightarrow> rv_CandidateID a \<in> set ids"
    and "\<And>j c t. granted s j c t \<Longrightarrow> j \<in> set ids \<and> c \<in> set ids \<and> j \<noteq> c \<and> t \<le> currentTerm (cl_nodes s j)"
    and "\<And>j c t. granted s j c t \<Longrightarrow> t = currentTerm (cl_nodes s j) \<Longrightarrow>
           votedFor (cl_nodes s j) = c \<and> nd_state (cl_nodes s j) = Follower"
    and "\<And>j c d t. granted s j c t \<Longrightarrow> granted s j d t \<Longrightarrow> c = d"
  shows "inv_votes ids s"
  unfolding inv_votes_def using assms by (intro conjI allI impI ballI) blast+

lemma inv_electedI:
  assumes "\<And>i t. (i, t) \<in> cl_elected s \<Longrightarrow> i \<in> set ids \<and> t \<le> currentTerm (cl_nodes s i)"
    and "\<And>i t. (i, t) \<in> cl_elected s \<Longrightarrow> t = currentTerm (cl_nodes s i) \<Longrightarrow> nd_state (cl_nodes s i) = Leader"
    and "\<And>i t c. (i, t) \<in> cl_elected s \<Longrightarrow> \<not> granted s i c t"
    and "\<And>i t. (i, t) \<in> cl_elected s \<Longrightarrow> \<exists>Q. vote_quorum ids Q \<and> (\<forall>j \<in> Q. j = i \<or> granted s j i t)"
    and "\<And>i. i \<in> set ids \<Longrightarrow> nd_state (cl_nodes s i) = Leader \<Longrightarrow> (i, currentTerm (cl_nodes s i)) \<in> cl_elected s"
    and "\<And>j args. (j, args) \<in> cl_aereqs s \<Longrightarrow> j \<in> set ids \<and> j \<noteq> ae_LeaderID args \<and>
           (ae_LeaderID args, ae_Term args) \<in> cl_elected s"
  shows "inv_elected ids s"
  unfolding inv_elected_def using assms by (intro conjI allI impI ballI) (blast+)

lemma election_ok_mono:
  assumes "election_ok peers route s i t el" and "currentTerm (cl_nodes s i) \<le> currentTerm (cl_nodes s' i)"
    and "cl_counted s (i, t) \<subseteq> cl_counted s' (i, t)" and "\<And>j c t. granted s j c t \<Longrightarrow> granted s' j c t"
  shows "election_ok peers route s' i t el"
  unfolding election_ok_def
proof (intro conjI)
  show "t \<le> currentTerm (cl_nodes s' i)"
    using assms(1,2) unfolding election_ok_def by (blast intro: order_trans)
  obtain S where S: "S \<subseteq> set (peers i) \<inter> cl_counted s (i, t)" "el_votes el = 1 + int (card S)"
      "\<forall>p \<in> S. granted s (route p) i t"
    using assms(1) unfolding election_ok_def by blast
  then show "\<exists>S \<subseteq> set (peers i) \<inter> cl_counted s' (i, t).
      el_votes el = 1 + int (card S) \<and> (\<forall>p \<in> S. granted s' (route p) i t)"
    using assms(3,4) by (intro exI [of _ S]) auto
qed (use assms(1) in \<open>simp_all add: election_ok_def\<close>)

text \<open>
  Terms and votes only grow, so most of the invariant carries over; a step must account for
  the elections it changes, and for nodes that are leaders before or after it.
\<close>

lemma inv_elections_mono:
  assumes inv: "cluster_inv ids peers route s"
    and grow: "\<And>j. currentTerm (cl_nodes s j) \<le> currentTerm (cl_nodes s' j)"
      "\<And>k. cl_counted s k \<subseteq> cl_counted s' k" "\<And>j c t. granted s j c t \<Longrightarrow> granted s' j c t"
    and new: "\<And>i t el. i \<in> set ids \<Longrightarrow> cl_elections s' (i, t) = Some el \<Longrightarrow> cl_elections s (i, t) \<noteq> Some el \<Longrightarrow>
           election_ok peers route s' i t el"
  shows "inv_elections ids peers route s'"
  unfolding inv_elections_def
  using election_ok_mono [OF inv_election [OF inv] grow] new by blast

lemma inv_elected_mono:
  assumes inv: "cluster_inv ids peers route s"
    and grow: "\<And>j. currentTerm (cl_nodes s j) \<le> currentTerm (cl_nodes s' j)"
      "\<And>j c t. granted s j c t \<Longrightarrow> granted s' j c t"
    and s': "cl_elected s' = cl_elected s"
    and quiet: "\<And>i t c. (i, t) \<in> cl_elected s \<Longrightarrow> \<not> granted s' i c t"
    and stay: "\<And>i. (i, currentTerm (cl_nodes s i)) \<in> cl_elected s \<Longrightarrow> nd_state (cl_nodes s i) = Leader \<Longrightarrow>
           currentTerm (cl_nodes s' i) = currentTerm (cl_nodes s i) \<Longrightarrow> nd_state (cl_nodes s' i) = Leader"
    and leader: "\<And>i. i \<in> set ids \<Longrightarrow> nd_state (cl_nodes s' i) = Leader \<Longrightarrow>
           nd_state (cl_nodes s i) = Leader \<and> currentTerm (cl_nodes s' i) = currentTerm (cl_nodes s i)"
    and ae: "\<And>j args. (j, args) \<in> cl_aereqs s' \<Longrightarrow> j \<in> set ids \<and> j \<noteq> ae_LeaderID args \<and>
           (ae_LeaderID args, ae_Term args) \<in> cl_elected s"
  shows "inv_elected ids s'"
proof (rule inv_electedI, unfold s')
  note elected = inv_elected_node [OF inv]
  fix i t
  assume el: "(i, t) \<in> cl_elected s"
  show "i \<in> set ids \<and> t \<le> currentTerm (cl_nodes s' i)"
    by (intro conjI elected(1) [OF el] order_trans [OF elected(2) [OF el] grow(1)])
  show "\<exists>Q. vote_quorum ids Q \<and> (\<forall>j \<in> Q. j = i \<or> granted s' j i t)"
    using elected(5) [OF el] grow(2) by blast
  assume t: "t = currentTerm (cl_nodes s' i)"
  with elected(2) [OF el] grow(1) [of i] have "t = currentTerm (cl_nodes s i)" by simp
  with el t elected(3) [OF el] stay show "nd_state (cl_nodes s' i) = Leader" by simp
next
  fix i
  assume "i \<in> set ids" and "nd_state (cl_nodes s' i) = Leader"
  with leader [OF this] inv_leader [OF inv] show "(i, currentTerm (cl_nodes s' i)) \<in> cl_elected s" by simp
qed (rule quiet ae, assumption)+

lemma inv_unique_same: "cluster_inv ids peers route s \<Longrightarrow> cl_elected s' = cl_elected s \<Longrightarrow> inv_unique s'"
  by (simp add: cluster_inv_def inv_unique_def)

lemma cluster_invI:
  "inv_nodes ids peers s \<Longrightarrow> inv_votes ids s \<Longrightarrow> inv_elections ids peers route s \<Longrightarrow>
   inv_elected ids s \<Longrightarrow> inv_unique s \<Longrightarrow> cluster_inv ids peers route s"
  by (simp add: cluster_inv_def)

section \<open>Each kind of step\<close>

text \<open>
  A step that leaves the votes alone, and in which every node keeps its role, goes to a later
  term, or gives up a candidacy.
\<close>

definition may_become :: "Node \<Rightarrow> Node \<Rightarrow> bool" where
  "may_become n n' \<longleftrightarrow> role_kept n n' \<or> stepped_down n n' \<or>
     (nd_id n' = nd_id n \<and> nd_peers n' = nd_peers n \<and> nd_state n = Candidate \<and>
      currentTerm n' = currentTerm n \<and> votedFor n' = '''' \<and> nd_state n' = Follower)"

lemma may_becomeI: "role_kept n n' \<or> stepped_down n n' \<Longrightarrow> may_become n n'"
  by (auto simp: may_become_def)

lemma may_become_refl [simp]: "may_become n n"
  by (simp add: may_become_def role_kept_def)

lemma may_become_rules:
  assumes "may_become n n'"
  shows "nd_id n' = nd_id n" and "nd_peers n' = nd_peers n" and "currentTerm n \<le> currentTerm n'"
    and "nd_state n' \<noteq> Follower \<Longrightarrow> role_kept n n'"
    and "t \<le> currentTerm n \<Longrightarrow> t = currentTerm n' \<Longrightarrow> currentTerm n = t"
    and "currentTerm n' = currentTerm n \<Longrightarrow> nd_state n \<noteq> Candidate \<Longrightarrow> role_kept n n'"
  using assms by (auto simp: may_become_def role_kept_def stepped_down_def)

lemma inv_kept:
  assumes inv: "cluster_inv ids peers route s"
    and mb: "\<And>j. may_become (cl_nodes s j) (cl_nodes s' j)"
    and s': "cl_elections s' = cl_elections s" "\<And>k. cl_counted s k \<subseteq> cl_counted s' k"
      "cl_votereqs s' = cl_votereqs s" "granted s' = granted s" "cl_elected s' = cl_elected s"
    and ae: "\<And>j args. (j, args) \<in> cl_aereqs s' \<Longrightarrow> j \<in> set ids \<and> j \<noteq> ae_LeaderID args \<and>
           (ae_LeaderID args, ae_Term args) \<in> cl_elected s"
  shows "cluster_inv ids peers route s'"
proof (rule cluster_invI)
  note rules = may_become_rules [OF mb] and grant = inv_grant [OF inv]
  show "inv_nodes ids peers s'"
    unfolding inv_nodes_def
    using inv_node [OF inv] rules(1,2,4) by (auto simp: role_kept_def)
  show "inv_votes ids s'"
  proof (rule inv_votesI, unfold s'(3,4))
    fix j c t
    assume gr: "granted s j c t"
    show "j \<in> set ids \<and> c \<in> set ids \<and> j \<noteq> c \<and> t \<le> currentTerm (cl_nodes s' j)"
      by (intro conjI grant(1-3) [OF gr] order_trans [OF grant(4) [OF gr] rules(3)])
    assume t: "t = currentTerm (cl_nodes s' j)"
    show "votedFor (cl_nodes s' j) = c \<and> nd_state (cl_nodes s' j) = Follower"
      using grant(5) [OF gr] rules(5) [OF grant(4) [OF gr] t] rules(6) [of j] t
      by (simp add: role_kept_def)
  qed (rule inv_request [OF inv] inv_grant_unique [OF inv], assumption+)+
  show "inv_elections ids peers route s'"
    by (rule inv_elections_mono [OF inv rules(3) s'(2)]) (simp_all add: s')
  show "inv_elected ids s'"
    by (rule inv_elected_mono [OF inv rules(3) _ s'(5) _ _ _ ae])
      (use inv_elected_node(4) [OF inv] rules(4,6) in \<open>auto simp: s'(4) role_kept_def\<close>)
  show "inv_unique s'" by (rule inv_unique_same [OF inv s'(5)])
qed

lemma inv_init: "cluster_inv ids peers route (cluster_init peers)"
  by (simp add: cluster_inv_defs cluster_init_def granted_def raft_New_def raft_DefaultConfig_def)

lemma startElection_candidate:
  assumes "startElection n = (n', Some (el, args))"
  shows "nd_id n' = nd_id n" and "nd_peers n' = nd_peers n" and "currentTerm n' = currentTerm n + 1"
    and "votedFor n' = nd_id n" and "nd_state n' = Candidate"
    and "el_term el = currentTerm n + 1" and "el_votes el = 1" and "el_quorum el = electionQuorum (nd_peers n)"
    and "rv_CandidateID args = nd_id n"
  using assms by (auto simp: startElection_def Let_def split: if_splits)

lemma inv_start:
  assumes inv: "cluster_inv ids peers route s" and i: "i \<in> set ids"
    and no_wrap: "currentTerm (cl_nodes s i) \<noteq> - 1"
    and start: "startElection (cl_nodes s i) = (n, Some (el, args))"
    and s': "cl_nodes s' = (cl_nodes s)(i := n)"
      "cl_elections s' = (cl_elections s)((i, el_term el) := Some el)"
      "cl_counted s' = cl_counted s" "cl_votereqs s' = insert args (cl_votereqs s)"
      "cl_votereps s' = cl_votereps s" "cl_elected s' = cl_elected s" "cl_aereqs s' = cl_aereqs s"
  shows "cluster_inv ids peers route s'"
proof (rule cluster_invI)
  note g = granted_cong [OF s'(5)] and n = startElection_candidate [OF start]
  note grant = inv_grant [OF inv] and node = inv_node [OF inv i]
  have less: "currentTerm (cl_nodes s i) < currentTerm n"
    using no_wrap n(3) by (simp add: u64_less_Suc)
  have le: "currentTerm (cl_nodes s j) \<le> currentTerm (cl_nodes s' j)" for j
    using less by (simp add: s'(1) less_imp_le)
  show "inv_nodes ids peers s'"
    using inv_node [OF inv] n node by (simp add: inv_nodes_def s'(1))
  show "inv_votes ids s'"
  proof (rule inv_votesI, unfold g s'(4))
    fix j c t
    assume gr: "granted s j c t"
    show "j \<in> set ids \<and> c \<in> set ids \<and> j \<noteq> c \<and> t \<le> currentTerm (cl_nodes s' j)"
      by (intro conjI grant(1-3) [OF gr] order_trans [OF grant(4) [OF gr] le])
    assume "t = currentTerm (cl_nodes s' j)"
    with grant(4,5) [OF gr] less show "votedFor (cl_nodes s' j) = c \<and> nd_state (cl_nodes s' j) = Follower"
      by (auto simp: s'(1) split: if_splits)
  qed (use inv_request [OF inv] n(9) node(1) i inv_grant_unique [OF inv] in auto)
  have "election_ok peers route s' i (el_term el) el"
    unfolding election_ok_def using n(3,6-8) node(2)
    by (intro conjI exI [of _ "{}"]) (simp_all add: s'(1))
  then show "inv_elections ids peers route s'"
    by (intro inv_elections_mono [OF inv le]) (auto simp: g s'(2,3) split: if_splits)
  show "inv_elected ids s'"
  proof (rule inv_elected_mono [OF inv le _ s'(6)], unfold g s'(7))
    fix j
    assume "nd_state (cl_nodes s' j) = Leader"
    with n(5) show "nd_state (cl_nodes s j) = Leader \<and> currentTerm (cl_nodes s' j) = currentTerm (cl_nodes s j)"
      by (auto simp: s'(1) split: if_splits)
  next
    fix j
    assume "nd_state (cl_nodes s j) = Leader" and "currentTerm (cl_nodes s' j) = currentTerm (cl_nodes s j)"
    with less show "nd_state (cl_nodes s' j) = Leader"
      by (auto simp: s'(1) split: if_splits)
  qed (rule inv_elected_node(4) [OF inv] inv_append_entries [OF inv], assumption | assumption)+
  show "inv_unique s'" by (rule inv_unique_same [OF inv s'(6)])
qed

lemma HandleRequestVote_refused:
  "HandleRequestVote n args = (n', reply) \<Longrightarrow> \<not> rvr_VoteGranted reply \<Longrightarrow> may_become n n'"
  by (auto simp: HandleRequestVote_def may_become_def role_defs Let_def split: if_splits)

lemma HandleRequestVote_granted:
  assumes "HandleRequestVote n args = (n', reply)" and "rvr_VoteGranted reply"
  shows "nd_id n' = nd_id n" and "nd_peers n' = nd_peers n" and "currentTerm n \<le> currentTerm n'"
    and "currentTerm n' = rv_Term args" and "votedFor n' = rv_CandidateID args"
    and "currentTerm n < rv_Term args \<Longrightarrow> nd_state n' = Follower"
    and "currentTerm n = rv_Term args \<Longrightarrow> nd_state n' = nd_state n \<and>
           (votedFor n = '''' \<or> votedFor n = rv_CandidateID args)"
  using assms by (auto simp: HandleRequestVote_def role_defs Let_def split: if_splits)

text \<open>What a voter has done before it grants a vote.\<close>

lemma voter_before:
  assumes inv: "cluster_inv ids peers route s" and j: "j \<in> set ids" and c: "c \<in> set ids" "c \<noteq> j"
    and no_empty: "'''' \<notin> set ids"
    and handle: "HandleRequestVote (cl_nodes s j) args = (n, reply)" "rvr_VoteGranted reply"
      "rv_CandidateID args = c" "rv_Term args = t"
  shows "nd_state n = Follower" and "granted s j d t \<Longrightarrow> d = c" and "(j, t) \<notin> cl_elected s"
proof -
  note n = HandleRequestVote_granted [OF handle(1,2), unfolded handle(3,4)]
  note grant = inv_grant [OF inv] and elected = inv_elected_node [OF inv]
  show follower: "nd_state n = Follower"
  proof (cases "currentTerm (cl_nodes s j) = t")
    case True
    show ?thesis using n(7) [OF True] inv_node(3) [OF inv j] c no_empty j by metis
  next
    case False
    with n(3,4) show ?thesis by (intro n(6)) simp
  qed
  have same_term: "currentTerm (cl_nodes s j) = t" if "t \<le> currentTerm (cl_nodes s j)"
    using that n(3,4) by simp
  show "d = c" if "granted s j d t"
    using n(7) [OF same_term [OF grant(4) [OF that]]] grant(5) [OF that]
      same_term [OF grant(4) [OF that]] grant(2) [OF that] no_empty by auto
  show "(j, t) \<notin> cl_elected s"
    using elected(2,3) [of j t] same_term n(7) follower by fastforce
qed

lemma inv_vote:
  assumes inv: "cluster_inv ids peers route s" and j: "j \<in> set ids" and c: "c \<in> set ids" "c \<noteq> j"
    and no_empty: "'''' \<notin> set ids"
    and handle: "HandleRequestVote (cl_nodes s j) args = (n, reply)" "rvr_VoteGranted reply"
      "rv_CandidateID args = c" "rv_Term args = t"
    and s': "cl_nodes s' = (cl_nodes s)(j := n)" "cl_elections s' = cl_elections s"
      "cl_counted s' = cl_counted s" "cl_votereqs s' = cl_votereqs s"
      "cl_votereps s' = insert (j, c, t, reply) (cl_votereps s)"
      "cl_elected s' = cl_elected s" "cl_aereqs s' = cl_aereqs s"
  shows "cluster_inv ids peers route s'"
proof (rule cluster_invI)
  note n = HandleRequestVote_granted [OF handle(1,2), unfolded handle(3,4)]
  note grant = inv_grant [OF inv] and before = voter_before [OF inv j c no_empty handle]
  have g: "granted s' k d u \<longleftrightarrow> granted s k d u \<or> (k = j \<and> d = c \<and> u = t)" for k d u
    using handle(2) by (auto simp: granted_def s'(5))
  have le: "currentTerm (cl_nodes s k) \<le> currentTerm (cl_nodes s' k)" for k
    using n(3) by (simp add: s'(1))
  show "inv_nodes ids peers s'"
    using inv_node [OF inv] n(1,2) before(1) by (simp add: inv_nodes_def s'(1))
  show "inv_votes ids s'"
  proof (rule inv_votesI, unfold s'(4))
    fix k d u
    assume gr: "granted s' k d u"
    show "k \<in> set ids \<and> d \<in> set ids \<and> k \<noteq> d \<and> u \<le> currentTerm (cl_nodes s' k)"
      using gr unfolding g
      by (elim disjE) (use grant(1-3) order_trans [OF grant(4) le] in blast, use j c n(4) in \<open>simp add: s'(1)\<close>)
    assume u: "u = currentTerm (cl_nodes s' k)"
    show "votedFor (cl_nodes s' k) = d \<and> nd_state (cl_nodes s' k) = Follower"
    proof (cases "k = j")
      case True
      with u n(4) gr before(2) have "d = c" by (auto simp: s'(1) g)
      with True n(5) before(1) show ?thesis by (simp add: s'(1))
    next
      case False
      with gr u grant(5) show ?thesis by (auto simp: s'(1) g)
    qed
  qed (use inv_request [OF inv] inv_grant_unique [OF inv] before(2) in \<open>auto simp: g\<close>)
  show "inv_elections ids peers route s'"
    by (rule inv_elections_mono [OF inv le]) (auto simp: g s'(2,3))
  show "inv_elected ids s'"
    by (rule inv_elected_mono [OF inv le _ s'(6)])
      (use inv_elected_node(4) [OF inv] inv_append_entries [OF inv] before(1,3) n(4)
        in \<open>auto simp: g s'(1,7) split: if_splits\<close>)
  show "inv_unique s'" by (rule inv_unique_same [OF inv s'(6)])
qed

text \<open>Counting a granted vote of a peer that was not counted before.\<close>

lemma inv_count:
  assumes inv: "cluster_inv ids peers route s" and i: "i \<in> set ids"
    and el: "cl_elections s (i, t) = Some el" and p: "p \<in> set (peers i)" "p \<notin> cl_counted s (i, t)"
    and gr: "granted s (route p) i t"
    and el': "el_term el' = el_term el" "el_quorum el' = el_quorum el" "el_votes el' = el_votes el + 1"
    and s': "cl_nodes s' = cl_nodes s" "cl_elections s' = (cl_elections s)((i, t) := Some el')"
      "cl_counted s' = (cl_counted s)((i, t) := insert p (cl_counted s (i, t)))"
      "cl_votereqs s' = cl_votereqs s" "cl_votereps s' = cl_votereps s"
      "cl_elected s' = cl_elected s" "cl_aereqs s' = cl_aereqs s"
  shows "cluster_inv ids peers route s'"
proof (rule cluster_invI)
  note g = granted_cong [OF s'(5)] and ok = inv_election [OF inv i el]
  obtain S where S: "S \<subseteq> set (peers i) \<inter> cl_counted s (i, t)" "el_votes el = 1 + int (card S)"
      "\<forall>p \<in> S. granted s (route p) i t"
    using ok unfolding election_ok_def by blast
  have "p \<notin> S" and "finite S"
    using S(1) p(2) by (auto intro: finite_subset)
  then have "el_votes el' = 1 + int (card (insert p S))"
    using S(2) el'(3) by simp
  moreover have "insert p S \<subseteq> set (peers i) \<inter> cl_counted s' (i, t)"
    using S(1) p(1) by (auto simp: s'(3))
  moreover have "\<forall>q \<in> insert p S. granted s' (route q) i t"
    using S(3) gr by (simp add: g)
  ultimately have "election_ok peers route s' i t el'"
    using ok el'(1,2) unfolding election_ok_def s'(1) by (intro conjI exI [of _ "insert p S"]) simp_all
  then show "inv_elections ids peers route s'"
    by (intro inv_elections_mono [OF inv]) (auto simp: g s'(1-3) split: if_splits)
qed (insert inv, unfold cluster_inv_def inv_nodes_def inv_votes_def inv_elected_def inv_unique_def
  s' granted_cong [OF s'(5)], (elim conjE, (intro conjI)?, assumption+)+)

text \<open>Enough counted votes are a quorum of the cluster.\<close>

lemma config_peers:
  assumes "cluster_config ids peers route" and "i \<in> set ids"
  shows "inj_on route (set (peers i))" and "route ` set (peers i) = set ids - {i}"
    and "length ids = length (peers i) + 1"
proof -
  show r: "route ` set (peers i) = set ids - {i}" and "inj_on route (set (peers i))"
    using assms by (auto simp: cluster_config_def distinct_map)
  have "length (peers i) = card (route ` set (peers i))"
    using assms distinct_card [of "map route (peers i)"] by (simp add: cluster_config_def)
  also have "\<dots> = length ids - 1"
    using assms by (simp add: r cluster_config_def distinct_card)
  finally show "length ids = length (peers i) + 1"
    using assms(2) by (cases ids) auto
qed

lemma election_quorum:
  assumes config: "cluster_config ids peers route" and i: "i \<in> set ids"
    and ok: "election_ok peers route s i t el" and enough: "el_quorum el \<le> el_votes el"
  shows "\<exists>Q. vote_quorum ids Q \<and> (\<forall>j \<in> Q. j = i \<or> granted s j i t)"
proof -
  note peers = config_peers [OF config i]
  obtain S where S: "S \<subseteq> set (peers i)" "el_votes el = 1 + int (card S)" "\<forall>p \<in> S. granted s (route p) i t"
    using ok unfolding election_ok_def by blast
  have "route ` S \<subseteq> set ids - {i}"
    using S(1) peers(2) by blast
  moreover have "card (route ` S) = card S"
    using S(1) peers(1) by (intro card_image) (rule inj_on_subset)
  ultimately have "insert i (route ` S) \<subseteq> set ids" and "card (insert i (route ` S)) = 1 + card S"
    using i S(1) by (auto simp: card_insert_if finite_subset)
  moreover have "el_quorum el = int (length ids) div 2 + 1"
    using ok peers(3) by (simp add: election_ok_def electionQuorum_def add.commute)
  ultimately have "vote_quorum ids (insert i (route ` S))"
    using S(2) enough by (simp add: vote_quorum_def)
  with S(3) show ?thesis by (intro exI [of _ "insert i (route ` S)"]) auto
qed

text \<open>A candidate that has a quorum of votes has no rival in its term.\<close>

lemma no_rival:
  assumes inv: "cluster_inv ids peers route s"
    and quorum: "vote_quorum ids R" "\<forall>k \<in> R. k = i \<or> granted s k i t"
    and cand: "nd_state (cl_nodes s i) = Candidate" "currentTerm (cl_nodes s i) = t"
    and rival: "(j, t) \<in> cl_elected s"
  shows "j = i"
proof -
  obtain Q where Q: "vote_quorum ids Q" "\<forall>k \<in> Q. k = j \<or> granted s k j t"
    using inv_elected_node(5) [OF inv rival] by blast
  obtain k where k: "k = j \<or> granted s k j t" "k = i \<or> granted s k i t"
    using votes.intersect [OF Q(1) quorum(1)] Q(2) quorum(2) by blast
  have "\<not> granted s i j t"
    using candidate_no_grant [OF inv cand(1)] cand(2) by simp
  moreover have "\<not> granted s j i t"
    by (rule inv_elected_node(4) [OF inv rival])
  ultimately show ?thesis
    using k inv_grant_unique [OF inv, of k j t i] by auto
qed

lemma inv_win:
  assumes inv: "cluster_inv ids peers route s" and config: "cluster_config ids peers route" and i: "i \<in> set ids"
    and el: "cl_elections s (i, t) = Some el" "el_quorum el \<le> el_votes el"
    and cand: "nd_state (cl_nodes s i) = Candidate" "currentTerm (cl_nodes s i) = t"
    and el': "el_term el' = el_term el" "el_quorum el' = el_quorum el" "el_votes el' = el_votes el"
    and s': "cl_nodes s' = (cl_nodes s)(i := becomeLeader (cl_nodes s i))"
      "cl_elections s' = (cl_elections s)((i, t) := Some el')" "cl_counted s' = cl_counted s"
      "cl_votereqs s' = cl_votereqs s" "cl_votereps s' = cl_votereps s"
      "cl_elected s' = insert (i, t) (cl_elected s)" "cl_aereqs s' = cl_aereqs s"
  shows "cluster_inv ids peers route s'"
proof (rule cluster_invI)
  note g = granted_cong [OF s'(5)] and n = becomeLeader_role [OF cand(1)]
  note grant = inv_grant [OF inv] and elected = inv_elected_node [OF inv]
  obtain Q where Q: "vote_quorum ids Q" "\<forall>k \<in> Q. k = i \<or> granted s k i t"
    using election_quorum [OF config i inv_election [OF inv i el(1)] el(2)] by blast
  note sole = no_rival [OF inv Q cand]
  have no_grant: "\<not> granted s i c t" for c
    using candidate_no_grant [OF inv cand(1)] cand(2) by simp
  have terms: "currentTerm (cl_nodes s' j) = currentTerm (cl_nodes s j)"
    "j \<noteq> i \<Longrightarrow> cl_nodes s' j = cl_nodes s j" for j
    using n by (simp_all add: s'(1))
  show "inv_nodes ids peers s'"
    using inv_node [OF inv] cand n by (auto simp: inv_nodes_def s'(1))
  show "inv_votes ids s'"
  proof (rule inv_votesI, unfold g s'(4) terms)
    fix j c u
    assume gr: "granted s j c u" and "u = currentTerm (cl_nodes s j)"
    with no_grant cand(2) have "j \<noteq> i" by auto
    with grant(5) [OF gr] \<open>u = _\<close> terms(2)
    show "votedFor (cl_nodes s' j) = c \<and> nd_state (cl_nodes s' j) = Follower" by simp
  qed (use inv_request [OF inv] inv_grant_unique [OF inv] grant(1-4) in auto)
  have "election_ok peers route s' i t el'"
    using inv_election [OF inv i el(1)] el' by (simp add: election_ok_def g s'(3) terms(1))
  then show "inv_elections ids peers route s'"
    by (intro inv_elections_mono [OF inv]) (auto simp: g s'(2,3) terms(1) split: if_splits)
  show "inv_elected ids s'"
  proof (rule inv_electedI, unfold g s'(6,7) terms(1))
    fix j u
    assume "(j, u) \<in> insert (i, t) (cl_elected s)" and "u = currentTerm (cl_nodes s j)"
    then show "nd_state (cl_nodes s' j) = Leader"
      using elected(3) n by (auto simp: s'(1))
  next
    fix j
    assume "j \<in> set ids" and "nd_state (cl_nodes s' j) = Leader"
    then show "(j, currentTerm (cl_nodes s j)) \<in> insert (i, t) (cl_elected s)"
      using inv_leader [OF inv] cand(2) by (cases "j = i") (auto simp: s'(1))
  next
    fix j u
    assume "(j, u) \<in> insert (i, t) (cl_elected s)"
    then show "\<exists>Q. vote_quorum ids Q \<and> (\<forall>k \<in> Q. k = j \<or> granted s k j u)"
      using elected(5) Q by auto
  qed (use elected(1,2,4) inv_append_entries [OF inv] no_grant i cand(2) in auto)
  show "inv_unique s'"
    unfolding inv_unique_def s'(6) by (metis Pair_inject insertE sole inv_one_elected [OF inv])
qed

section \<open>Election safety\<close>

lemma handleVoteReply_cases:
  assumes "handleVoteReply el n reply = (el', n')"
  obtains (ignored) "el' = el" "may_become n n'" "nd_state n' \<noteq> Leader \<or> n' = n"
  | (counted) "rvr_VoteGranted reply" "el' = el\<lparr>el_votes := el_votes el + 1\<rparr>" "n' = n"
      "nd_state n = Candidate" "currentTerm n = el_term el"
  | (won) "rvr_VoteGranted reply" "el' = el\<lparr>el_votes := el_votes el + 1, el_once := True\<rparr>" "n' = becomeLeader n"
      "nd_state n = Candidate" "currentTerm n = el_term el" "el_quorum el \<le> el_votes el + 1"
  using assms unfolding handleVoteReply_def
  by (auto simp: Let_def may_become_def role_defs split: if_splits)

lemma inv_vote_reply:
  assumes inv: "cluster_inv ids peers route s" and config: "cluster_config ids peers route" and i: "i \<in> set ids"
    and reply: "(route p, i, t, reply) \<in> cl_votereps s" and p: "p \<in> set (peers i)" "p \<notin> cl_counted s (i, t)"
    and el: "cl_elections s (i, t) = Some el" and handle: "handleVoteReply el (cl_nodes s i) reply = (el', n)"
  shows "cluster_inv ids peers route
    ((elect_node i t el' n s)\<lparr>cl_counted := (cl_counted s)((i, t) := insert p (cl_counted s (i, t)))\<rparr>)"
    (is "cluster_inv _ _ _ ?s'")
proof -
  have el_term: "el_term el = t"
    using inv_election [OF inv i el] by (simp add: election_ok_def)
  have count: "cluster_inv ids peers route (s\<lparr>cl_elections := (cl_elections s)((i, t) := Some e),
      cl_counted := (cl_counted s)((i, t) := insert p (cl_counted s (i, t)))\<rparr>)"
    if "rvr_VoteGranted reply" and "el_term e = el_term el" "el_quorum e = el_quorum el" "el_votes e = el_votes el + 1" for e
    using reply that by (intro inv_count [OF inv i el p _ that(2-4)]) (auto simp: granted_def)
  from handle show ?thesis
  proof (cases rule: handleVoteReply_cases)
    case ignored
    have "cl_elections ?s' = cl_elections s"
      using ignored(1) el by (auto simp: elect_node_def)
    with ignored show ?thesis
      by (intro inv_kept [OF inv])
        (auto simp: elect_node_def set_node_def granted_def fun_eq_iff dest: inv_append_entries [OF inv])
  next
    case counted
    with count [of el'] show ?thesis by (simp add: elect_node_def set_node_def)
  next
    case won
    have "nd_state n = Leader" and "currentTerm n = t"
      using becomeLeader_role [OF won(4)] won(3,5) el_term by auto
    then show ?thesis
      by (intro inv_win [where el = el' and el' = el', OF count [of el'] config i])
        (simp_all add: elect_node_def set_node_def won el_term)
  qed
qed

lemma inv_single_win:
  assumes inv: "cluster_inv ids peers route s" and config: "cluster_config ids peers route" and i: "i \<in> set ids"
    and el: "cl_elections s (i, t) = Some el" and win: "singleNodeWin el (cl_nodes s i) = (el', n)"
  shows "cluster_inv ids peers route (elect_node i t el' n s)"
proof (cases "(el', n) = (el, cl_nodes s i)")
  case True
  then have "elect_node i t el' n s = s"
    using map_upd_triv [of "cl_elections s" "(i, t)" el] el by (auto simp: elect_node_def set_node_def)
  with inv show ?thesis by simp
next
  case False
  with win have win: "el_quorum el \<le> el_votes el" "nd_state (cl_nodes s i) = Candidate"
      "currentTerm (cl_nodes s i) = el_term el" "el' = el\<lparr>el_once := True\<rparr>" "n = becomeLeader (cl_nodes s i)"
    by (auto simp: singleNodeWin_def split: if_splits)
  have "el_term el = t"
    using inv_election [OF inv i el] by (simp add: election_ok_def)
  with win becomeLeader_role [OF win(2)] show ?thesis
    by (intro inv_win [OF inv config i el]) (auto simp: elect_node_def set_node_def)
qed

lemma inv_set_node:
  assumes "cluster_inv ids peers route s" and "may_become (cl_nodes s i) n"
  shows "cluster_inv ids peers route (set_node i n s)"
  by (rule inv_kept [OF assms(1)])
    (use assms(2) inv_append_entries [OF assms(1)] in \<open>auto simp: set_node_def granted_def fun_eq_iff\<close>)

lemma cluster_inv_messages:
  "cluster_inv ids peers route (s\<lparr>cl_aereps := x\<rparr>) = cluster_inv ids peers route s"
  "cluster_inv ids peers route (s\<lparr>cl_isreqs := y\<rparr>) = cluster_inv ids peers route s"
  "cluster_inv ids peers route (s\<lparr>cl_isreps := z\<rparr>) = cluster_inv ids peers route s"
  by (simp_all add: cluster_inv_defs election_ok_def granted_def)

lemma inv_request_vote:
  assumes inv: "cluster_inv ids peers route s" and config: "cluster_config ids peers route"
    and req: "args \<in> cl_votereqs s" "p \<in> set (nd_peers (cl_nodes s (rv_CandidateID args)))" "route p = j"
    and handle: "HandleRequestVote (cl_nodes s j) args = (n, reply)"
  shows "cluster_inv ids peers route
    ((set_node j n s)\<lparr>cl_votereps := insert (j, rv_CandidateID args, rv_Term args, reply) (cl_votereps s)\<rparr>)"
proof -
  have c: "rv_CandidateID args \<in> set ids" by (rule inv_request [OF inv req(1)])
  have "p \<in> set (peers (rv_CandidateID args))"
    using req(2) inv_node(2) [OF inv c] by simp
  then have j: "j \<in> set ids" "rv_CandidateID args \<noteq> j"
    using config_peers(2) [OF config c] req(3) by auto
  show ?thesis
  proof (cases "rvr_VoteGranted reply")
    case True
    have "'''' \<notin> set ids" using config by (simp add: cluster_config_def)
    from inv_vote [OF inv j(1) c j(2) this handle True refl refl] show ?thesis
      by (simp add: set_node_def)
  next
    case False
    with HandleRequestVote_refused [OF handle] inv_append_entries [OF inv] show ?thesis
      by (intro inv_kept [OF inv]) (auto simp: set_node_def granted_def fun_eq_iff)
  qed
qed

lemma HandleAppendEntries_may_become:
  assumes inv: "cluster_inv ids peers route s" and ae: "(j, args) \<in> cl_aereqs s"
    and handle: "HandleAppendEntries (cl_nodes s j) args = (n, reply)"
  shows "may_become (cl_nodes s j) n"
proof -
  note m = inv_append_entries [OF inv ae]
  have "nd_state (cl_nodes s j) \<noteq> Leader" if "ae_Term args = currentTerm (cl_nodes s j)"
  proof
    assume "nd_state (cl_nodes s j) = Leader"
    with inv_leader [OF inv] m that have "(j, ae_Term args) \<in> cl_elected s" by simp
    with inv_one_elected [OF inv this] m show False by blast
  qed
  with HandleAppendEntries_role [of "cl_nodes s j" args] handle show ?thesis
    by (cases "nd_state (cl_nodes s j)") (auto simp: may_become_def)
qed

lemma inv_append_send:
  assumes inv: "cluster_inv ids peers route s" and config: "cluster_config ids peers route" and i: "i \<in> set ids"
    and p: "p \<in> set (nd_peers (cl_nodes s i))" and send: "replicateTo_send (cl_nodes s i) p = SendEntries args"
  shows "cluster_inv ids peers route (s\<lparr>cl_aereqs := insert (route p, args) (cl_aereqs s)\<rparr>)"
proof (rule inv_kept [OF inv])
  have m: "nd_state (cl_nodes s i) = Leader" "ae_LeaderID args = i" "ae_Term args = currentTerm (cl_nodes s i)"
    using send inv_node(1) [OF inv i]
    by (auto simp: replicateTo_send_def Let_def split: if_splits sum.splits)
  have "route p \<in> set ids - {i}"
    using config_peers(2) [OF config i] p inv_node(2) [OF inv i] by auto
  then show "j \<in> set ids \<and> j \<noteq> ae_LeaderID a \<and> (ae_LeaderID a, ae_Term a) \<in> cl_elected s"
    if "(j, a) \<in> cl_aereqs (s\<lparr>cl_aereqs := insert (route p, args) (cl_aereqs s)\<rparr>)" for j a
    using that m inv_leader [OF inv i m(1)] inv_append_entries [OF inv] by auto
qed (simp_all add: granted_def fun_eq_iff)

lemma inv_step:
  assumes "cluster_step ids route s s'" and config: "cluster_config ids peers route"
    and inv: "cluster_inv ids peers route s"
  shows "cluster_inv ids peers route s'"
  using assms(1)
proof cases
  case (election_timeout i n el args)
  then show ?thesis by (intro inv_start [OF inv]) (auto simp: set_node_def)
next
  case (single_node_win i t el el' n)
  then show ?thesis by (simp add: inv_single_win [OF inv config])
next
  case (deliver_vote_request args p j n reply)
  then show ?thesis by (simp add: inv_request_vote [OF inv config])
next
  case (vote_reply i j t reply p el el' n)
  then show ?thesis by (simp add: inv_vote_reply [OF inv config] inv_node(2) [OF inv])
next
  case (client_propose i command n res)
  then show ?thesis
    using Propose_role [of "cl_nodes s i" command] by (simp add: inv_set_node [OF inv] may_become_def)
next
  case (replicate_send i p j args)
  then show ?thesis using inv_append_send [OF inv config] by auto
next
  case (deliver_append_entries j args n reply)
  then show ?thesis
    by (simp add: cluster_inv_messages inv_set_node [OF inv] HandleAppendEntries_may_become [OF inv])
next
  case (append_entries_reply i j args reply p)
  then show ?thesis
    by (simp add: inv_set_node [OF inv may_becomeI [OF replicateTo_reply_role]])
next
  case (snapshot_send i p j args)
  then show ?thesis using inv by (simp add: cluster_inv_messages)
next
  case (deliver_install_snapshot j args n reply)
  then show ?thesis
    using inv_set_node [OF inv may_becomeI [OF HandleInstallSnapshot_role [of "cl_nodes s j" args]]]
    by (simp add: cluster_inv_messages)
next
  case (install_snapshot_reply i j args reply p)
  then show ?thesis
    by (simp add: inv_set_node [OF inv may_becomeI [OF sendSnapshot_reply_role]])
next
  case (take_snapshot i data n res)
  then show ?thesis
    using TakeSnapshot_role [of "cl_nodes s i" data] by (simp add: inv_set_node [OF inv] may_become_def)
next
  case (apply_committed i stop n sent)
  then show ?thesis
    using applyCommitted_role [of "cl_nodes s i" stop] by (simp add: inv_set_node [OF inv] may_become_def)
qed

lemma reachable_inv:
  "reachable ids peers route s \<Longrightarrow> cluster_config ids peers route \<Longrightarrow> cluster_inv ids peers route s"
  by (induction rule: reachable.induct) (rule inv_init, rule inv_step)

lemma elected_recorded: "cluster_step ids route s s' \<Longrightarrow> cl_elected s \<subseteq> cl_elected s'"
  by (erule cluster_step.cases) (simp_all add: set_node_def elect_node_def subset_insertI)

lemma reachable_later:
  assumes "(cluster_step ids route)\<^sup>*\<^sup>* s s'" and "reachable ids peers route s"
  shows "reachable ids peers route s' \<and> cl_elected s \<subseteq> cl_elected s'"
  using assms(1)
proof (induction rule: rtranclp_induct)
  case (step u v)
  then show ?case using reach_step elected_recorded [OF step.hyps(2)] by (meson order_trans)
qed (simp add: assms(2))

text \<open>
  C1: Election safety. However the steps of the nodes and the delivery of messages interleave,
  a term has at most one leader: a node that is leader of a term in some reachable state and a
  node that is leader of the same term then or at any later time are the same node. The
  configuration hypothesis says that the IDs are distinct and not empty, and that the peer list
  of a node names every other node once.
\<close>
theorem election_safety:
  assumes "cluster_config ids peers route" and "reachable ids peers route s"
    and "(cluster_step ids route)\<^sup>*\<^sup>* s s'" and "i \<in> set ids" and "j \<in> set ids"
    and "nd_state (cl_nodes s i) = Leader" and "nd_state (cl_nodes s' j) = Leader"
    and "currentTerm (cl_nodes s i) = currentTerm (cl_nodes s' j)"
  shows "i = j"
proof -
  have later: "reachable ids peers route s'" "cl_elected s \<subseteq> cl_elected s'"
    using reachable_later [OF assms(3,2)] by simp_all
  have "(i, currentTerm (cl_nodes s i)) \<in> cl_elected s"
    by (rule inv_leader [OF reachable_inv [OF assms(2,1)] assms(4,6)])
  with later(2) assms(8) have "(i, currentTerm (cl_nodes s' j)) \<in> cl_elected s'" by auto
  with inv_one_elected [OF reachable_inv [OF later(1) assms(1)]]
    inv_leader [OF reachable_inv [OF later(1) assms(1)] assms(5,7)]
  show ?thesis by blast
qed

text \<open>
  Three nodes: \<open>a\<close> times out, \<open>b\<close> grants its vote, \<open>a\<close> counts it and leads term 1.
\<close>

definition ids3 :: "string list" where
  "ids3 = [''a'', ''b'', ''c'']"

definition peers3 :: "string \<Rightarrow> string list" where
  "peers3 i = filter (\<lambda>j. j \<noteq> i) ids3"

lemma config3: "cluster_config ids3 peers3 id"
  by (auto simp: cluster_config_def ids3_def peers3_def)

lemma leader3_reachable:
  "\<exists>s. reachable ids3 peers3 id s \<and> nd_state (cl_nodes s ''a'') = Leader \<and> currentTerm (cl_nodes s ''a'') = 1"
proof -
  let ?s0 = "cluster_init peers3"
  let ?st = "startElection (cl_nodes ?s0 ''a'')"
  define n el args where defs: "n = fst ?st" "el = fst (the (snd ?st))" "args = snd (the (snd ?st))"
  have start: "startElection (cl_nodes ?s0 ''a'') = (n, Some (el, args))"
    and n: "nd_state n = Candidate" "currentTerm n = 1" "nd_peers n = [''b'', ''c'']"
    and el: "el_term el = 1" "el_votes el = 1" "el_quorum el = 2" "el_once el = False"
    and args: "rv_CandidateID args = ''a''" "rv_Term args = 1" "rv_LastLogIndex args = 0" "rv_LastLogTerm args = 0"
    by (simp_all add: defs startElection_def cluster_init_def raft_New_def raft_DefaultConfig_def peers3_def ids3_def
        electionQuorum_def newRaftLog_def lastIndex_def lastTerm_def Let_def)
  define s1 where "s1 = (set_node ''a'' n ?s0)\<lparr>cl_elections := (cl_elections ?s0)((''a'', el_term el) := Some el),
                         cl_votereqs := insert args (cl_votereqs ?s0)\<rparr>"
  have "cluster_step ids3 id ?s0 s1"
    unfolding s1_def
    by (rule election_timeout) (use start in \<open>auto simp: ids3_def cluster_init_def raft_New_def\<close>)
  then have r1: "reachable ids3 peers3 id s1" by (rule reach_step [OF reach_init])
  have handle: "HandleRequestVote (cl_nodes s1 ''b'') args =
      (signalElectionReset ((becomeFollower (cl_nodes s1 ''b'') 1)\<lparr>votedFor := ''a''\<rparr>),
       \<lparr>rvr_Term = 1, rvr_VoteGranted = True\<rparr>)"
    by (simp add: s1_def set_node_def cluster_init_def raft_New_def raft_DefaultConfig_def HandleRequestVote_def
        args becomeFollower_def logUpToDate_def newRaftLog_def lastIndex_def lastTerm_def)
  define s2 where "s2 = (set_node ''b'' (signalElectionReset ((becomeFollower (cl_nodes s1 ''b'') 1)\<lparr>votedFor := ''a''\<rparr>)) s1)
    \<lparr>cl_votereps := {(''b'', ''a'', 1, \<lparr>rvr_Term = 1, rvr_VoteGranted = True\<rparr>)}\<rparr>"
  have "cluster_step ids3 id s1 s2"
    using deliver_vote_request [of args s1 "''b''" id "''b''", OF _ _ _ handle]
    by (simp add: s2_def s1_def set_node_def args n cluster_init_def)
  then have r2: "reachable ids3 peers3 id s2" by (rule reach_step [OF r1])
  have a: "cl_nodes s2 ''a'' = n" and e: "cl_elections s2 (''a'', 1) = Some el"
    by (simp_all add: s2_def s1_def set_node_def el)
  have handle: "handleVoteReply el n \<lparr>rvr_Term = 1, rvr_VoteGranted = True\<rparr> =
      (el\<lparr>el_votes := 2, el_once := True\<rparr>, becomeLeader n)"
    by (simp add: handleVoteReply_def n el)
  let ?s3 = "(elect_node ''a'' 1 (el\<lparr>el_votes := 2, el_once := True\<rparr>) (becomeLeader n) s2)
    \<lparr>cl_counted := (cl_counted s2)((''a'', 1) := insert ''b'' (cl_counted s2 (''a'', 1)))\<rparr>"
  have "cluster_step ids3 id s2 ?s3"
    by (rule vote_reply [of "''a''" _ "''b''" 1 "\<lparr>rvr_Term = 1, rvr_VoteGranted = True\<rparr>" _ "''b''", OF _ _ _ _ _ e])
      (simp_all add: a handle n, simp_all add: s2_def s1_def set_node_def cluster_init_def ids3_def)
  then have "reachable ids3 peers3 id ?s3" by (rule reach_step [OF r2])
  moreover have "cl_nodes ?s3 ''a'' = becomeLeader n"
    by (simp add: elect_node_def set_node_def)
  ultimately show ?thesis
    using becomeLeader_role [OF n(1)] n(2) by (intro exI [of _ ?s3]) simp
qed

theorem election_safety_witness:
  "\<exists>s. reachable ids3 peers3 id s \<and> nd_state (cl_nodes s ''a'') = Leader \<and>
     \<not> (nd_state (cl_nodes s ''b'') = Leader \<and> currentTerm (cl_nodes s ''b'') = currentTerm (cl_nodes s ''a''))"
proof -
  obtain s where s: "reachable ids3 peers3 id s" "nd_state (cl_nodes s ''a'') = Leader"
    using leader3_reachable by blast
  with election_safety [OF config3 s(1) rtranclp.rtrancl_refl, of "''a''" "''b''"]
  show ?thesis by (auto simp: ids3_def)
qed

end
