(* ===== verification/Raft_Abstract.thy ===== *)
theory Raft_Abstract
  imports Raft_Cluster "HOL-Library.Sublist"
begin

text \<open>
  What Raft promises, without messages and bookkeeping: nodes have a log and a term, a term has at most one
  leading log that only grows, nodes vote for candidates whose log is up to date, and nodes take over and
  acknowledge prefixes of a leading log. An entry of a term that a quorum has acknowledged in that term is in
  the leading log of every later term. The theory Raft_Safety shows that the cluster of the node code refines
  this system.
\<close>

section \<open>The abstract system\<close>

record raft_abs =
  a_log :: "string \<Rightarrow> Entry list"
  a_term :: "string \<Rightarrow> u64"
  a_lead :: "u64 \<Rightarrow> Entry list option"
  a_cand :: "string \<times> u64 \<Rightarrow> Entry list option"
  a_votes :: "(string \<times> string \<times> u64) set"
  a_acks :: "(string \<times> u64 \<times> nat) set"

definition tlog :: "raft_abs \<Rightarrow> u64 \<Rightarrow> Entry list" where
  "tlog a t = (case a_lead a t of None \<Rightarrow> [] | Some X \<Rightarrow> X)"

definition last_term :: "Entry list \<Rightarrow> u64" where
  "last_term xs = (if xs = [] then 0 else e_Term (last xs))"

definition up_to_date :: "Entry list \<Rightarrow> Entry list \<Rightarrow> bool" where
  "up_to_date D xs \<longleftrightarrow> last_term xs < last_term D \<or> last_term xs = last_term D \<and> length xs \<le> length D"

inductive abs_step :: "(string set \<Rightarrow> bool) \<Rightarrow> raft_abs \<Rightarrow> raft_abs \<Rightarrow> bool" for quorum where
  bump: "a_term a j \<le> t \<Longrightarrow> abs_step quorum a (a\<lparr>a_term := (a_term a)(j := t)\<rparr>)"
| stand: "a_term a c < u \<Longrightarrow> abs_step quorum a (a\<lparr>a_term := (a_term a)(c := u), a_cand := (a_cand a)((c, u) \<mapsto> a_log a c)\<rparr>)"
| vote: "a_cand a (c, u) = Some D \<Longrightarrow> a_term a j \<le> u \<Longrightarrow> up_to_date D (a_log a j) \<Longrightarrow>
    abs_step quorum a (a\<lparr>a_term := (a_term a)(j := u), a_votes := insert (j, c, u) (a_votes a)\<rparr>)"
| win: "a_cand a (c, u) = Some D \<Longrightarrow> a_lead a u = None \<Longrightarrow> a_log a c = D \<Longrightarrow> a_term a c = u \<Longrightarrow> 0 < u \<Longrightarrow> quorum R \<Longrightarrow>
    \<forall>j \<in> R. j = c \<or> (j, c, u) \<in> a_votes a \<Longrightarrow> abs_step quorum a (a\<lparr>a_lead := (a_lead a)(u \<mapsto> D)\<rparr>)"
| extend: "a_lead a t = Some X \<Longrightarrow> a_term a i = t \<Longrightarrow> a_log a i = X \<Longrightarrow> e_Term e = t \<Longrightarrow>
    abs_step quorum a (a\<lparr>a_lead := (a_lead a)(t \<mapsto> X @ [e]), a_log := (a_log a)(i := X @ [e]),
      a_acks := insert (i, t, Suc (length X)) (a_acks a)\<rparr>)"
| accept: "a_lead a v = Some X \<Longrightarrow> a_term a j \<le> v \<Longrightarrow> m \<le> length X \<Longrightarrow> prefix (take m X) xs \<Longrightarrow>
    xs = a_log a j \<or> xs = take m X \<Longrightarrow> \<forall>zs. prefix zs (a_log a j) \<and> prefix zs X \<longrightarrow> prefix zs xs \<Longrightarrow>
    abs_step quorum a (a\<lparr>a_term := (a_term a)(j := v), a_log := (a_log a)(j := xs), a_acks := insert (j, v, m) (a_acks a)\<rparr>)"

section \<open>The invariant\<close>

text \<open>Every prefix of a log that ends with an entry of term \<open>t\<close> is a prefix of the leading log of \<open>t\<close>.\<close>

definition on_track :: "raft_abs \<Rightarrow> Entry list \<Rightarrow> bool" where
  "on_track a xs \<longleftrightarrow> (\<forall>k < length xs. a_lead a (e_Term (xs ! k)) \<noteq> None \<and> prefix (take (Suc k) xs) (tlog a (e_Term (xs ! k))))"

definition good_log :: "raft_abs \<Rightarrow> u64 \<Rightarrow> Entry list \<Rightarrow> bool" where
  "good_log a t xs \<longleftrightarrow> on_track a xs \<and> sorted (map e_Term xs) \<and> (\<forall>e \<in> set xs. e_Term e \<le> t)"

definition inv_logs :: "raft_abs \<Rightarrow> bool" where
  "inv_logs a \<longleftrightarrow> (\<forall>j. good_log a (a_term a j) (a_log a j)) \<and>
     (\<forall>t X. a_lead a t = Some X \<longrightarrow> 0 < t \<and> good_log a t X) \<and>
     (\<forall>c u D. a_cand a (c, u) = Some D \<longrightarrow> u \<le> a_term a c \<and> good_log a u D \<and> (\<forall>e \<in> set D. e_Term e < u)) \<and>
     (\<forall>j t m. (j, t, m) \<in> a_acks a \<longrightarrow> a_lead a t \<noteq> None \<and> m \<le> length (tlog a t) \<and> t \<le> a_term a j)"

text \<open>
  \<open>acked a j t k\<close>: node \<open>j\<close> has acknowledged, in term \<open>t\<close>, the first \<open>k\<close> entries, the last of them of term
  \<open>t\<close>. \<open>lost a t k V\<close>: a leader of a term in \<open>V\<close>, later than \<open>t\<close>, does not have these entries.
\<close>

definition entry_of :: "raft_abs \<Rightarrow> u64 \<Rightarrow> nat \<Rightarrow> bool" where
  "entry_of a t k \<longleftrightarrow> 0 < k \<and> k \<le> length (tlog a t) \<and> e_Term (tlog a t ! (k - 1)) = t"

definition acked :: "raft_abs \<Rightarrow> string \<Rightarrow> u64 \<Rightarrow> nat \<Rightarrow> bool" where
  "acked a j t k \<longleftrightarrow> entry_of a t k \<and> (\<exists>m \<ge> k. (j, t, m) \<in> a_acks a)"

definition lost :: "raft_abs \<Rightarrow> u64 \<Rightarrow> nat \<Rightarrow> u64 set \<Rightarrow> bool" where
  "lost a t k V \<longleftrightarrow> (\<exists>v \<in> V. t < v \<and> a_lead a v \<noteq> None \<and> \<not> prefix (take k (tlog a t)) (tlog a v))"

definition keeps :: "raft_abs \<Rightarrow> string \<Rightarrow> u64 set \<Rightarrow> Entry list \<Rightarrow> bool" where
  "keeps a j V xs \<longleftrightarrow> (\<forall>t k. acked a j t k \<and> t \<in> V \<longrightarrow> prefix (take k (tlog a t)) xs \<or> lost a t k V)"

definition inv_acks :: "raft_abs \<Rightarrow> bool" where
  "inv_acks a \<longleftrightarrow> (\<forall>j. keeps a j {..a_term a j} (a_log a j))"

definition inv_ballots :: "raft_abs \<Rightarrow> bool" where
  "inv_ballots a \<longleftrightarrow> (\<forall>j c u. (j, c, u) \<in> a_votes a \<longrightarrow>
     u \<le> a_term a j \<and> (a_lead a u = None \<longrightarrow> (\<exists>D. a_cand a (c, u) = Some D \<and> keeps a j {..<u} D)))"

definition inv_leads :: "(string set \<Rightarrow> bool) \<Rightarrow> raft_abs \<Rightarrow> bool" where
  "inv_leads quorum a \<longleftrightarrow> (\<forall>u X. a_lead a u = Some X \<longrightarrow>
     (\<exists>R. quorum R \<and> (\<forall>j \<in> R. u \<le> a_term a j \<and> keeps a j {..<u} X)))"

definition abs_inv :: "(string set \<Rightarrow> bool) \<Rightarrow> raft_abs \<Rightarrow> bool" where
  "abs_inv quorum a \<longleftrightarrow> inv_logs a \<and> inv_acks a \<and> inv_ballots a \<and> inv_leads quorum a"

definition abs_init :: raft_abs where
  "abs_init = \<lparr>a_log = (\<lambda>_. []), a_term = (\<lambda>_. 0), a_lead = (\<lambda>_. None), a_cand = (\<lambda>_. None), a_votes = {}, a_acks = {}\<rparr>"

lemma abs_inv_init: "abs_inv quorum abs_init"
  by (simp add: abs_inv_def inv_logs_def inv_acks_def inv_ballots_def inv_leads_def good_log_def on_track_def keeps_def acked_def abs_init_def)

section \<open>Growth\<close>

text \<open>Leading logs grow by entries of their own term; terms, votes and acknowledgements only grow.\<close>

definition grows :: "raft_abs \<Rightarrow> raft_abs \<Rightarrow> bool" where
  "grows a a' \<longleftrightarrow> (\<forall>t X. a_lead a t = Some X \<longrightarrow> (\<exists>ys. a_lead a' t = Some (X @ ys) \<and> (\<forall>e \<in> set ys. e_Term e = t))) \<and>
     (\<forall>j. a_term a j \<le> a_term a' j) \<and> a_acks a \<subseteq> a_acks a'"

lemma grows_refl [simp]: "grows a a"
  by (simp add: grows_def)

lemma grows_trans: 
  assumes "grows a b" and "grows b c"
  shows "grows a c"
  unfolding grows_def
proof (intro conjI allI impI)
  fix t X assume "a_lead a t = Some X"
  then obtain ys zs where "a_lead b t = Some (X @ ys)" "\<forall>e \<in> set ys. e_Term e = t"
    "a_lead c t = Some ((X @ ys) @ zs)" "\<forall>e \<in> set zs. e_Term e = t"
    using assms unfolding grows_def by metis
  then show "\<exists>ys. a_lead c t = Some (X @ ys) \<and> (\<forall>e \<in> set ys. e_Term e = t)" by (intro exI [of _ "ys @ zs"]) auto
qed (use assms in \<open>auto simp: grows_def intro: order_trans\<close>)

lemma abs_step_grows: "abs_step quorum a a' \<Longrightarrow> grows a a'"
  by (erule abs_step.cases) (auto simp: grows_def)

lemma grows_Some:
  assumes "grows a a'" and "a_lead a t = Some X"
  obtains ys where "a_lead a' t = Some (X @ ys)" "\<forall>e \<in> set ys. e_Term e = t"
  using assms unfolding grows_def by blast

lemma grows_lead: "grows a a' \<Longrightarrow> a_lead a t \<noteq> None \<Longrightarrow> a_lead a' t \<noteq> None"
  by (metis grows_Some option.distinct(1) option.exhaust)

lemma grows_tlog:
  assumes "grows a a'" and "a_lead a t \<noteq> None"
  obtains ys where "tlog a' t = tlog a t @ ys" "\<forall>e \<in> set ys. e_Term e = t"
proof -
  obtain X where "a_lead a t = Some X" using assms(2) by blast
  with assms(1) that show thesis by (auto simp: tlog_def elim: grows_Some)
qed

lemma grows_tlog_extends:
  assumes "grows a a'"
  obtains ys where "tlog a' t = tlog a t @ ys"
proof (cases "a_lead a t")
  case None
  then have "tlog a' t = tlog a t @ tlog a' t" by (simp add: tlog_def)
  then show thesis by (rule that)
next
  case (Some X)
  then show thesis using grows_tlog [OF assms, of t] that by auto
qed

lemma grows_take: "grows a a' \<Longrightarrow> k \<le> length (tlog a t) \<Longrightarrow> take k (tlog a' t) = take k (tlog a t)"
  by (metis append_Nil2 diff_is_0_eq grows_tlog_extends take_0 take_append)

lemma grows_prefix: "grows a a' \<Longrightarrow> prefix xs (tlog a t) \<Longrightarrow> prefix xs (tlog a' t)"
  by (metis grows_tlog_extends prefix_prefix)

lemma grows_entry_of:
  assumes "grows a a'" and "entry_of a t k"
  shows "entry_of a' t k"
proof -
  obtain ys where "tlog a' t = tlog a t @ ys" using grows_tlog_extends [OF assms(1)] .
  with assms(2) show ?thesis by (auto simp: entry_of_def nth_append)
qed

lemma grows_acked: "grows a a' \<Longrightarrow> acked a j t k \<Longrightarrow> acked a' j t k"
  using grows_entry_of by (fastforce simp: acked_def grows_def)

lemma grows_on_track: "grows a a' \<Longrightarrow> on_track a xs \<Longrightarrow> on_track a' xs"
  using grows_lead grows_prefix unfolding on_track_def by blast

lemma good_log_mono: "grows a a' \<Longrightarrow> good_log a t xs \<Longrightarrow> t \<le> t' \<Longrightarrow> good_log a' t' xs"
  using grows_on_track unfolding good_log_def by (meson order_trans)

lemma last_take_entry: "entry_of a t k \<Longrightarrow> take k (tlog a t) \<noteq> [] \<and> e_Term (last (take k (tlog a t))) = t"
  by (cases k) (auto simp: entry_of_def take_Suc_conv_app_nth)

lemma grows_lost:
  assumes "grows a a'" and e: "entry_of a t k" and "lost a t k V"
  shows "lost a' t k V"
proof -
  obtain v where v: "v \<in> V" "t < v" "a_lead a v \<noteq> None" "\<not> prefix (take k (tlog a t)) (tlog a v)"
    using assms(3) by (auto simp: lost_def)
  obtain ys where ys: "tlog a' v = tlog a v @ ys" "\<forall>e \<in> set ys. e_Term e = v" using grows_tlog [OF assms(1) v(3)] .
  have "\<not> prefix (take k (tlog a t)) (tlog a v @ ys)"
  proof
    assume "prefix (take k (tlog a t)) (tlog a v @ ys)"
    with v(4) obtain us where us: "take k (tlog a t) = tlog a v @ us" "prefix us ys" by (auto simp: prefix_append)
    with v(4) have "us \<noteq> []" by auto
    then have "last (take k (tlog a t)) \<in> set ys" using us by (metis last_appendR last_in_set set_mono_prefix subsetD)
    then show False using ys(2) last_take_entry [OF e] v(2) by auto
  qed
  moreover have "take k (tlog a' t) = take k (tlog a t)" using grows_take [OF assms(1)] e by (simp add: entry_of_def)
  ultimately show ?thesis using v(1,2) grows_lead [OF assms(1) v(3)] ys(1) unfolding lost_def by metis
qed

lemma lost_mono: "lost a t k V \<Longrightarrow> V \<subseteq> W \<Longrightarrow> lost a t k W"
  by (auto simp: lost_def)

text \<open>Acknowledgements that were there before a step, when the terms in \<open>V\<close> have no new ones from this node.\<close>

lemma keeps_grows:
  assumes "grows a a'" and old: "\<And>t k. acked a' j t k \<Longrightarrow> t \<in> V \<Longrightarrow> acked a j t k \<or> prefix (take k (tlog a' t)) ys"
    and "keeps a j V xs" and "prefix xs ys"
  shows "keeps a' j V ys"
  unfolding keeps_def
proof (intro allI impI, elim conjE)
  fix t k assume ack: "acked a' j t k" "t \<in> V"
  show "prefix (take k (tlog a' t)) ys \<or> lost a' t k V"
  proof (cases "acked a j t k")
    case False
    then show ?thesis using old [OF ack] by blast
  next
    case k: True
    then have "entry_of a t k" by (simp add: acked_def)
    then have "take k (tlog a' t) = take k (tlog a t)" using grows_take [OF assms(1)] by (simp add: entry_of_def)
    then show ?thesis
      using assms(3,4) k \<open>t \<in> V\<close> grows_lost [OF assms(1) \<open>entry_of a t k\<close>] unfolding keeps_def by (metis prefix_order.trans)
  qed
qed

lemma acked_old:
  assumes "inv_logs a" and "grows a a'" and "acked a' j t k" and "\<And>m. (j, t, m) \<in> a_acks a' \<Longrightarrow> m \<ge> k \<Longrightarrow> (j, t, m) \<in> a_acks a"
  shows "acked a j t k"
proof -
  obtain m where m: "m \<ge> k" "(j, t, m) \<in> a_acks a" using assms(3,4) by (auto simp: acked_def)
  then have "m \<le> length (tlog a t)" "a_lead a t \<noteq> None" using assms(1) by (auto simp: inv_logs_def)
  moreover from this obtain ys where "tlog a' t = tlog a t @ ys" using grows_tlog [OF assms(2)] by metis
  ultimately have "entry_of a t k" using assms(3) m(1) by (auto simp: acked_def entry_of_def nth_append split: if_splits)
  with m show ?thesis by (auto simp: acked_def)
qed

section \<open>Preservation\<close>

lemma inv_logsD:
  assumes "inv_logs a"
  shows "good_log a (a_term a j) (a_log a j)" and "a_lead a t = Some X \<Longrightarrow> 0 < t \<and> good_log a t X"
    and "a_cand a (c, u) = Some D \<Longrightarrow> u \<le> a_term a c \<and> good_log a u D \<and> (\<forall>e \<in> set D. e_Term e < u)"
    and "(j, t, m) \<in> a_acks a \<Longrightarrow> a_lead a t \<noteq> None \<and> m \<le> length (tlog a t) \<and> t \<le> a_term a j"
  using assms by (auto simp: inv_logs_def)

lemma inv_logsI:
  assumes "\<And>j. good_log a (a_term a j) (a_log a j)" and "\<And>t X. a_lead a t = Some X \<Longrightarrow> 0 < t \<and> good_log a t X"
    and "\<And>c u D. a_cand a (c, u) = Some D \<Longrightarrow> u \<le> a_term a c \<and> good_log a u D \<and> (\<forall>e \<in> set D. e_Term e < u)"
    and "\<And>j t m. (j, t, m) \<in> a_acks a \<Longrightarrow> a_lead a t \<noteq> None \<and> m \<le> length (tlog a t) \<and> t \<le> a_term a j"
  shows "inv_logs a"
  using assms by (simp add: inv_logs_def)

lemma acked_term: "inv_logs a \<Longrightarrow> acked a j t k \<Longrightarrow> t \<le> a_term a j"
  by (auto simp: acked_def dest: inv_logsD(4))

lemma on_track_last:
  assumes "on_track a D" and "D \<noteq> []"
  shows "a_lead a (last_term D) \<noteq> None \<and> prefix D (tlog a (last_term D))"
  using assms spec [OF assms(1) [unfolded on_track_def], of "length D - 1"] by (simp add: last_term_def last_conv_nth)

lemma acked_lead:
  assumes "inv_logs a" and "acked a j t k"
  shows "a_lead a t \<noteq> None \<and> 0 < t \<and> good_log a t (tlog a t)"
proof -
  obtain m where "(j, t, m) \<in> a_acks a" using assms(2) by (auto simp: acked_def)
  then obtain X where "a_lead a t = Some X" using inv_logsD(4) [OF assms(1)] by blast
  then show ?thesis using inv_logsD(2) [OF assms(1)] by (simp add: tlog_def)
qed

text \<open>A step whose new acknowledgements are not of terms earlier than the node's keeps votes and leaders justified.\<close>

definition fresh_acks :: "raft_abs \<Rightarrow> raft_abs \<Rightarrow> bool" where
  "fresh_acks a a' \<longleftrightarrow> (\<forall>j t m. (j, t, m) \<in> a_acks a' \<and> (j, t, m) \<notin> a_acks a \<longrightarrow> a_term a j \<le> t)"

lemma keeps_earlier:
  assumes "inv_logs a" and "grows a a'" and "fresh_acks a a'" and "u \<le> a_term a j" and "keeps a j {..<u} xs" and "prefix xs ys"
  shows "keeps a' j {..<u} ys"
proof (rule keeps_grows [OF assms(2) _ assms(5,6)])
  fix t k assume k: "acked a' j t k" and t: "t \<in> {..<u}"
  have "(j, t, m) \<in> a_acks a" if "(j, t, m) \<in> a_acks a'" for m
    using that assms(3,4) t unfolding fresh_acks_def by force
  then show "acked a j t k \<or> prefix (take k (tlog a' t)) ys" by (intro disjI1 acked_old [OF assms(1,2) k])
qed

lemma ballots_step:
  assumes inv: "abs_inv quorum a" and step: "grows a a'" "fresh_acks a a'"
    and cand: "\<And>c u D. a_cand a (c, u) = Some D \<Longrightarrow> a_cand a' (c, u) = Some D"
    and new: "\<And>j c u. (j, c, u) \<in> a_votes a' \<Longrightarrow> (j, c, u) \<notin> a_votes a \<Longrightarrow>
      u \<le> a_term a' j \<and> (a_lead a' u = None \<longrightarrow> (\<exists>D. a_cand a' (c, u) = Some D \<and> keeps a' j {..<u} D))"
  shows "inv_ballots a'"
  unfolding inv_ballots_def
proof (intro allI impI)
  fix j c u assume v: "(j, c, u) \<in> a_votes a'"
  show "u \<le> a_term a' j \<and> (a_lead a' u = None \<longrightarrow> (\<exists>D. a_cand a' (c, u) = Some D \<and> keeps a' j {..<u} D))"
  proof (cases "(j, c, u) \<in> a_votes a")
    case True
    have logs: "inv_logs a" using inv by (simp add: abs_inv_def)
    have old: "u \<le> a_term a j" "a_lead a u = None \<Longrightarrow> \<exists>D. a_cand a (c, u) = Some D \<and> keeps a j {..<u} D"
      using inv True unfolding abs_inv_def inv_ballots_def by blast+
    have "a_term a j \<le> a_term a' j" using step(1) by (simp add: grows_def)
    moreover have "\<exists>D. a_cand a' (c, u) = Some D \<and> keeps a' j {..<u} D" if "a_lead a' u = None"
      using old(2) that grows_lead [OF step(1)] cand keeps_earlier [OF logs step old(1) _ prefix_order.refl] by blast
    ultimately show ?thesis using old(1) by (meson order_trans)
  qed (use new v in blast)
qed

lemma leads_step:
  assumes inv: "abs_inv quorum a" and step: "grows a a'" "fresh_acks a a'"
    and new: "\<And>u X. a_lead a' u = Some X \<Longrightarrow> a_lead a u = None \<Longrightarrow> \<exists>R. quorum R \<and> (\<forall>j \<in> R. u \<le> a_term a' j \<and> keeps a' j {..<u} X)"
  shows "inv_leads quorum a'"
  unfolding inv_leads_def
proof (intro allI impI)
  fix u X' assume X': "a_lead a' u = Some X'"
  show "\<exists>R. quorum R \<and> (\<forall>j \<in> R. u \<le> a_term a' j \<and> keeps a' j {..<u} X')"
  proof (cases "a_lead a u")
    case (Some X)
    have logs: "inv_logs a" using inv by (simp add: abs_inv_def)
    obtain R where R: "quorum R" "\<And>j. j \<in> R \<Longrightarrow> u \<le> a_term a j" "\<And>j. j \<in> R \<Longrightarrow> keeps a j {..<u} X"
      using inv Some unfolding abs_inv_def inv_leads_def by blast
    have "prefix X X'" using grows_Some [OF step(1) Some] X' by fastforce
    then have "keeps a' j {..<u} X'" if "j \<in> R" for j using keeps_earlier [OF logs step R(2,3)] that by blast
    moreover have "u \<le> a_term a' j" if "j \<in> R" for j using R(2) [OF that] step(1) unfolding grows_def by (meson order_trans)
    ultimately show ?thesis using R(1) by blast
  qed (use new X' in blast)
qed

lemma acks_step:
  assumes inv: "abs_inv quorum a" and step: "grows a a'"
    and logs: "prefix (a_log a j) (a_log a' j)" and same: "\<And>t m. (j, t, m) \<in> a_acks a' \<Longrightarrow> (j, t, m) \<in> a_acks a"
  shows "keeps a' j {..a_term a' j} (a_log a' j)"
proof (rule keeps_grows [OF step _ _ logs])
  have il: "inv_logs a" using inv by (simp add: abs_inv_def)
  show "acked a j t k \<or> prefix (take k (tlog a' t)) (a_log a' j)" if "acked a' j t k" for t k
    using acked_old [OF il step that] same by blast
  have "keeps a j {..a_term a j} (a_log a j)" using inv by (simp add: abs_inv_def inv_acks_def)
  moreover have "{..a_term a j} \<subseteq> {..a_term a' j}" using step by (simp add: grows_def)
  ultimately show "keeps a j {..a_term a' j} (a_log a j)"
    using acked_term [OF il] lost_mono unfolding keeps_def by (metis atMost_iff)
qed

lemma logs_step:
  assumes inv: "inv_logs a" and g: "grows a a'"
    and log: "\<And>j. a_log a' j = a_log a j \<or> good_log a' (a_term a' j) (a_log a' j)"
    and lead: "\<And>t X. a_lead a' t = Some X \<Longrightarrow> a_lead a t = Some X \<or> 0 < t \<and> good_log a' t X"
    and cand: "\<And>c u D. a_cand a' (c, u) = Some D \<Longrightarrow> a_cand a (c, u) = Some D \<or>
      u \<le> a_term a' c \<and> good_log a' u D \<and> (\<forall>e \<in> set D. e_Term e < u)"
    and acks: "\<And>j t m. (j, t, m) \<in> a_acks a' \<Longrightarrow> (j, t, m) \<in> a_acks a \<or> a_lead a' t \<noteq> None \<and> m \<le> length (tlog a' t) \<and> t \<le> a_term a' j"
  shows "inv_logs a'"
proof (rule inv_logsI)
  note il = inv_logsD [OF inv]
  have le: "a_term a j \<le> a_term a' j" for j using g by (simp add: grows_def)
  show "good_log a' (a_term a' j) (a_log a' j)" for j
    using log [of j] good_log_mono [OF g il(1) le] by auto
  show "0 < t \<and> good_log a' t X" if "a_lead a' t = Some X" for t X
    using lead [OF that] il(2) good_log_mono [OF g _ order_refl] by blast
  show "u \<le> a_term a' c \<and> good_log a' u D \<and> (\<forall>e \<in> set D. e_Term e < u)" if "a_cand a' (c, u) = Some D" for c u D
  proof (cases "a_cand a (c, u) = Some D")
    case True
    from il(3) [OF this] have "u \<le> a_term a c" "good_log a u D" "\<forall>e \<in> set D. e_Term e < u" by blast+
    then show ?thesis using order_trans [OF _ le] good_log_mono [OF g _ order_refl] by blast
  qed (use cand [OF that] in blast)
  show "a_lead a' t \<noteq> None \<and> m \<le> length (tlog a' t) \<and> t \<le> a_term a' j" if "(j, t, m) \<in> a_acks a'" for j t m
  proof (cases "(j, t, m) \<in> a_acks a")
    case True
    from il(4) [OF this] have old: "a_lead a t \<noteq> None" "m \<le> length (tlog a t)" "t \<le> a_term a j" by blast+
    obtain ys where "tlog a' t = tlog a t @ ys" using grows_tlog_extends [OF g] .
    then show ?thesis using old grows_lead [OF g old(1)] order_trans [OF old(3) le] by simp
  qed (use acks [OF that] in blast)
qed

lemma inv_bump:
  assumes inv: "abs_inv quorum a" and "a_term a j \<le> t"
  shows "abs_inv quorum (a\<lparr>a_term := (a_term a)(j := t)\<rparr>)" (is "abs_inv _ ?a'")
  unfolding abs_inv_def
proof (intro conjI)
  have g: "grows a ?a'" using abs_step_grows [OF abs_step.bump [OF assms(2)]] .
  have f: "fresh_acks a ?a'" by (simp add: fresh_acks_def)
  show "inv_logs ?a'" using inv by (intro logs_step [OF _ g]) (simp_all add: abs_inv_def)
  show "inv_acks ?a'" unfolding inv_acks_def by (intro allI acks_step [OF inv g]) simp_all
  show "inv_ballots ?a'" by (rule ballots_step [OF inv g f]) simp_all
  show "inv_leads quorum ?a'" by (rule leads_step [OF inv g f]) simp_all
qed

lemma inv_stand:
  assumes inv: "abs_inv quorum a" and u: "a_term a c < u"
  shows "abs_inv quorum (a\<lparr>a_term := (a_term a)(c := u), a_cand := (a_cand a)((c, u) \<mapsto> a_log a c)\<rparr>)" (is "abs_inv _ ?a'")
  unfolding abs_inv_def
proof (intro conjI)
  have g: "grows a ?a'" using abs_step_grows [OF abs_step.stand [OF u]] .
  have f: "fresh_acks a ?a'" by (simp add: fresh_acks_def)
  have logs: "inv_logs a" using inv by (simp add: abs_inv_def)
  have none: "a_cand a (c, u) = None" using inv_logsD(3) [OF logs, of c u] u by (cases "a_cand a (c, u)") auto
  have D: "good_log a (a_term a c) (a_log a c)" using inv_logsD(1) [OF logs] .
  have "good_log ?a' u (a_log a c)" using good_log_mono [OF g D] u by simp
  moreover have "\<forall>e \<in> set (a_log a c). e_Term e < u" using D u by (auto simp: good_log_def)
  ultimately show "inv_logs ?a'" by (intro logs_step [OF logs g]) (auto split: if_splits)
  show "inv_acks ?a'" unfolding inv_acks_def by (intro allI acks_step [OF inv g]) simp_all
  show "inv_ballots ?a'" by (rule ballots_step [OF inv g f]) (auto simp: none)
  show "inv_leads quorum ?a'" by (rule leads_step [OF inv g f]) simp_all
qed

text \<open>A candidate whose log is up to date has what its voter has acknowledged, unless a leader in between lacks it.\<close>

lemma voter_keeps:
  assumes inv: "inv_logs a" and D: "a_cand a (c, u) = Some D" and up: "up_to_date D (a_log a j)" and "a_lead a u = None"
    and keep: "keeps a j {..a_term a j} (a_log a j)" and "a_term a j \<le> u"
  shows "keeps a j {..<u} D"
  unfolding keeps_def
proof (intro allI impI, elim conjE)
  fix t k assume ack: "acked a j t k" and "t \<in> {..<u}"
  let ?Z = "take k (tlog a t)" and ?xs = "a_log a j"
  have e: "entry_of a t k" using ack by (simp add: acked_def)
  note Z = last_take_entry [OF e]
  have t: "t \<le> a_term a j" "0 < t" "good_log a t (tlog a t)" using acked_term [OF inv ack] acked_lead [OF inv ack] by simp_all
  show "prefix ?Z D \<or> lost a t k {..<u}"
  proof (cases "lost a t k {..a_term a j}")
    case True
    then obtain v where "v \<le> a_term a j" "t < v" "a_lead a v \<noteq> None" "\<not> prefix ?Z (tlog a v)" by (auto simp: lost_def)
    moreover have "v < u" using calculation assms(4,6) by (metis order_le_less order_trans)
    ultimately show ?thesis by (auto simp: lost_def)
  next
    case False
    then have "prefix ?Z ?xs" using keep ack t(1) by (auto simp: keeps_def)
    then obtain ys where xs: "?xs = ?Z @ ys" by (auto simp: prefix_def)
    have "sorted (map e_Term ?xs)" using inv_logsD(1) [OF inv] by (simp add: good_log_def)
    moreover obtain z where "z \<in> set ?Z" "e_Term z = t" using Z by (metis last_in_set)
    ultimately have last: "t \<le> last_term ?xs" using xs Z by (cases ys rule: rev_cases) (auto simp: last_term_def sorted_append)
    then have "t \<le> last_term D" using up by (auto simp: up_to_date_def)
    then have "D \<noteq> []" using t(2) by (auto simp: last_term_def)
    then have v: "last_term D = e_Term (last D)" "last D \<in> set D" by (simp_all add: last_term_def)
    have cand: "on_track a D" "last_term D < u" using inv_logsD(3) [OF inv D] v by (auto simp: good_log_def)
    have "a_lead a (last_term D) \<noteq> None \<and> prefix D (tlog a (last_term D))"
      using on_track_last [OF cand(1) \<open>D \<noteq> []\<close>] .
    then have lead: "a_lead a (last_term D) \<noteq> None" "prefix D (tlog a (last_term D))" by blast+
    show ?thesis
    proof (cases "last_term D = t")
      case True
      then have "length ?xs \<le> length D" using up last by (auto simp: up_to_date_def)
      then have "length ?Z \<le> length D" using xs by (metis length_append le_add1 order_trans)
      then show ?thesis using lead(2) True by (metis prefix_length_prefix take_is_prefix)
    next
      case False
      then have later: "t < last_term D" using \<open>t \<le> last_term D\<close> by simp
      show ?thesis
      proof (cases "prefix ?Z (tlog a (last_term D))")
        case True
        have "\<not> prefix D ?Z"
        proof
          assume "prefix D ?Z"
          then have "last D \<in> set (tlog a t)" using v(2) by (meson in_set_takeD set_mono_prefix subsetD)
          then show False using t(3) later v(1) by (auto simp: good_log_def)
        qed
        then show ?thesis using prefix_same_cases [OF True lead(2)] by blast
      qed (use later cand(2) lead(1) in \<open>auto simp: lost_def\<close>)
    qed
  qed
qed

lemma inv_cast:
  assumes inv: "abs_inv quorum a" and D: "a_cand a (c, u) = Some D" and le: "a_term a j \<le> u" and up: "up_to_date D (a_log a j)"
  shows "abs_inv quorum (a\<lparr>a_term := (a_term a)(j := u), a_votes := insert (j, c, u) (a_votes a)\<rparr>)" (is "abs_inv _ ?a'")
  unfolding abs_inv_def
proof (intro conjI)
  have g: "grows a ?a'" using abs_step_grows [OF abs_step.vote [OF D le up]] .
  have f: "fresh_acks a ?a'" by (simp add: fresh_acks_def)
  have logs: "inv_logs a" and acks: "keeps a j {..a_term a j} (a_log a j)" using inv by (auto simp: abs_inv_def inv_acks_def)
  show "inv_logs ?a'" by (intro logs_step [OF logs g]) simp_all
  show "inv_acks ?a'" unfolding inv_acks_def by (intro allI acks_step [OF inv g]) simp_all
  show "inv_ballots ?a'"
  proof (rule ballots_step [OF inv g f])
    fix i d v assume "(i, d, v) \<in> a_votes ?a'" "(i, d, v) \<notin> a_votes a"
    then have v: "i = j" "d = c" "v = u" by auto
    have "keeps ?a' j {..<u} D" if "a_lead a u = None"
    proof (rule keeps_grows [OF g _ voter_keeps [OF logs D up that acks le] prefix_order.refl])
      show "acked a j t k \<or> prefix (take k (tlog ?a' t)) D" if "acked ?a' j t k" for t k using acked_old [OF logs g that] by simp
    qed
    then show "v \<le> a_term ?a' i \<and> (a_lead ?a' v = None \<longrightarrow> (\<exists>D. a_cand ?a' (d, v) = Some D \<and> keeps ?a' i {..<v} D))" using v D by simp
  qed simp_all
  show "inv_leads quorum ?a'" by (rule leads_step [OF inv g f]) simp_all
qed

lemma inv_lead:
  assumes inv: "abs_inv quorum a" and D: "a_cand a (c, u) = Some D" and none: "a_lead a u = None" and c: "a_log a c = D" "a_term a c = u" "0 < u"
    and R: "quorum R" "\<forall>j \<in> R. j = c \<or> (j, c, u) \<in> a_votes a"
  shows "abs_inv quorum (a\<lparr>a_lead := (a_lead a)(u \<mapsto> D)\<rparr>)" (is "abs_inv _ ?a'")
  unfolding abs_inv_def
proof (intro conjI)
  have g: "grows a ?a'" using none by (auto simp: grows_def)
  have f: "fresh_acks a ?a'" by (simp add: fresh_acks_def)
  have logs: "inv_logs a" and acks: "inv_acks a" and ballots: "inv_ballots a" using inv by (auto simp: abs_inv_def)
  have "good_log ?a' u D" using inv_logsD(3) [OF logs D] good_log_mono [OF g _ order_refl] by blast
  then show "inv_logs ?a'" using c(3) by (intro logs_step [OF logs g]) (auto split: if_splits)
  show "inv_acks ?a'" unfolding inv_acks_def by (intro allI acks_step [OF inv g]) simp_all
  show "inv_ballots ?a'" by (rule ballots_step [OF inv g f]) simp_all
  show "inv_leads quorum ?a'"
  proof (rule leads_step [OF inv g f])
    fix v X assume "a_lead ?a' v = Some X" "a_lead a v = None"
    then have v: "v = u" "X = D" by (auto split: if_splits)
    have "u \<le> a_term a j \<and> keeps a j {..<u} D" if "j \<in> R" for j
    proof (cases "j = c")
      case True
      have "lost a t k {..<u}" if "lost a t k {..u}" for t k
        using that none unfolding lost_def by (metis atMost_iff lessThan_iff order_le_less)
      then show ?thesis using acks c True unfolding inv_acks_def keeps_def by (metis atMost_iff lessThan_iff less_imp_le order_refl)
    next
      case False
      then have "(j, c, u) \<in> a_votes a" using R(2) that by blast
      then show ?thesis using ballots none D unfolding inv_ballots_def by (metis option.inject)
    qed
    then have "u \<le> a_term ?a' j \<and> keeps ?a' j {..<u} D" if "j \<in> R" for j
      using that keeps_earlier [OF logs g f _ _ prefix_order.refl] by simp
    then show "\<exists>R. quorum R \<and> (\<forall>j \<in> R. v \<le> a_term ?a' j \<and> keeps ?a' j {..<v} X)" using R(1) v by blast
  qed
qed

lemma inv_extend:
  assumes inv: "abs_inv quorum a" and X: "a_lead a t = Some X" and i: "a_term a i = t" "a_log a i = X" and e: "e_Term e = t"
  shows "abs_inv quorum (a\<lparr>a_lead := (a_lead a)(t \<mapsto> X @ [e]), a_log := (a_log a)(i := X @ [e]), a_acks := insert (i, t, Suc (length X)) (a_acks a)\<rparr>)"
    (is "abs_inv _ ?a'")
  unfolding abs_inv_def
proof (intro conjI)
  have g: "grows a ?a'" using abs_step_grows [OF abs_step.extend [OF X i e]] .
  have f: "fresh_acks a ?a'" using i(1) by (auto simp: fresh_acks_def)
  have logs: "inv_logs a" using inv by (simp add: abs_inv_def)
  have tl: "tlog ?a' t = X @ [e]" by (simp add: tlog_def)
  have old: "0 < t" "good_log ?a' t X" using inv_logsD(2) [OF logs X] good_log_mono [OF g _ order_refl] by blast+
  have "on_track ?a' (X @ [e])"
    unfolding on_track_def
  proof (intro allI impI)
    fix k assume "k < length (X @ [e])"
    then consider "k < length X" | "k = length X" by force
    then show "a_lead ?a' (e_Term ((X @ [e]) ! k)) \<noteq> None \<and> prefix (take (Suc k) (X @ [e])) (tlog ?a' (e_Term ((X @ [e]) ! k)))"
    proof cases
      case 1
      then show ?thesis using old(2) unfolding good_log_def on_track_def by (simp add: nth_append)
    qed (simp add: e tl)
  qed
  then have new: "good_log ?a' t (X @ [e])" using old(2) e by (auto simp: good_log_def sorted_append)
  show "inv_logs ?a'" by (rule logs_step [OF logs g]) (use new old(1) i tl in \<open>auto split: if_splits\<close>)
  show "inv_acks ?a'"
    unfolding inv_acks_def
  proof
    fix j
    show "keeps ?a' j {..a_term ?a' j} (a_log ?a' j)"
    proof (cases "j = i")
      case True
      have "acked a i w k \<or> prefix (take k (tlog ?a' w)) (X @ [e])" if "acked ?a' i w k" for w k
      proof (cases "w = t")
        case True
        then show ?thesis unfolding True tl using take_is_prefix by blast
      next
        case False
        then show ?thesis using acked_old [OF logs g that] by simp
      qed
      moreover have "keeps a i {..t} X" using inv i unfolding abs_inv_def inv_acks_def by metis
      ultimately have "keeps ?a' i {..t} (X @ [e])" by (intro keeps_grows [OF g]) auto
      with True i show ?thesis by simp
    qed (intro acks_step [OF inv g], auto)
  qed
  show "inv_ballots ?a'" by (rule ballots_step [OF inv g f]) simp_all
  show "inv_leads quorum ?a'" by (rule leads_step [OF inv g f]) (use X in \<open>auto split: if_splits\<close>)
qed

lemma inv_accept:
  assumes inv: "abs_inv quorum a" and X: "a_lead a v = Some X" and le: "a_term a j \<le> v" and m: "m \<le> length X" and xs: "prefix (take m X) xs"
    "xs = a_log a j \<or> xs = take m X" "\<forall>zs. prefix zs (a_log a j) \<and> prefix zs X \<longrightarrow> prefix zs xs"
  shows "abs_inv quorum (a\<lparr>a_term := (a_term a)(j := v), a_log := (a_log a)(j := xs), a_acks := insert (j, v, m) (a_acks a)\<rparr>)" (is "abs_inv _ ?a'")
  unfolding abs_inv_def
proof (intro conjI)
  have g: "grows a ?a'" using abs_step_grows [OF abs_step.accept [OF X le m xs]] .
  have f: "fresh_acks a ?a'" using le by (auto simp: fresh_acks_def)
  have logs: "inv_logs a" using inv by (simp add: abs_inv_def)
  have tl: "tlog ?a' = tlog a" "tlog a v = X" using X by (simp_all add: fun_eq_iff tlog_def)
  have "good_log a v X" using inv_logsD(2) [OF logs X] by blast
  then have "good_log a v (take m X)"
    unfolding good_log_def on_track_def by (auto simp: sorted_wrt_take min_def simp flip: take_map dest: in_set_takeD)
  moreover have "good_log a v (a_log a j)" using good_log_mono [OF grows_refl inv_logsD(1) [OF logs] le] .
  ultimately have "good_log ?a' v xs" using xs(2) good_log_mono [OF g _ order_refl] by blast
  then show "inv_logs ?a'" by (intro logs_step [OF logs g]) (use m X tl in auto)
  show "inv_acks ?a'"
    unfolding inv_acks_def
  proof
    fix i
    show "keeps ?a' i {..a_term ?a' i} (a_log ?a' i)"
    proof (cases "i = j")
      case True
      have "prefix (take k (tlog a t)) xs \<or> lost a t k {..v}" if ack: "acked ?a' j t k" for t k
      proof (cases "acked a j t k")
        case k: True
        then have t: "t \<le> a_term a j" using acked_term [OF logs] by blast
        have "prefix (take k (tlog a t)) (a_log a j) \<or> lost a t k {..a_term a j}"
          using inv k t unfolding abs_inv_def inv_acks_def keeps_def by blast
        then show ?thesis
        proof
          assume Z: "prefix (take k (tlog a t)) (a_log a j)"
          show ?thesis
          proof (cases "prefix (take k (tlog a t)) X")
            case False
            then have "t \<noteq> v" using tl(2) by (auto simp: take_is_prefix)
            then have "t < v" using t le by simp
            then show ?thesis using False X tl(2) by (auto simp: lost_def)
          qed (use Z xs(3) in blast)
        qed (use lost_mono le in auto)
      next
        case False
        then have "\<exists>n \<ge> k. (j, t, n) \<in> a_acks ?a' \<and> (j, t, n) \<notin> a_acks a" using acked_old [OF logs g ack] by blast
        then have "t = v" "k \<le> m" by auto
        then show ?thesis using xs(1) tl(2) by (metis prefix_order.trans take_is_prefix min.absorb1 take_take)
      qed
      moreover have "lost ?a' t k V = lost a t k V" for t k V by (simp add: lost_def tl(1))
      ultimately have "keeps ?a' j {..v} xs" by (simp add: keeps_def tl(1))
      with True show ?thesis by simp
    qed (intro acks_step [OF inv g], auto)
  qed
  show "inv_ballots ?a'" by (rule ballots_step [OF inv g f]) simp_all
  show "inv_leads quorum ?a'" by (rule leads_step [OF inv g f]) simp_all
qed

lemma abs_step_inv: "abs_step quorum a a' \<Longrightarrow> abs_inv quorum a \<Longrightarrow> abs_inv quorum a'"
proof (induction rule: abs_step.induct)
  case (accept a v X j m xs)
  then show ?case by (intro inv_accept) auto
qed (auto intro: inv_bump inv_stand inv_cast inv_lead inv_extend)

section \<open>Leader completeness\<close>

definition committed :: "(string set \<Rightarrow> bool) \<Rightarrow> raft_abs \<Rightarrow> u64 \<Rightarrow> nat \<Rightarrow> bool" where
  "committed quorum a t k \<longleftrightarrow> (\<exists>Q. quorum Q \<and> (\<forall>j \<in> Q. acked a j t k))"

lemma grows_committed: "grows a a' \<Longrightarrow> committed quorum a t k \<Longrightarrow> committed quorum a' t k"
  unfolding committed_def using grows_acked by blast

locale node_quorums = quorum_system quorum for quorum :: "string set \<Rightarrow> bool"
begin

lemma committed_member: "committed quorum a t k \<Longrightarrow> \<exists>j. acked a j t k"
  using nonempty unfolding committed_def by blast

text \<open>What a quorum has acknowledged in its term is in the leading log of every later term.\<close>

lemma leader_completeness:
  assumes inv: "abs_inv quorum a" and c: "committed quorum a t k"
  shows "t < u \<Longrightarrow> a_lead a u \<noteq> None \<Longrightarrow> prefix (take k (tlog a t)) (tlog a u)"
proof (induction u rule: less_induct)
  case (less u)
  obtain X where X: "a_lead a u = Some X" using less.prems(2) by blast
  obtain Q where Q: "quorum Q" "\<And>j. j \<in> Q \<Longrightarrow> acked a j t k" using c by (auto simp: committed_def)
  obtain R where R: "quorum R" "\<And>j. j \<in> R \<Longrightarrow> keeps a j {..<u} X" using inv X unfolding abs_inv_def inv_leads_def by blast
  obtain j where "j \<in> Q" "j \<in> R" using intersect [OF Q(1) R(1)] by blast
  then have "acked a j t k" "keeps a j {..<u} X" using Q(2) R(2) by simp_all
  then have "prefix (take k (tlog a t)) X \<or> lost a t k {..<u}" using less.prems(1) by (auto simp: keeps_def)
  moreover have "\<not> lost a t k {..<u}" using less.IH unfolding lost_def by blast
  ultimately show ?case using X by (simp add: tlog_def)
qed

text \<open>So what is committed, in whatever terms, is one sequence.\<close>

lemma committed_agree:
  assumes inv: "abs_inv quorum a" and "committed quorum a t k" and "committed quorum a u l"
  shows "prefix (take k (tlog a t)) (take l (tlog a u)) \<or> prefix (take l (tlog a u)) (take k (tlog a t))"
proof -
  have lead: "a_lead a v \<noteq> None" if "committed quorum a v n" for v n
    using committed_member [OF that] acked_lead inv unfolding abs_inv_def by blast
  have both: "prefix (take k (tlog a t)) Y \<Longrightarrow> prefix (take l (tlog a u)) Y \<Longrightarrow> ?thesis" for Y using prefix_same_cases by blast
  consider "t < u" | "u < t" | "t = u" by (meson linorder_neqE)
  then show ?thesis
  proof cases
    case 1
    then show ?thesis using leader_completeness [OF assms(1,2)] lead assms(3) take_is_prefix both by blast
  next
    case 2
    then show ?thesis using leader_completeness [OF assms(1,3)] lead assms(2) take_is_prefix both by blast
  next
    case 3
    then show ?thesis using both take_is_prefix by blast
  qed
qed

end

interpretation majority: node_quorums "vote_quorum ids" for ids
  by unfold_locales

end
