(* ===== verification/Raft_Safety.thy ===== *)
theory Raft_Safety
  imports Raft_Abstract Raft_Properties
begin

text \<open>
  The cluster of \<open>Raft_Cluster\<close> refines the abstract system of \<open>Raft_Abstract\<close>: every critical section of the
  node code is matched by abstract steps. So the logs of the nodes match, a leader has what earlier leaders
  have committed, and nodes never commit different entries at the same index.

  The runs are those of clusters of odd size in which no node compacts its log. For even sizes the commit
  quorum of the source is not a majority, and a snapshot does not carry the log it replaces; \<open>Raft_Limits\<close>
  has runs that go wrong in either case.
\<close>

section \<open>Logs without a snapshot\<close>

definition plain_log :: "raftLog \<Rightarrow> bool" where
  "plain_log l \<longleftrightarrow> log_wf l \<and> snapIndex l = 0 \<and> snapTerm l = 0 \<and> length (log_entries l) + 1 < 2 ^ 64"

lemma plain_log_wf: "plain_log l \<Longrightarrow> log_wf l"
  by (simp add: plain_log_def)

lemma plain_lastIndex: "plain_log l \<Longrightarrow> unat (lastIndex l) = length (log_entries l)"
  using unat_lastIndex [of l] by (simp add: plain_log_def)

lemma plain_lastTerm: "plain_log l \<Longrightarrow> lastTerm l = last_term (log_entries l)"
  by (simp add: plain_log_def lastTerm_def last_term_def)

lemma plain_room: "plain_log l \<Longrightarrow> lastIndex l \<noteq> - 1"
  using plain_lastIndex [of l] by (auto simp: plain_log_def unsigned_minus_1_eq_mask mask_eq_exp_minus_1)

lemma plain_offset: "0 < (i :: u64) \<Longrightarrow> unat (i - 1) = unat i - 1"
  using unat_u64_offset [of 0 i] by simp

lemma plain_Term:
  assumes "plain_log l"
  shows "log_Term l i = (if i = 0 then Inr 0 else if unat i \<le> length (log_entries l)
     then Inr (e_Term (log_entries l ! (unat i - 1))) else Inl (ErrIndexNotFound i))"
proof (cases "i = 0")
  case False
  then have "0 < i" "0 < unat i" by (simp_all add: word_neq_0_conv unat_gt_0)
  then show ?thesis using assms by (auto simp: log_Term_def plain_log_def plain_offset Let_def)
qed (simp add: log_Term_def)

lemma plain_Term_Inr:
  assumes "plain_log l" and "log_Term l i = Inr t" and "i \<noteq> 0"
  shows "0 < unat i" and "unat i \<le> length (log_entries l)" and "e_Term (log_entries l ! (unat i - 1)) = t"
  using assms by (auto simp: plain_Term unat_gt_0 split: if_splits)

lemma plain_truncate:
  assumes "plain_log l" and "0 < i"
  shows "log_entries (TruncateAfter l i) = take (unat i - 1) (log_entries l)"
  using assms by (auto simp: TruncateAfter_def plain_log_def plain_offset Let_def)

text \<open>
  Merging entries of \<open>X\<close> into a log that agrees with \<open>X\<close> up to them, when equal terms at an index mean equal
  logs up to it: the log then has these entries, is either unchanged or cut and extended to a prefix of \<open>X\<close>,
  and keeps what it had in common with \<open>X\<close>.
\<close>

lemma append_loop_merge:
  assumes l: "plain_log l" and m: "m \<le> length X"
    and same: "\<And>k. k < length (log_entries l) \<Longrightarrow> k < length X \<Longrightarrow> e_Term (log_entries l ! k) = e_Term (X ! k) \<Longrightarrow>
      take (Suc k) (log_entries l) = take (Suc k) X"
  shows "es = drop p (take m X) \<Longrightarrow> p \<le> m \<Longrightarrow> p \<le> length (log_entries l) \<Longrightarrow> take p (log_entries l) = take p X \<Longrightarrow>
    (\<And>k. k < length es \<Longrightarrow> unat (e_Index (es ! k)) = p + 1 + k) \<Longrightarrow>
    (let xs = log_entries (appendEntries_loop l es) in prefix (take m X) xs \<and> (xs = log_entries l \<or> xs = take m X) \<and>
       (\<forall>zs. prefix zs (log_entries l) \<and> prefix zs X \<longrightarrow> prefix zs xs))"
proof (induction es arbitrary: p)
  case Nil
  then have "m = p" using m by simp
  then show ?case using Nil.prems(4) by (metis appendEntries_loop.simps(1) take_is_prefix)
next
  case (Cons e es)
  let ?xs = "log_entries l"
  have p: "p < m" "p < length X" using Cons.prems(1) m by (cases "p < m"; simp)+
  have drop: "drop p (take m X) = X ! p # drop (Suc p) (take m X)" using p m by (simp add: Cons_nth_drop_Suc [symmetric])
  then have e: "e = X ! p" "es = drop (Suc p) (take m X)" using Cons.prems(1) by simp_all
  have idx: "unat (e_Index e) = p + 1" using Cons.prems(5) [of 0] by simp
  then have nz: "e_Index e \<noteq> 0" "0 < e_Index e" by (auto simp: word_less_nat_alt)
  have merged: "take p ?xs @ e # es = take m X"
    using Cons.prems(1,2,4) m by (metis append_take_drop_id min.absorb1 take_take)
  consider "length ?xs = p" | "p < length ?xs" "e_Term (?xs ! p) \<noteq> e_Term e" | "p < length ?xs" "e_Term (?xs ! p) = e_Term e"
    using Cons.prems(3) by fastforce
  then show ?case
  proof cases
    case 1
    then have "log_entries (appendEntries_loop l (e # es)) = take m X"
      using merged nz idx by (simp add: plain_Term [OF l] log_Append_def)
    moreover have "prefix ?xs (take m X)" using merged 1 by (metis prefixI take_all order_refl)
    ultimately show ?thesis by (simp add: Let_def) (meson prefix_order.trans)
  next
    case 2
    then have res: "log_entries (appendEntries_loop l (e # es)) = take m X"
      using merged nz idx by (simp add: plain_Term [OF l] log_Append_def plain_truncate [OF l])
    have "prefix zs (take m X)" if "prefix zs ?xs" "prefix zs X" for zs
    proof -
      have "zs ! p = ?xs ! p \<and> zs ! p = X ! p" if "p < length zs"
        using that \<open>prefix zs ?xs\<close> \<open>prefix zs X\<close> by (auto simp: prefix_def nth_append)
      then have "length zs \<le> p" using 2 e(1) by (metis not_le)
      then have "length zs \<le> length (take m X)" using p m by simp
      then show ?thesis using \<open>prefix zs X\<close> by (metis prefix_length_prefix take_is_prefix)
    qed
    then show ?thesis using res by (simp add: Let_def)
  next
    case 3
    then have "appendEntries_loop l (e # es) = appendEntries_loop l es" using nz idx by (simp add: plain_Term [OF l])
    moreover have "take (Suc p) ?xs = take (Suc p) X" using same [OF 3(1) p(2)] 3 e by simp
    moreover have "unat (e_Index (es ! k)) = Suc p + 1 + k" if "k < length es" for k using Cons.prems(5) [of "Suc k"] that by simp
    ultimately show ?thesis using Cons.IH [OF e(2)] p(1) 3(1) by simp
  qed
qed

section \<open>What relates a node, and a message, to the abstract state\<close>

text \<open>The first \<open>c\<close> entries of a log of term \<open>t\<close> are committed.\<close>

definition safe_commit :: "string list \<Rightarrow> raft_abs \<Rightarrow> u64 \<Rightarrow> nat \<Rightarrow> Entry list \<Rightarrow> bool" where
  "safe_commit ids a t c xs \<longleftrightarrow> c = 0 \<or>
     (\<exists>u \<le> t. \<exists>k \<ge> c. committed (vote_quorum ids) a u k \<and> prefix (take c (tlog a u)) xs)"

definition matches_ok :: "string list \<Rightarrow> (string \<Rightarrow> string) \<Rightarrow> raft_abs \<Rightarrow> string \<Rightarrow> u64 \<Rightarrow> (string, u64) gomap \<Rightarrow> bool" where
  "matches_ok ps route a i t m \<longleftrightarrow> gm_wf m \<and>
     (\<forall>(k, v) \<in> set m. k \<in> insert i (set ps) \<and> (v = 0 \<or> k = i \<or> (\<exists>l \<ge> unat v. (route k, t, l) \<in> a_acks a)))"

definition leader_sim :: "string list \<Rightarrow> (string \<Rightarrow> string) \<Rightarrow> raft_abs \<Rightarrow> string \<Rightarrow> Node \<Rightarrow> bool" where
  "leader_sim ps route a i n \<longleftrightarrow> a_lead a (currentTerm n) = Some (log_entries (nd_log n)) \<and>
     matches_ok ps route a i (currentTerm n) (matchIndex n) \<and>
     (\<forall>k. entry_of a (currentTerm n) k \<longrightarrow> acked a i (currentTerm n) k)"

definition node_sim :: "string list \<Rightarrow> string list \<Rightarrow> (string \<Rightarrow> string) \<Rightarrow> raft_abs \<Rightarrow> string \<Rightarrow> Node \<Rightarrow> bool" where
  "node_sim ids ps route a i n \<longleftrightarrow> plain_log (nd_log n) \<and> a_log a i = log_entries (nd_log n) \<and> a_term a i = currentTerm n \<and>
     safe_commit ids a (currentTerm n) (unat (commitIndex n)) (log_entries (nd_log n)) \<and>
     (nd_state n = Candidate \<longrightarrow> 0 < currentTerm n \<and> a_cand a (i, currentTerm n) = Some (log_entries (nd_log n))) \<and>
     (nd_state n = Leader \<longrightarrow> leader_sim ps route a i n)"

definition rv_sim :: "raft_abs \<Rightarrow> RequestVoteArgs \<Rightarrow> bool" where
  "rv_sim a args \<longleftrightarrow> (\<exists>D. a_cand a (rv_CandidateID args, rv_Term args) = Some D \<and>
     unat (rv_LastLogIndex args) = length D \<and> rv_LastLogTerm args = last_term D)"

definition ae_end :: "AppendEntriesArgs \<Rightarrow> nat" where
  "ae_end args = unat (ae_PrevLogIndex args) + length (ae_Entries args)"

definition ae_sim :: "string list \<Rightarrow> raft_abs \<Rightarrow> AppendEntriesArgs \<Rightarrow> bool" where
  "ae_sim ids a args \<longleftrightarrow> a_lead a (ae_Term args) \<noteq> None \<and> ae_end args \<le> length (tlog a (ae_Term args)) \<and>
     consecutive_from (ae_PrevLogIndex args) (ae_Entries args) \<and>
     ae_Entries args = drop (unat (ae_PrevLogIndex args)) (take (ae_end args) (tlog a (ae_Term args))) \<and>
     (ae_PrevLogIndex args \<noteq> 0 \<longrightarrow> e_Term (tlog a (ae_Term args) ! (unat (ae_PrevLogIndex args) - 1)) = ae_PrevLogTerm args) \<and>
     safe_commit ids a (ae_Term args) (unat (ae_LeaderCommit args)) (take (ae_end args) (tlog a (ae_Term args)))"

definition cluster_sim :: "string list \<Rightarrow> (string \<Rightarrow> string list) \<Rightarrow> (string \<Rightarrow> string) \<Rightarrow> cluster \<Rightarrow> raft_abs \<Rightarrow> bool" where
  "cluster_sim ids peers route s a \<longleftrightarrow>
     (\<forall>i \<in> set ids. node_sim ids (peers i) route a i (cl_nodes s i)) \<and>
     (\<forall>args \<in> cl_votereqs s. rv_sim a args) \<and> (\<forall>j c t. granted s j c t \<longrightarrow> (j, c, t) \<in> a_votes a) \<and>
     (\<forall>(j, args) \<in> cl_aereqs s. ae_sim ids a args) \<and>
     (\<forall>(j, args, r) \<in> cl_aereps s. aer_Success r \<longrightarrow> (j, ae_Term args, ae_end args) \<in> a_acks a) \<and>
     (\<forall>(j, args) \<in> cl_isreqs s. is_LastIncludedIndex args = 0) \<and>
     (\<forall>(j, args, r) \<in> cl_isreps s. is_LastIncludedIndex args = 0) \<and>
     (\<forall>t. a_lead a t \<noteq> None \<longrightarrow> (\<exists>i. (i, t) \<in> cl_elected s))"

section \<open>What an abstract step keeps\<close>

definition later :: "raft_abs \<Rightarrow> raft_abs \<Rightarrow> bool" where
  "later a a' \<longleftrightarrow> grows a a' \<and> (\<forall>k D. a_cand a k = Some D \<longrightarrow> a_cand a' k = Some D) \<and> a_votes a \<subseteq> a_votes a'"

lemma later_grows: "later a a' \<Longrightarrow> grows a a'"
  by (simp add: later_def)

lemma abs_step_later:
  assumes "abs_step quorum a a'" and "abs_inv quorum a"
  shows "later a a'"
proof -
  have "a_cand a' k = Some D" if "a_cand a k = Some D" for k D
    using assms(1)
  proof cases
    case (stand c u)
    have "u \<le> a_term a c" if "a_cand a (c, u) = Some E" for E
      using inv_logsD(3) [of a c u E] assms(2) that by (simp add: abs_inv_def)
    then show ?thesis using stand that by (auto simp: not_le)
  qed (use that in auto)
  moreover have "a_votes a \<subseteq> a_votes a'" using assms(1) by cases auto
  ultimately show ?thesis using abs_step_grows [OF assms(1)] by (auto simp: later_def)
qed

lemma committed_bound:
  assumes "committed (vote_quorum ids) a t k"
  shows "entry_of a t k" and "k \<le> length (tlog a t)"
  using majority.committed_member [OF assms] by (auto simp: acked_def entry_of_def)

lemma safe_commit_later:
  assumes "safe_commit ids a t c xs" and "grows a a'" and "t \<le> t'" and "prefix xs ys"
  shows "safe_commit ids a' t' c ys"
proof (cases "c = 0")
  case False
  then obtain u k where u: "u \<le> t" "c \<le> k" "committed (vote_quorum ids) a u k" "prefix (take c (tlog a u)) xs"
    using assms(1) by (auto simp: safe_commit_def)
  have "take c (tlog a' u) = take c (tlog a u)" using grows_take [OF assms(2)] committed_bound(2) [OF u(3)] u(2) by simp
  then have "prefix (take c (tlog a' u)) ys" using u(4) assms(4) by (metis prefix_order.trans)
  then show ?thesis
    unfolding safe_commit_def using u(1,2) grows_committed [OF assms(2) u(3)] assms(3) order_trans by blast
qed (simp add: safe_commit_def)

lemma safe_commit_length:
  assumes "safe_commit ids a t c xs"
  shows "c \<le> length xs"
proof (cases "c = 0")
  case False
  then obtain u k where u: "c \<le> k" "committed (vote_quorum ids) a u k" "prefix (take c (tlog a u)) xs"
    using assms by (auto simp: safe_commit_def)
  then show ?thesis using prefix_length_le [OF u(3)] committed_bound(2) [OF u(2)] by simp
qed simp

text \<open>What is committed is kept by a node that takes over entries of a leader of its term or a later one.\<close>

lemma safe_commit_leader:
  assumes inv: "abs_inv (vote_quorum ids) a" and "safe_commit ids a t c ys" and "t \<le> v" and X: "a_lead a v = Some X"
  shows "prefix (take c ys) X"
proof (cases "c = 0")
  case False
  then obtain u k where u: "u \<le> t" "c \<le> k" "committed (vote_quorum ids) a u k" "prefix (take c (tlog a u)) ys"
    using assms(2) by (auto simp: safe_commit_def)
  have tl: "tlog a v = X" using X by (simp add: tlog_def)
  have "prefix (take k (tlog a u)) X"
  proof (cases "u = v")
    case False
    then have "u < v" using u(1) assms(3) by simp
    then show ?thesis using majority.leader_completeness [OF inv u(3), of v] X tl by simp
  qed (simp add: tl take_is_prefix)
  moreover have "prefix (take c (tlog a u)) (take k (tlog a u))" using u(2) by (metis min.absorb1 take_is_prefix take_take)
  moreover have "take c ys = take c (tlog a u)"
    using u(4) committed_bound(2) [OF u(3)] u(2) by (auto simp: prefix_def)
  ultimately show ?thesis by (metis prefix_order.trans)
qed simp

lemma matches_ok_later:
  assumes "matches_ok ps route a i t m" and "grows a a'"
  shows "matches_ok ps route a' i t m"
proof -
  have "a_acks a \<subseteq> a_acks a'" using assms(2) by (simp add: grows_def)
  then show ?thesis using assms(1) unfolding matches_ok_def by fast
qed

lemma leader_sim_later:
  assumes "leader_sim ps route a i n" and g: "grows a a'" and same: "a_lead a' (currentTerm n) = a_lead a (currentTerm n)"
  shows "leader_sim ps route a' i n"
proof -
  have "entry_of a' (currentTerm n) k = entry_of a (currentTerm n) k" for k using same by (simp add: entry_of_def tlog_def)
  then show ?thesis
    using assms(1) same matches_ok_later [OF _ g] grows_acked [OF g] unfolding leader_sim_def by metis
qed

lemma node_sim_later:
  assumes "node_sim ids ps route a i n" and l: "later a a'" and "a_log a' i = a_log a i" and "a_term a' i = a_term a i"
    and "nd_state n = Leader \<Longrightarrow> a_lead a' (currentTerm n) = a_lead a (currentTerm n)"
  shows "node_sim ids ps route a' i n"
proof -
  note commit = safe_commit_later [OF _ later_grows [OF l] order_refl prefix_order.refl]
  have "a_cand a k = Some D \<Longrightarrow> a_cand a' k = Some D" for k D using l unfolding later_def by blast
  then show ?thesis
    using assms(1,3-5) commit leader_sim_later [OF _ later_grows [OF l]] unfolding node_sim_def by metis
qed

lemma node_commit_later:
  assumes "node_sim ids ps route a i n" and "grows a a'" and "currentTerm n \<le> t"
  shows "safe_commit ids a' t (unat (commitIndex n)) (log_entries (nd_log n))"
  using assms(1) safe_commit_later [OF _ assms(2,3) prefix_order.refl] unfolding node_sim_def by blast

lemma rv_sim_later: "rv_sim a args \<Longrightarrow> later a a' \<Longrightarrow> rv_sim a' args"
  unfolding rv_sim_def later_def by blast

lemma ae_sim_later:
  assumes "ae_sim ids a args" and l: "later a a'"
  shows "ae_sim ids a' args"
proof -
  let ?t = "ae_Term args" and ?m = "ae_end args"
  note old = assms(1) [unfolded ae_sim_def]
  obtain ys where ys: "tlog a' ?t = tlog a ?t @ ys" using grows_tlog_extends [OF later_grows [OF l]] .
  then have take: "take ?m (tlog a' ?t) = take ?m (tlog a ?t)" "?m \<le> length (tlog a' ?t)" using old by simp_all
  have "tlog a' ?t ! (unat (ae_PrevLogIndex args) - 1) = tlog a ?t ! (unat (ae_PrevLogIndex args) - 1)" if "ae_PrevLogIndex args \<noteq> 0"
  proof -
    have "0 < unat (ae_PrevLogIndex args)" "unat (ae_PrevLogIndex args) \<le> length (tlog a ?t)"
      using that old by (simp_all add: unat_gt_0 ae_end_def)
    then show ?thesis using ys by (simp add: nth_append)
  qed
  moreover have "safe_commit ids a' ?t (unat (ae_LeaderCommit args)) (take ?m (tlog a ?t))"
    using safe_commit_later [OF _ later_grows [OF l] order_refl prefix_order.refl] old by blast
  ultimately show ?thesis
    unfolding ae_sim_def take(1) using old take(2) grows_lead [OF later_grows [OF l], of ?t] by metis
qed

section \<open>One node takes a step\<close>

lemma cluster_simD:
  assumes "cluster_sim ids peers route s a"
  shows "i \<in> set ids \<Longrightarrow> node_sim ids (peers i) route a i (cl_nodes s i)" and "args \<in> cl_votereqs s \<Longrightarrow> rv_sim a args"
    and "granted s j c t \<Longrightarrow> (j, c, t) \<in> a_votes a" and "(j, ae) \<in> cl_aereqs s \<Longrightarrow> ae_sim ids a ae"
    and "(j, ae, r) \<in> cl_aereps s \<Longrightarrow> aer_Success r \<Longrightarrow> (j, ae_Term ae, ae_end ae) \<in> a_acks a"
    and "(j, iargs) \<in> cl_isreqs s \<Longrightarrow> is_LastIncludedIndex iargs = 0" and "(j, iargs, q) \<in> cl_isreps s \<Longrightarrow> is_LastIncludedIndex iargs = 0"
    and "a_lead a t \<noteq> None \<Longrightarrow> \<exists>i. (i, t) \<in> cl_elected s"
  using assms by (auto simp: cluster_sim_def)

lemma sim_node_step:
  assumes sim: "cluster_sim ids peers route s a" and l: "later a a'" and s': "cl_nodes s' = (cl_nodes s)(j := n)"
    and frame: "\<And>i. i \<noteq> j \<Longrightarrow> a_log a' i = a_log a i \<and> a_term a' i = a_term a i"
    and lead: "\<And>i. i \<in> set ids \<Longrightarrow> i \<noteq> j \<Longrightarrow> nd_state (cl_nodes s i) = Leader \<Longrightarrow>
      a_lead a' (currentTerm (cl_nodes s i)) = a_lead a (currentTerm (cl_nodes s i))"
    and node: "node_sim ids (peers j) route a' j n"
    and rv: "\<And>x. x \<in> cl_votereqs s' \<Longrightarrow> x \<in> cl_votereqs s \<or> rv_sim a' x"
    and vote: "\<And>k c t. granted s' k c t \<Longrightarrow> granted s k c t \<or> (k, c, t) \<in> a_votes a'"
    and ae: "\<And>x. x \<in> cl_aereqs s' \<Longrightarrow> x \<in> cl_aereqs s \<or> ae_sim ids a' (snd x)"
    and aer: "\<And>k x r. (k, x, r) \<in> cl_aereps s' \<Longrightarrow> (k, x, r) \<in> cl_aereps s \<or> (aer_Success r \<longrightarrow> (k, ae_Term x, ae_end x) \<in> a_acks a')"
    and ins: "\<And>x. x \<in> cl_isreqs s' \<Longrightarrow> x \<in> cl_isreqs s \<or> is_LastIncludedIndex (snd x) = 0"
    and isr: "\<And>k x r. (k, x, r) \<in> cl_isreps s' \<Longrightarrow> (k, x, r) \<in> cl_isreps s \<or> is_LastIncludedIndex x = 0"
    and el: "cl_elected s \<subseteq> cl_elected s'" "\<And>t. a_lead a' t \<noteq> None \<Longrightarrow> a_lead a t = None \<Longrightarrow> \<exists>i. (i, t) \<in> cl_elected s'"
  shows "cluster_sim ids peers route s' a'"
  unfolding cluster_sim_def
proof (intro conjI ballI allI impI)
  note old = cluster_simD [OF sim]
  show "node_sim ids (peers i) route a' i (cl_nodes s' i)" if "i \<in> set ids" for i
    using that node node_sim_later [OF old(1) l] frame lead by (cases "i = j") (simp_all add: s')
  show "rv_sim a' x" if "x \<in> cl_votereqs s'" for x using rv [OF that] old(2) rv_sim_later [OF _ l] by blast
  show "(k, c, t) \<in> a_votes a'" if "granted s' k c t" for k c t using vote [OF that] old(3) l unfolding later_def by blast
  show "case x of (k, args) \<Rightarrow> ae_sim ids a' args" if "x \<in> cl_aereqs s'" for x
    using ae [OF that] old(4) ae_sim_later [OF _ l] by (cases x) auto
  show "case x of (k, args, r) \<Rightarrow> aer_Success r \<longrightarrow> (k, ae_Term args, ae_end args) \<in> a_acks a'" if "x \<in> cl_aereps s'" for x
    using aer that old(5) later_grows [OF l] unfolding grows_def by (cases x) blast
  show "case x of (k, args) \<Rightarrow> is_LastIncludedIndex args = 0" if "x \<in> cl_isreqs s'" for x
    using ins [OF that] old(6) by (cases x) auto
  show "case x of (k, args, r) \<Rightarrow> is_LastIncludedIndex args = 0" if "x \<in> cl_isreps s'" for x
    using isr that old(7) by (cases x) blast
  show "\<exists>i. (i, t) \<in> cl_elected s'" if "a_lead a' t \<noteq> None" for t using el that old(8) by blast
qed

text \<open>
  A node that keeps log, commit index and role, or becomes a follower, possibly in a later term, takes the
  abstract step that only raises its term.
\<close>

definition quiet :: "Node \<Rightarrow> Node \<Rightarrow> bool" where
  "quiet n n' \<longleftrightarrow> nd_log n' = nd_log n \<and> commitIndex n' = commitIndex n \<and> currentTerm n \<le> currentTerm n' \<and>
     (nd_state n' = Follower \<or> nd_state n' = nd_state n \<and> currentTerm n' = currentTerm n \<and> matchIndex n' = matchIndex n)"

lemma quiet_refl [simp]: "quiet n n"
  by (simp add: quiet_def)

lemma quiet_sim:
  assumes "node_sim ids ps route a j n" and q: "quiet n n'"
  shows "node_sim ids ps route (a\<lparr>a_term := (a_term a)(j := currentTerm n')\<rparr>) j n'" (is "node_sim _ _ _ ?a' _ _")
proof -
  have g: "grows a ?a'" using assms by (auto simp: grows_def node_sim_def quiet_def)
  note commit = safe_commit_later [OF _ g _ prefix_order.refl]
  show ?thesis
    using assms commit leader_sim_later [OF _ g]
    unfolding node_sim_def quiet_def by (auto simp: leader_sim_def)
qed

lemma sim_quiet:
  assumes inv: "abs_inv (vote_quorum ids) a" and sim: "cluster_sim ids peers route s a" and j: "j \<in> set ids"
    and q: "quiet (cl_nodes s j) n" and s': "cl_nodes s' = (cl_nodes s)(j := n)" "cl_votereqs s' = cl_votereqs s" "granted s' = granted s"
      "cl_elected s \<subseteq> cl_elected s'"
    and ae: "\<And>x. x \<in> cl_aereqs s' \<Longrightarrow> x \<in> cl_aereqs s \<or> ae_sim ids a (snd x)"
    and aer: "\<And>k x r. (k, x, r) \<in> cl_aereps s' \<Longrightarrow> (k, x, r) \<in> cl_aereps s \<or> \<not> aer_Success r"
    and ins: "\<And>x. x \<in> cl_isreqs s' \<Longrightarrow> x \<in> cl_isreqs s \<or> is_LastIncludedIndex (snd x) = 0"
    and isr: "\<And>k x r. (k, x, r) \<in> cl_isreps s' \<Longrightarrow> (k, x, r) \<in> cl_isreps s \<or> is_LastIncludedIndex x = 0"
  shows "\<exists>a'. abs_step (vote_quorum ids) a a' \<and> cluster_sim ids peers route s' a'"
proof -
  let ?a' = "a\<lparr>a_term := (a_term a)(j := currentTerm n)\<rparr>"
  note node = cluster_simD(1) [OF sim j]
  have step: "abs_step (vote_quorum ids) a ?a'" using node q by (intro abs_step.bump) (simp add: node_sim_def quiet_def)
  note l = abs_step_later [OF step inv]
  have "x \<in> cl_aereqs s' \<Longrightarrow> x \<in> cl_aereqs s \<or> ae_sim ids ?a' (snd x)" for x using ae ae_sim_later [OF _ l] by blast
  moreover have "(k, x, r) \<in> cl_aereps s' \<Longrightarrow> (k, x, r) \<in> cl_aereps s \<or> (aer_Success r \<longrightarrow> (k, ae_Term x, ae_end x) \<in> a_acks ?a')" for k x r
    using aer by blast
  ultimately have "cluster_sim ids peers route s' ?a'"
    by (intro sim_node_step [OF sim l s'(1) _ _ quiet_sim [OF node q]]) (simp_all add: s' ins isr)
  with step show ?thesis by blast
qed

section \<open>Elections\<close>

lemma startElection_frame:
  assumes "startElection n = (n', Some (el, args))"
  shows "nd_log n' = nd_log n" and "commitIndex n' = commitIndex n" and "rv_Term args = currentTerm n + 1"
    and "rv_LastLogIndex args = lastIndex (nd_log n)" and "rv_LastLogTerm args = lastTerm (nd_log n)"
  using assms by (auto simp: startElection_def Let_def split: if_splits)

lemma sim_start:
  assumes inv: "abs_inv (vote_quorum ids) a" and sim: "cluster_sim ids peers route s a" and i: "i \<in> set ids" "nd_id (cl_nodes s i) = i"
    and no_wrap: "currentTerm (cl_nodes s i) \<noteq> - 1" and start: "startElection (cl_nodes s i) = (n, Some (el, args))"
    and s': "cl_nodes s' = (cl_nodes s)(i := n)" "cl_votereqs s' = insert args (cl_votereqs s)" "granted s' = granted s"
      "cl_aereqs s' = cl_aereqs s" "cl_aereps s' = cl_aereps s" "cl_isreqs s' = cl_isreqs s" "cl_isreps s' = cl_isreps s"
      "cl_elected s' = cl_elected s"
  shows "\<exists>a'. abs_step (vote_quorum ids) a a' \<and> cluster_sim ids peers route s' a'"
proof -
  let ?u = "currentTerm (cl_nodes s i) + 1"
  let ?a' = "a\<lparr>a_term := (a_term a)(i := ?u), a_cand := (a_cand a)((i, ?u) \<mapsto> a_log a i)\<rparr>"
  note n = startElection_candidate [OF start] startElection_frame [OF start] and node = cluster_simD(1) [OF sim i(1), unfolded node_sim_def]
  have u: "currentTerm (cl_nodes s i) < ?u" using no_wrap by (rule u64_less_Suc)
  then have step: "abs_step (vote_quorum ids) a ?a'" using node by (intro abs_step.stand) simp
  note l = abs_step_later [OF step inv]
  have log: "a_log a i = log_entries (nd_log n)" "plain_log (nd_log n)" using node n by simp_all
  have "safe_commit ids ?a' (currentTerm n) (unat (commitIndex n)) (log_entries (nd_log n))"
    using node_commit_later [OF cluster_simD(1) [OF sim i(1)] later_grows [OF l]] n u by simp
  then have "node_sim ids (peers i) route ?a' i n" using log n u by (auto simp: node_sim_def intro: le_less_trans)
  moreover have "rv_sim ?a' args" using n log i(2) by (simp add: rv_sim_def plain_lastIndex plain_lastTerm)
  ultimately have "cluster_sim ids peers route s' ?a'"
    by (intro sim_node_step [OF sim l s'(1)]) (auto simp: s')
  with step show ?thesis by blast
qed

lemma HandleRequestVote_log:
  assumes "HandleRequestVote n args = (n', reply)"
  shows "nd_log n' = nd_log n" and "commitIndex n' = commitIndex n" and "matchIndex n' = matchIndex n"
    and "rvr_VoteGranted reply \<Longrightarrow> logUpToDate n (rv_LastLogIndex args) (rv_LastLogTerm args)"
  using assms by (auto simp: HandleRequestVote_def role_defs Let_def logUpToDate_def split: if_splits)

lemma sim_vote:
  assumes inv: "abs_inv (vote_quorum ids) a" and sim: "cluster_sim ids peers route s a" and j: "j \<in> set ids"
    and args: "args \<in> cl_votereqs s" and handle: "HandleRequestVote (cl_nodes s j) args = (n, reply)" "rvr_VoteGranted reply"
    and follower: "nd_state n = Follower"
    and s': "cl_nodes s' = (cl_nodes s)(j := n)" "cl_votereqs s' = cl_votereqs s"
      "cl_votereps s' = insert (j, rv_CandidateID args, rv_Term args, reply) (cl_votereps s)"
      "cl_aereqs s' = cl_aereqs s" "cl_aereps s' = cl_aereps s" "cl_isreqs s' = cl_isreqs s" "cl_isreps s' = cl_isreps s"
      "cl_elected s' = cl_elected s"
  shows "\<exists>a'. abs_step (vote_quorum ids) a a' \<and> cluster_sim ids peers route s' a'"
proof -
  let ?c = "rv_CandidateID args" and ?u = "rv_Term args"
  let ?a' = "a\<lparr>a_term := (a_term a)(j := ?u), a_votes := insert (j, ?c, ?u) (a_votes a)\<rparr>"
  note n = HandleRequestVote_granted [OF handle] HandleRequestVote_log [OF handle(1)] and node = cluster_simD(1) [OF sim j, unfolded node_sim_def]
  obtain D where D: "a_cand a (?c, ?u) = Some D" "unat (rv_LastLogIndex args) = length D" "rv_LastLogTerm args = last_term D"
    using cluster_simD(2) [OF sim args] by (auto simp: rv_sim_def)
  have "logUpToDate (cl_nodes s j) (rv_LastLogIndex args) (rv_LastLogTerm args)" using n(11) handle(2) by blast
  then have "up_to_date D (a_log a j)"
    using D node by (auto simp: logUpToDate_def up_to_date_def plain_lastIndex plain_lastTerm word_le_nat_alt Let_def split: if_splits)
  moreover have "a_term a j \<le> ?u" using node n(3,4) by simp
  ultimately have step: "abs_step (vote_quorum ids) a ?a'" using D(1) by (intro abs_step.vote)
  note l = abs_step_later [OF step inv]
  have "safe_commit ids ?a' ?u (unat (commitIndex n)) (log_entries (nd_log n))"
    using node_commit_later [OF cluster_simD(1) [OF sim j] later_grows [OF l]] n(3,4,8,9) by simp
  then have "node_sim ids (peers j) route ?a' j n" using node n(4,8,9) follower by (simp add: node_sim_def)
  moreover have "granted s' k c t \<Longrightarrow> granted s k c t \<or> (k, c, t) \<in> a_votes ?a'" for k c t by (auto simp: granted_def s')
  ultimately have "cluster_sim ids peers route s' ?a'"
    by (intro sim_node_step [OF sim l s'(1)]) (simp_all add: s')
  with step show ?thesis by blast
qed

lemma matches_ok_set:
  assumes "matches_ok ps route a i t m" and "k \<in> insert i (set ps)" and "v = 0 \<or> k = i \<or> (\<exists>l \<ge> unat v. (route k, t, l) \<in> a_acks a)"
  shows "matches_ok ps route a i t (gm_set k v m)"
proof -
  have "gm_wf m" using assms(1) by (simp add: matches_ok_def)
  then have set: "(x, y) \<in> set (gm_set k v m) \<Longrightarrow> (x, y) = (k, v) \<or> (x, y) \<in> set m" for x y
    using gm_wf_intros(1) [OF \<open>gm_wf m\<close>, of k v] by (auto simp: gm_entries_iff gomap_simps split: if_splits)
  show ?thesis
    unfolding matches_ok_def
  proof (intro conjI ballI, rule gm_wf_intros(1) [OF \<open>gm_wf m\<close>], clarify)
    fix x y assume "(x, y) \<in> set (gm_set k v m)"
    from set [OF this] show "x \<in> insert i (set ps) \<and> (y = 0 \<or> x = i \<or> (\<exists>l \<ge> unat y. (route x, t, l) \<in> a_acks a))"
      using assms by (auto simp: matches_ok_def)
  qed
qed

lemma becomeLeader_loop_matches:
  "matches_ok ps route a i t m \<Longrightarrow> set qs \<subseteq> set ps \<Longrightarrow> matches_ok ps route a i t (snd (becomeLeader_loop qs lastIdx nxt m))"
  by (induction qs arbitrary: nxt m) (simp_all add: matches_ok_set)

lemma becomeLeader_frame:
  assumes "nd_state n = Candidate"
  shows "nd_log (becomeLeader n) = nd_log n" and "commitIndex (becomeLeader n) = commitIndex n"
    and "matches_ok (nd_peers n) route a (nd_id n) t (matchIndex (becomeLeader n))"
proof -
  have "matches_ok (nd_peers n) route a (nd_id n) t []" by (simp add: matches_ok_def)
  from becomeLeader_loop_matches [OF this order_refl, of "lastIndex (nd_log n)" "[]"]
  show "matches_ok (nd_peers n) route a (nd_id n) t (matchIndex (becomeLeader n))"
    using assms by (auto simp: becomeLeader_def Let_def split: prod.split intro: matches_ok_set)
qed (use assms in \<open>auto simp: becomeLeader_def Let_def split: prod.split\<close>)

lemma sim_win:
  assumes inv: "abs_inv (vote_quorum ids) a" and sim: "cluster_sim ids peers route s a" and cinv: "cluster_inv ids peers route s"
    and i: "i \<in> set ids" and cand: "nd_state (cl_nodes s i) = Candidate" "currentTerm (cl_nodes s i) = t"
    and quorum: "vote_quorum ids R" "\<forall>k \<in> R. k = i \<or> granted s k i t"
    and s': "cl_nodes s' = (cl_nodes s)(i := becomeLeader (cl_nodes s i))" "cl_votereqs s' = cl_votereqs s" "granted s' = granted s"
      "cl_aereqs s' = cl_aereqs s" "cl_aereps s' = cl_aereps s" "cl_isreqs s' = cl_isreqs s" "cl_isreps s' = cl_isreps s"
      "cl_elected s' = insert (i, t) (cl_elected s)"
  shows "\<exists>a'. abs_step (vote_quorum ids) a a' \<and> cluster_sim ids peers route s' a'"
proof -
  let ?n = "cl_nodes s i" and ?D = "log_entries (nd_log (cl_nodes s i))"
  let ?a' = "a\<lparr>a_lead := (a_lead a)(t \<mapsto> ?D)\<rparr>"
  note node = cluster_simD(1) [OF sim i, unfolded node_sim_def] and n = becomeLeader_role [OF cand(1)] becomeLeader_frame [OF cand(1)]
  have D: "a_cand a (i, t) = Some ?D" "0 < t" "a_log a i = ?D" "a_term a i = t" using node cand by simp_all
  have none: "a_lead a t = None"
  proof (rule ccontr)
    assume "a_lead a t \<noteq> None"
    then obtain k where k: "(k, t) \<in> cl_elected s" using cluster_simD(8) [OF sim] by blast
    then have "k = i" using no_rival [OF cinv quorum cand] by blast
    then show False using inv_elected_node(3) [OF cinv k] cand by simp
  qed
  have "\<forall>k \<in> R. k = i \<or> (k, i, t) \<in> a_votes a" using quorum(2) cluster_simD(3) [OF sim] by blast
  then have step: "abs_step (vote_quorum ids) a ?a'" using D none quorum(1) by (intro abs_step.win)
  note l = abs_step_later [OF step inv]
  have "\<forall>e \<in> set ?D. e_Term e < t" using inv_logsD(3) [OF _ D(1)] inv by (simp add: abs_inv_def)
  then have "\<not> entry_of ?a' t k" for k by (auto simp: entry_of_def tlog_def dest: nth_mem)
  then have "leader_sim (peers i) route ?a' i (becomeLeader ?n)"
    using n cand inv_node(1,2) [OF cinv i] by (simp add: leader_sim_def)
  moreover have "safe_commit ids ?a' t (unat (commitIndex ?n)) ?D"
    using node_commit_later [OF cluster_simD(1) [OF sim i] later_grows [OF l]] cand by simp
  ultimately have "node_sim ids (peers i) route ?a' i (becomeLeader ?n)" using node n cand by (simp add: node_sim_def)
  moreover have "currentTerm (cl_nodes s k) \<noteq> t" if "k \<in> set ids" "nd_state (cl_nodes s k) = Leader" "k \<noteq> i" for k
    using no_rival [OF cinv quorum cand] inv_leader [OF cinv that(1,2)] that(3) by auto
  ultimately have "cluster_sim ids peers route s' ?a'"
    by (intro sim_node_step [OF sim l s'(1)]) (auto simp: s' split: if_splits)
  with step show ?thesis by blast
qed

section \<open>Replication\<close>

lemma commit_quorum:
  assumes config: "cluster_config ids peers route" and "odd (length ids)" and i: "i \<in> set ids" "i \<notin> set (peers i)"
    and S: "distinct ks" "set ks \<subseteq> insert i (set (peers i))" "(length (peers i) + 2) div 2 \<le> length ks"
  shows "vote_quorum ids ((\<lambda>k. if k = i then i else route k) ` set ks)"
proof -
  let ?host = "\<lambda>k. if k = i then i else route k"
  note cfg = config_peers [OF config i(1)]
  have "route k \<noteq> i" if "k \<in> set (peers i)" for k using cfg(2) that by blast
  then have "inj_on ?host (insert i (set (peers i)))" using cfg(1) i(2) by (auto simp: inj_on_def)
  then have "card (?host ` set ks) = length ks" using S(1,2) by (metis card_image distinct_card inj_on_subset)
  moreover have "?host ` set ks \<subseteq> set ids" using S(2) cfg(2) i(1) by auto
  moreover have "int (length ids) div 2 + 1 \<le> int (length ks)"
    using S(3) cfg(3) \<open>odd (length ids)\<close> by (auto elim!: oddE)
  ultimately show ?thesis by (simp add: vote_quorum_def)
qed

lemma sim_advance:
  assumes config: "cluster_config ids peers route" and odd: "odd (length ids)" and i: "i \<in> set ids" "i \<notin> set (peers i)"
    and n: "nd_peers n = peers i" "nd_state n = Leader" and sim: "node_sim ids (peers i) route a i n"
  shows "node_sim ids (peers i) route a i (advanceCommitIndex n)"
proof (cases n rule: advanceCommitIndex_cases)
  case unchanged
  then show ?thesis using sim by simp
next
  case (commit c)
  let ?t = "currentTerm n" and ?xs = "log_entries (nd_log n)" and ?host = "\<lambda>k. if k = i then i else route k"
  have log: "plain_log (nd_log n)" and lead: "leader_sim (peers i) route a i n" using sim n(2) by (simp_all add: node_sim_def)
  have tl: "tlog a ?t = ?xs" and match: "matches_ok (peers i) route a i ?t (matchIndex n)"
    using lead by (simp_all add: leader_sim_def tlog_def)
  have "c \<noteq> 0" using commit(2) by auto
  note c = plain_Term_Inr [OF log commit(3) this]
  then have e: "entry_of a ?t (unat c)" by (simp add: entry_of_def tl)
  let ?ks = "replicated_on n c"
  have "distinct ?ks" using match by (simp add: replicated_on_def matches_ok_def gm_wf_def distinct_map_filter)
  moreover have sub: "set ?ks \<subseteq> insert i (set (peers i))" using match by (auto simp: replicated_on_def matches_ok_def)
  ultimately have q: "vote_quorum ids (?host ` set ?ks)" using commit(4) n(1) by (intro commit_quorum [OF config odd i]) simp_all
  have "acked a (?host k) ?t (unat c)" if k: "k \<in> set ?ks" for k
  proof (cases "k = i")
    case True
    then show ?thesis using lead e by (simp add: leader_sim_def)
  next
    case False
    obtain v where v: "(k, v) \<in> set (matchIndex n)" "c \<le> v" using k by (auto simp: replicated_on_def)
    then have "v \<noteq> 0" using \<open>c \<noteq> 0\<close> by auto
    then obtain l where "unat v \<le> l" "(route k, ?t, l) \<in> a_acks a" using match v(1) False unfolding matches_ok_def by blast
    moreover have "unat c \<le> l" using v(2) \<open>unat v \<le> l\<close> by (simp add: word_le_nat_alt)
    ultimately show ?thesis using e False by (auto simp: acked_def)
  qed
  then have "committed (vote_quorum ids) a ?t (unat c)" unfolding committed_def using q by blast
  then have "safe_commit ids a ?t (unat c) ?xs" unfolding safe_commit_def tl [symmetric] using take_is_prefix by blast
  then show ?thesis using sim n(2) commit(1) by (simp add: node_sim_def leader_sim_def signalApply_def)
qed

lemma sim_same:
  assumes sim: "cluster_sim ids peers route s a" and "node_sim ids (peers j) route a j n"
  shows "cluster_sim ids peers route (set_node j n s) a"
  by (rule sim_node_step [OF sim _ _ _ _ assms(2)]) (auto simp: set_node_def later_def granted_def)

lemma replicateTo_reply_quiet:
  assumes "\<not> (aer_Term reply \<le> currentTerm n \<and> nd_state n = Leader \<and> currentTerm n = ae_Term args \<and> aer_Success reply)"
  shows "quiet n (replicateTo_reply n p args reply)"
  using assms by (auto simp: replicateTo_reply_def quiet_def becomeFollower_def Let_def not_le)

lemma unat_add_le: "unat (x + of_nat k :: u64) \<le> unat x + k"
proof -
  have "unat (x + of_nat k :: u64) = (unat x + k) mod 2 ^ 64"
    by (simp add: unat_word_ariths(1) unsigned_of_nat take_bit_eq_mod mod_add_right_eq)
  then show ?thesis by simp
qed

lemma sim_reply:
  assumes config: "cluster_config ids peers route" and odd: "odd (length ids)" and i: "i \<in> set ids" "i \<notin> set (peers i)"
    and n: "nd_peers n = peers i" and sim: "node_sim ids (peers i) route a i n" and p: "p \<in> set (peers i)"
    and ack: "(route p, ae_Term args, ae_end args) \<in> a_acks a"
    and ok: "aer_Term reply \<le> currentTerm n \<and> nd_state n = Leader \<and> currentTerm n = ae_Term args \<and> aer_Success reply"
  shows "node_sim ids (peers i) route a i (replicateTo_reply n p args reply)"
proof -
  let ?new = "ae_PrevLogIndex args + of_nat (length (ae_Entries args))"
  define m where "m = (if ?new > gm_get 0 (matchIndex n) p then gm_set p ?new (matchIndex n) else matchIndex n)"
  define n2 where "n2 = n\<lparr>matchIndex := m, nextIndex := gm_set p (gm_get 0 m p + 1) (nextIndex n)\<rparr>"
  have "unat ?new \<le> ae_end args" unfolding ae_end_def by (rule unat_add_le)
  moreover have "matches_ok (peers i) route a i (currentTerm n) (matchIndex n)" using sim ok by (simp add: node_sim_def leader_sim_def)
  ultimately have "matches_ok (peers i) route a i (currentTerm n) m"
    unfolding m_def using p ack ok by (auto intro!: matches_ok_set)
  then have "node_sim ids (peers i) route a i n2" using sim ok by (simp add: node_sim_def leader_sim_def n2_def)
  then have "node_sim ids (peers i) route a i (advanceCommitIndex n2)"
    by (intro sim_advance [OF config odd i]) (use n ok in \<open>simp_all add: n2_def\<close>)
  moreover have "\<not> currentTerm n < aer_Term reply" using ok leD by blast
  then have "replicateTo_reply n p args reply = advanceCommitIndex n2"
    using ok by (simp add: replicateTo_reply_def n2_def m_def Let_def)
  ultimately show ?thesis by simp
qed

lemma sim_send:
  assumes sim: "node_sim ids ps route a i n" and send: "replicateTo_send n p = SendEntries args"
  shows "ae_sim ids a args"
proof -
  let ?l = "nd_log n" and ?next = "gm_get 0 (nextIndex n) p"
  have leader: "nd_state n = Leader" and args: "ae_Term args = currentTerm n" "ae_PrevLogIndex args = ?next - 1"
      "log_Term ?l (?next - 1) = Inr (ae_PrevLogTerm args)" "ae_LeaderCommit args = commitIndex n"
      "ae_Entries args = log_Slice ?l ?next (lastIndex ?l + 1)"
    using send by (auto simp: replicateTo_send_def Let_def split: if_splits sum.splits)
  have log: "plain_log ?l" and lead: "a_lead a (currentTerm n) = Some (log_entries ?l)"
    using sim leader by (simp_all add: node_sim_def leader_sim_def)
  then have tl: "tlog a (currentTerm n) = log_entries ?l" by (simp add: tlog_def)
  have le: "unat (?next - 1) \<le> length (log_entries ?l)"
    using plain_Term_Inr(2) [OF log args(3)] by (cases "?next - 1 = 0") simp_all
  have "?next \<noteq> 0"
    using le log by (auto simp: plain_log_def unsigned_minus_1_eq_mask mask_eq_exp_minus_1)
  then have "0 < ?next" "unat (?next - 1) = unat ?next - 1" by (simp_all add: word_neq_0_conv plain_offset)
  then have es: "ae_Entries args = drop (unat (?next - 1)) (log_entries ?l)"
    using log_Slice_tail [OF plain_log_wf [OF log] _ plain_room [OF log], of ?next] log args(5) by (simp add: plain_log_def)
  then have stop: "ae_end args = length (log_entries ?l)" using le args(2) by (simp add: ae_end_def)
  have "consecutive_from (?next - 1) (ae_Entries args)"
    using consecutive_from_drop [OF plain_log_wf [OF log], of "?next - 1"] le log plain_lastIndex [OF log]
    by (simp add: es plain_log_def word_le_nat_alt)
  then show ?thesis
    using sim plain_Term_Inr(3) [OF log args(3)] es lead unfolding ae_sim_def stop args(1,2,4) tl node_sim_def by auto
qed

lemma node_sim_heartbeat: "node_sim ids ps route a i (n\<lparr>heartbeatSig := b\<rparr>) = node_sim ids ps route a i n"
  by (simp add: node_sim_def leader_sim_def)

lemma sim_propose:
  assumes inv: "abs_inv (vote_quorum ids) a" and sim: "cluster_sim ids peers route s a" and cinv: "cluster_inv ids peers route s"
    and config: "cluster_config ids peers route" and odd: "odd (length ids)" and i: "i \<in> set ids" "i \<notin> set (peers i)"
    and leader: "nd_state (cl_nodes s i) = Leader" and propose: "Propose (cl_nodes s i) command = (n, res)"
    and room: "length (log_entries (nd_log n)) + 1 < 2 ^ 64"
  shows "\<exists>a'. abs_step (vote_quorum ids) a a' \<and> cluster_sim ids peers route (set_node i n s) a'"
proof -
  let ?n = "cl_nodes s i" and ?t = "currentTerm (cl_nodes s i)" and ?X = "log_entries (nd_log (cl_nodes s i))"
  define e where "e = \<lparr>e_Index = lastIndex (nd_log ?n) + 1, e_Term = ?t, e_Command = command\<rparr>"
  define n1 where "n1 = ?n\<lparr>nd_log := log_Append (nd_log ?n) [e], matchIndex := gm_set i (lastIndex (nd_log ?n) + 1) (matchIndex ?n)\<rparr>"
  let ?a' = "a\<lparr>a_lead := (a_lead a)(?t \<mapsto> ?X @ [e]), a_log := (a_log a)(i := ?X @ [e]), a_acks := insert (i, ?t, Suc (length ?X)) (a_acks a)\<rparr>"
  note node = cluster_simD(1) [OF sim i(1)] and id = inv_node(1,2) [OF cinv i(1)]
  have n: "n = (advanceCommitIndex n1)\<lparr>heartbeatSig := True\<rparr>"
    using propose leader id by (simp add: Propose_def Let_def n1_def e_def)
  have log: "plain_log (nd_log ?n)" and lead: "leader_sim (peers i) route a i ?n" and at: "a_log a i = ?X" "a_term a i = ?t"
    using node leader by (simp_all add: node_sim_def)
  have X: "a_lead a ?t = Some ?X" using lead by (simp add: leader_sim_def)
  have step: "abs_step (vote_quorum ids) a ?a'" by (rule abs_step.extend) (use X at in \<open>simp_all add: e_def\<close>)
  note l = abs_step_later [OF step inv] and g = later_grows [OF abs_step_later [OF step inv]]
  have entries: "log_entries (nd_log n1) = ?X @ [e]" by (simp add: n1_def log_Append_def)
  have "consecutive_from (lastIndex (nd_log ?n)) [e]"
    using unat_u64_Suc [OF plain_room [OF log]] by (simp add: consecutive_from_Cons e_def)
  then have log1: "plain_log (nd_log n1)"
    using log_Append_wf [OF plain_log_wf [OF log]] log room by (simp add: plain_log_def n1_def n)
  have "acked ?a' i ?t k" if "entry_of ?a' ?t k" for k
  proof (cases "k \<le> length ?X")
    case True
    then have "entry_of a ?t k" using that X by (cases k) (simp_all add: entry_of_def tlog_def nth_append)
    then show ?thesis using lead grows_acked [OF g] by (simp add: leader_sim_def)
  next
    case False
    then have "k = Suc (length ?X)" using that by (simp add: entry_of_def tlog_def)
    then show ?thesis using that by (auto simp: acked_def)
  qed
  moreover have "matches_ok (peers i) route ?a' i ?t (matchIndex n1)"
    using lead matches_ok_later [OF _ g] by (simp add: leader_sim_def n1_def matches_ok_set)
  ultimately have "leader_sim (peers i) route ?a' i n1" using entries by (simp add: leader_sim_def n1_def log_Append_def)
  moreover have "safe_commit ids ?a' ?t (unat (commitIndex ?n)) (?X @ [e])"
    by (rule safe_commit_later [where xs = ?X, OF node_commit_later [OF node grows_refl order_refl] g order_refl]) simp
  ultimately have "node_sim ids (peers i) route ?a' i n1"
    using log1 entries at leader by (simp add: node_sim_def n1_def)
  then have "node_sim ids (peers i) route ?a' i (advanceCommitIndex n1)"
    by (intro sim_advance [OF config odd i]) (use id leader in \<open>simp_all add: n1_def\<close>)
  then have "node_sim ids (peers i) route ?a' i n" by (simp only: n node_sim_heartbeat)
  moreover have "currentTerm (cl_nodes s k) \<noteq> ?t" if "k \<in> set ids" "nd_state (cl_nodes s k) = Leader" "k \<noteq> i" for k
    using inv_one_elected [OF cinv inv_leader [OF cinv that(1,2)]] inv_leader [OF cinv i(1) leader] that(3) by auto
  ultimately have "cluster_sim ids peers route (set_node i n s) ?a'"
    by (intro sim_node_step [OF sim l, of _ i n]) (auto simp: set_node_def granted_def X split: if_splits)
  with step show ?thesis by blast
qed

text \<open>Logs that follow the leading logs agree up to an index at which they have the same term.\<close>

lemma on_track_same:
  assumes "on_track a xs" and "on_track a ys" and "k < length xs" and "k < length ys" and "e_Term (xs ! k) = e_Term (ys ! k)"
  shows "take (Suc k) xs = take (Suc k) ys"
proof -
  have "prefix (take (Suc k) xs) (tlog a (e_Term (xs ! k)))" "prefix (take (Suc k) ys) (tlog a (e_Term (xs ! k)))"
    using assms unfolding on_track_def by auto
  moreover have "length (take (Suc k) xs) = length (take (Suc k) ys)" using assms(3,4) by simp
  ultimately show ?thesis by (metis order_refl prefix_length_prefix prefix_order.antisym)
qed

lemma accepted_role:
  assumes "HandleAppendEntries n args = (n', r)" and "aer_Success r"
  shows "currentTerm n \<le> ae_Term args" and "currentTerm n' = ae_Term args" and "nd_state n' = Follower"
  using assms by (elim HandleAppendEntries_elim; auto simp: signalElectionReset_def becomeFollower_def signalApply_def)+

text \<open>The log of a follower after an accepted message of the leader of term \<open>v\<close>, whose log is \<open>X\<close>.\<close>

lemma accepted_merge:
  assumes inv: "abs_inv (vote_quorum ids) a" and node: "node_sim ids ps route a j n" and ae: "ae_sim ids a args"
    and X: "a_lead a (ae_Term args) = Some X" and handle: "HandleAppendEntries n args = (n', r)" "aer_Success r"
  shows "let xs = log_entries (nd_log n') in log_wf (nd_log n') \<and> prefix (take (ae_end args) X) xs \<and>
    (xs = a_log a j \<or> xs = take (ae_end args) X) \<and> (\<forall>zs. prefix zs (a_log a j) \<and> prefix zs X \<longrightarrow> prefix zs xs)"
proof -
  let ?l = "nd_log n" and ?p = "unat (ae_PrevLogIndex args)" and ?es = "ae_Entries args"
  have tl: "tlog a (ae_Term args) = X" using X by (simp add: tlog_def)
  note ok = accepted_effect [OF handle] and ae' = ae [unfolded ae_sim_def tl]
  have log: "plain_log ?l" and at: "a_log a j = log_entries ?l" using node by (simp_all add: node_sim_def)
  have "inv_logs a" using inv by (simp add: abs_inv_def)
  then have tracks: "on_track a (log_entries ?l)" "on_track a X"
    using inv_logsD(1) [of a j] inv_logsD(2) [OF _ X] at by (simp_all add: good_log_def)
  note same = on_track_same [OF tracks]
  have p: "?p \<le> length (log_entries ?l) \<and> take ?p (log_entries ?l) = take ?p X"
  proof (cases "ae_PrevLogIndex args = 0")
    case False
    then have "log_Term ?l (ae_PrevLogIndex args) = Inr (ae_PrevLogTerm args)" using ok(1) by blast
    note t = plain_Term_Inr [OF log this False]
    have "?p + length ?es \<le> length X" using ae' by (simp only: ae_end_def)
    then have "?p - 1 < length X" using t(1) by simp
    then show ?thesis using t same [of "?p - 1"] ae' False by simp
  qed simp
  have "consecutive_from (ae_PrevLogIndex args) ?es" using ae' by blast
  moreover have "ae_PrevLogIndex args \<le> lastIndex ?l" using p plain_lastIndex [OF log] by (simp add: word_le_nat_alt)
  moreover have "snapIndex ?l \<le> ae_PrevLogIndex args" using log by (simp add: plain_log_def)
  ultimately have "log_wf (appendEntries_loop ?l ?es)" using appendEntries_loop_spec [OF plain_log_wf [OF log]] by blast
  moreover have idx: "unat (e_Index (?es ! k)) = ?p + 1 + k" if "k < length ?es" for k
    using \<open>consecutive_from (ae_PrevLogIndex args) ?es\<close> that by (simp add: consecutive_from_def)
  have "?p \<le> ae_end args" by (simp add: ae_end_def)
  then have "let xs = log_entries (appendEntries_loop ?l ?es) in prefix (take (ae_end args) X) xs \<and>
      (xs = log_entries ?l \<or> xs = take (ae_end args) X) \<and> (\<forall>zs. prefix zs (log_entries ?l) \<and> prefix zs X \<longrightarrow> prefix zs xs)"
    using append_loop_merge [OF log _ same, of "ae_end args" ?es ?p] ae' p idx by blast
  ultimately show ?thesis unfolding ok(2) at Let_def by blast
qed

lemma safe_commit_take:
  assumes "safe_commit ids a t c xs"
  shows "safe_commit ids a t c (take c xs)"
proof (cases "c = 0")
  case False
  then obtain u k where u: "u \<le> t" "c \<le> k" "committed (vote_quorum ids) a u k" "prefix (take c (tlog a u)) xs"
    using assms by (auto simp: safe_commit_def)
  then have "take c xs = take c (tlog a u)" using committed_bound(2) [OF u(3)] by (auto simp: prefix_def)
  then show ?thesis using u(1-3) unfolding safe_commit_def by (metis prefix_order.refl)
qed (simp add: safe_commit_def)

lemma sim_accept:
  assumes inv: "abs_inv (vote_quorum ids) a" and sim: "cluster_sim ids peers route s a" and j: "j \<in> set ids"
    and req: "(j, args) \<in> cl_aereqs s" and handle: "HandleAppendEntries (cl_nodes s j) args = (n, r)" "aer_Success r"
    and room: "length (log_entries (nd_log n)) + 1 < 2 ^ 64"
  shows "\<exists>a'. abs_step (vote_quorum ids) a a' \<and>
    cluster_sim ids peers route ((set_node j n s)\<lparr>cl_aereps := insert (j, args, r) (cl_aereps s)\<rparr>) a'"
proof -
  let ?v = "ae_Term args" and ?m = "ae_end args" and ?xs = "log_entries (nd_log n)" and ?n = "cl_nodes s j"
  let ?a' = "a\<lparr>a_term := (a_term a)(j := ?v), a_log := (a_log a)(j := ?xs), a_acks := insert (j, ?v, ?m) (a_acks a)\<rparr>"
  note node = cluster_simD(1) [OF sim j] and ae = cluster_simD(4) [OF sim req] and role = accepted_role [OF handle]
  obtain X where X: "a_lead a ?v = Some X" using ae by (auto simp: ae_sim_def)
  then have tl: "tlog a ?v = X" by (simp add: tlog_def)
  have m: "?m \<le> length X" "safe_commit ids a ?v (unat (ae_LeaderCommit args)) (take ?m X)" using ae by (simp_all add: ae_sim_def tl)
  note xs = accepted_merge [OF inv node ae X handle, unfolded Let_def]
  have at: "a_log a j = log_entries (nd_log ?n)" "a_term a j = currentTerm ?n" using node by (simp_all add: node_sim_def)
  have step: "abs_step (vote_quorum ids) a ?a'" by (rule abs_step.accept [OF X]) (use m xs role at in auto)
  note l = abs_step_later [OF step inv] and g = later_grows [OF abs_step_later [OF step inv]]
  have log: "plain_log (nd_log n)"
    using node xs room by (simp add: plain_log_def node_sim_def accepted_effect(2) [OF handle])
  have "safe_commit ids ?a' ?v (unat (commitIndex n)) ?xs"
  proof (cases "commitIndex ?n < ae_LeaderCommit args")
    case True
    have "safe_commit ids a ?v (unat (ae_LeaderCommit args)) ?xs" using safe_commit_later [OF m(2) grows_refl order_refl] xs by blast
    then have "unat (ae_LeaderCommit args) \<le> unat (lastIndex (nd_log n))" using safe_commit_length plain_lastIndex [OF log] by metis
    then have "commitIndex n = ae_LeaderCommit args" using True accepted_effect(3) [OF handle] by (simp add: word_le_nat_alt min_def)
    then show ?thesis using safe_commit_later [OF m(2) g order_refl] xs by simp
  next
    case False
    then have c: "commitIndex n = commitIndex ?n" using accepted_effect(3) [OF handle] by simp
    have commit: "safe_commit ids a (currentTerm ?n) (unat (commitIndex n)) (a_log a j)" using node c by (simp add: node_sim_def)
    have "prefix (take (unat (commitIndex n)) (a_log a j)) ?xs"
      using safe_commit_leader [OF inv commit role(1) X] xs take_is_prefix by blast
    then show ?thesis using safe_commit_later [OF safe_commit_take [OF commit] g role(1)] by blast
  qed
  then have "node_sim ids (peers j) route ?a' j n" using log role by (simp add: node_sim_def)
  then have "cluster_sim ids peers route ((set_node j n s)\<lparr>cl_aereps := insert (j, args, r) (cl_aereps s)\<rparr>) ?a'"
    by (intro sim_node_step [OF sim l, of _ j n]) (auto simp: set_node_def granted_def)
  with step show ?thesis by blast
qed

section \<open>Every step of the cluster is matched\<close>

text \<open>No node has compacted its log, and every index of a log and the next one fit into 64 bits.\<close>

definition uncompacted :: "string list \<Rightarrow> cluster \<Rightarrow> bool" where
  "uncompacted ids s \<longleftrightarrow> (\<forall>i \<in> set ids. snapIndex (nd_log (cl_nodes s i)) = 0 \<and> length (log_entries (nd_log (cl_nodes s i))) + 1 < 2 ^ 64)"

definition uncompacted_step :: "string list \<Rightarrow> (string \<Rightarrow> string) \<Rightarrow> cluster \<Rightarrow> cluster \<Rightarrow> bool" where
  "uncompacted_step ids route s s' \<longleftrightarrow> cluster_step ids route s s' \<and> uncompacted ids s'"

lemma quietI:
  assumes "may_become n n'" and "nd_log n' = nd_log n" and "commitIndex n' = commitIndex n" and "matchIndex n' = matchIndex n"
  shows "quiet n n'"
  using assms by (auto simp: quiet_def may_become_def role_kept_def stepped_down_def)

lemma rejected_matchIndex:
  "HandleAppendEntries n args = (n', r) \<Longrightarrow> \<not> aer_Success r \<Longrightarrow> matchIndex n' = matchIndex n"
  by (erule HandleAppendEntries_elim) (auto simp: signalElectionReset_def becomeFollower_def)

lemma handleVoteReply_quiet:
  assumes "handleVoteReply el n reply = (el', n')"
  shows "quiet n n' \<or> n' = becomeLeader n \<and> nd_state n = Candidate \<and> currentTerm n = el_term el"
  using assms by (auto simp: handleVoteReply_def quiet_def becomeFollower_def Let_def split: if_splits)

lemma singleNodeWin_quiet:
  assumes "singleNodeWin el n = (el', n')"
  shows "quiet n n' \<or> n' = becomeLeader n \<and> nd_state n = Candidate \<and> currentTerm n = el_term el"
  using assms by (auto simp: singleNodeWin_def split: if_splits)

lemma HandleInstallSnapshot_quiet:
  assumes "HandleInstallSnapshot n args = (n', r)" and "is_LastIncludedIndex args = 0"
  shows "quiet n n'"
  using assms by (auto simp: HandleInstallSnapshot_def quiet_def becomeFollower_def signalElectionReset_def Let_def split: if_splits)

lemma sendSnapshot_reply_quiet: "is_LastIncludedIndex args = 0 \<Longrightarrow> quiet n (sendSnapshot_reply n p args reply)"
  by (auto simp: sendSnapshot_reply_def quiet_def becomeFollower_def Let_def)

lemma SetSnapshot_zero: "snapIndex l = 0 \<Longrightarrow> snapIndex (SetSnapshot l i t) = 0 \<Longrightarrow> SetSnapshot l i t = l"
  by (auto simp: SetSnapshot_def Let_def split: if_splits)

lemma TakeSnapshot_quiet:
  assumes take: "TakeSnapshot n data = (n', res)" and "snapIndex (nd_log n) = 0" and "snapIndex (nd_log n') = 0"
  shows "quiet n n'"
proof -
  have "n' = n \<or> (\<exists>i t. n' = n\<lparr>nd_log := SetSnapshot (nd_log n) i t\<rparr>)"
    using take by (auto simp: TakeSnapshot_def Let_def split: sum.splits)
  then show ?thesis using SetSnapshot_zero [OF assms(2)] assms(3) by (auto simp: quiet_def)
qed

lemma applyCommitted_log:
  assumes "applyCommitted stop n = (n', sent)"
  obtains k i t where "n' = n\<lparr>lastApplied := k\<rparr> \<or> n' = n\<lparr>lastApplied := k, nd_log := SetSnapshot (nd_log n) i t\<rparr>"
proof -
  obtain k d b where d: "applyLoop_deliver stop n (applyEntries n) [] = (n\<lparr>lastApplied := k\<rparr>, d, b)"
    by (cases "fst (snd (applyLoop_deliver stop n (applyEntries n) [])) = []")
      (auto simp: applyLoop_deliver_result Let_def intro: that [of "lastApplied n"])
  have "\<exists>k. n = n\<lparr>lastApplied := k\<rparr>" by (rule exI [of _ "lastApplied n"]) simp
  with assms d that show thesis
    by (auto simp: applyCommitted_def applyCompact_def Let_def split: if_splits sum.splits)
qed

lemma applyCommitted_quiet:
  assumes "applyCommitted stop n = (n', sent)" and "snapIndex (nd_log n) = 0" and "snapIndex (nd_log n') = 0"
  shows "quiet n n'"
  using applyCommitted_log [OF assms(1)]
proof cases
  case (1 k i t)
  then show ?thesis using SetSnapshot_zero [OF assms(2), of i t] assms(3) by (auto simp: quiet_def)
qed

text \<open>An election step either leaves the node quiet or makes it the leader, with the votes of a quorum.\<close>

lemma sim_elect:
  assumes inv: "abs_inv (vote_quorum ids) a" and sim: "cluster_sim ids peers route s a" and cinv: "cluster_inv ids peers route s"
    and i: "i \<in> set ids" and el: "cl_elections s (i, t) = Some el"
    and n: "quiet (cl_nodes s i) n \<or> n = becomeLeader (cl_nodes s i) \<and> nd_state (cl_nodes s i) = Candidate \<and> currentTerm (cl_nodes s i) = el_term el"
    and cinv': "cluster_inv ids peers route s'" and s': "s' = (elect_node i t el' n s)\<lparr>cl_counted := x\<rparr>"
  shows "\<exists>a'. abs_step (vote_quorum ids) a a' \<and> cluster_sim ids peers route s' a'"
  using n
proof
  assume "quiet (cl_nodes s i) n"
  then show ?thesis by (intro sim_quiet [OF inv sim i]) (auto simp: s' elect_node_def set_node_def granted_def fun_eq_iff)
next
  assume n: "n = becomeLeader (cl_nodes s i) \<and> nd_state (cl_nodes s i) = Candidate \<and> currentTerm (cl_nodes s i) = el_term el"
  moreover have "el_term el = t" using inv_election [OF cinv i el] by (simp add: election_ok_def)
  ultimately have cand: "nd_state (cl_nodes s i) = Candidate" "currentTerm (cl_nodes s i) = t" by simp_all
  then have el': "cl_elected s' = insert (i, t) (cl_elected s)"
    using becomeLeader_role [OF cand(1)] n by (simp add: s' elect_node_def set_node_def)
  have g: "granted s' = granted s" by (auto simp: s' elect_node_def set_node_def granted_def fun_eq_iff)
  obtain R where "vote_quorum ids R" "\<forall>j \<in> R. j = i \<or> granted s j i t"
    using inv_elected_node(5) [OF cinv', of i t] el' unfolding g by blast
  from sim_win [OF inv sim cinv i cand this, of s'] show ?thesis
    using el' g n by (simp add: s' elect_node_def set_node_def)
qed

lemma sim_request_vote:
  assumes inv: "abs_inv (vote_quorum ids) a" and sim: "cluster_sim ids peers route s a" and cinv: "cluster_inv ids peers route s"
    and config: "cluster_config ids peers route" and req: "args \<in> cl_votereqs s" "p \<in> set (nd_peers (cl_nodes s (rv_CandidateID args)))" "route p = j"
    and handle: "HandleRequestVote (cl_nodes s j) args = (n, reply)"
  shows "\<exists>a'. abs_step (vote_quorum ids) a a' \<and> cluster_sim ids peers route
    ((set_node j n s)\<lparr>cl_votereps := insert (j, rv_CandidateID args, rv_Term args, reply) (cl_votereps s)\<rparr>) a'"
proof -
  have c: "rv_CandidateID args \<in> set ids" by (rule inv_request [OF cinv req(1)])
  then have j: "j \<in> set ids" "rv_CandidateID args \<noteq> j"
    using config_peers(2) [OF config c] req(2,3) inv_node(2) [OF cinv c] by auto
  show ?thesis
  proof (cases "rvr_VoteGranted reply")
    case True
    have "'''' \<notin> set ids" using config by (simp add: cluster_config_def)
    from voter_before(1) [OF cinv j(1) c j(2) this handle True refl refl] show ?thesis
      by (intro sim_vote [OF inv sim j(1) req(1) handle True]) (simp_all add: set_node_def)
  next
    case False
    have "quiet (cl_nodes s j) n"
      by (intro quietI HandleRequestVote_refused [OF handle False] HandleRequestVote_log [OF handle])
    then show ?thesis by (intro sim_quiet [OF inv sim j(1)]) (use False in \<open>auto simp: set_node_def granted_def fun_eq_iff\<close>)
  qed
qed

lemma sim_append_entries:
  assumes inv: "abs_inv (vote_quorum ids) a" and sim: "cluster_sim ids peers route s a" and cinv: "cluster_inv ids peers route s"
    and req: "(j, args) \<in> cl_aereqs s" and handle: "HandleAppendEntries (cl_nodes s j) args = (n, r)"
    and room: "length (log_entries (nd_log n)) + 1 < 2 ^ 64"
  shows "\<exists>a'. abs_step (vote_quorum ids) a a' \<and>
    cluster_sim ids peers route ((set_node j n s)\<lparr>cl_aereps := insert (j, args, r) (cl_aereps s)\<rparr>) a'"
proof -
  have j: "j \<in> set ids" using inv_append_entries [OF cinv req] by simp
  show ?thesis
  proof (cases "aer_Success r")
    case True
    then show ?thesis using sim_accept [OF inv sim j req handle _ room] by blast
  next
    case False
    have "quiet (cl_nodes s j) n"
      using append_accept_iff(2) [OF handle False] rejected_matchIndex [OF handle False]
      by (intro quietI HandleAppendEntries_may_become [OF cinv req handle]) simp_all
    then show ?thesis by (intro sim_quiet [OF inv sim j]) (use False in \<open>auto simp: set_node_def granted_def fun_eq_iff\<close>)
  qed
qed

lemma sim_append_reply:
  assumes inv: "abs_inv (vote_quorum ids) a" and sim: "cluster_sim ids peers route s a" and cinv: "cluster_inv ids peers route s"
    and config: "cluster_config ids peers route" and odd: "odd (length ids)" and i: "i \<in> set ids" "i \<notin> set (peers i)"
    and rep: "(route p, args, reply) \<in> cl_aereps s" "p \<in> set (nd_peers (cl_nodes s i))"
  shows "\<exists>a'. (abs_step (vote_quorum ids))\<^sup>*\<^sup>* a a' \<and> cluster_sim ids peers route (set_node i (replicateTo_reply (cl_nodes s i) p args reply) s) a'"
proof (cases "aer_Term reply \<le> currentTerm (cl_nodes s i) \<and> nd_state (cl_nodes s i) = Leader \<and>
    currentTerm (cl_nodes s i) = ae_Term args \<and> aer_Success reply")
  case True
  have "(route p, ae_Term args, ae_end args) \<in> a_acks a" using cluster_simD(5) [OF sim rep(1)] True by blast
  from sim_reply [OF config odd i inv_node(2) [OF cinv i(1)] cluster_simD(1) [OF sim i(1)] _ this True] show ?thesis
    using sim_same [OF sim] rep(2) inv_node(2) [OF cinv i(1)] by auto
next
  case False
  from replicateTo_reply_quiet [OF this] have "quiet (cl_nodes s i) (replicateTo_reply (cl_nodes s i) p args reply)" .
  then have "\<exists>a'. abs_step (vote_quorum ids) a a' \<and> cluster_sim ids peers route (set_node i (replicateTo_reply (cl_nodes s i) p args reply) s) a'"
    by (intro sim_quiet [OF inv sim i(1)]) (auto simp: set_node_def granted_def fun_eq_iff)
  then show ?thesis by blast
qed

lemma sim_set_quiet:
  assumes inv: "abs_inv (vote_quorum ids) a" and sim: "cluster_sim ids peers route s a" and i: "i \<in> set ids" and q: "quiet (cl_nodes s i) n"
  shows "\<exists>a'. (abs_step (vote_quorum ids))\<^sup>*\<^sup>* a a' \<and> cluster_sim ids peers route (set_node i n s) a'"
proof -
  have "\<exists>a'. abs_step (vote_quorum ids) a a' \<and> cluster_sim ids peers route (set_node i n s) a'"
    by (intro sim_quiet [OF inv sim i q]) (auto simp: set_node_def granted_def fun_eq_iff)
  then show ?thesis by blast
qed

lemma sim_step:
  assumes step: "cluster_step ids route s s'" and config: "cluster_config ids peers route" and odd: "odd (length ids)"
    and self: "\<forall>i \<in> set ids. i \<notin> set (peers i)" and cinv: "cluster_inv ids peers route s" and room: "uncompacted ids s'"
    and inv: "abs_inv (vote_quorum ids) a" and sim: "cluster_sim ids peers route s a"
  shows "\<exists>a'. (abs_step (vote_quorum ids))\<^sup>*\<^sup>* a a' \<and> cluster_sim ids peers route s' a'"
proof -
  note cinv' = inv_step [OF step config cinv] and quiet = sim_set_quiet [OF inv sim]
  have one: ?thesis if "\<exists>a'. abs_step (vote_quorum ids) a a' \<and> cluster_sim ids peers route s' a'" using that by blast
  have snap: "snapIndex (nd_log (cl_nodes s i)) = 0" if "i \<in> set ids" for i
    using cluster_simD(1) [OF sim that] by (simp add: node_sim_def plain_log_def)
  have new: "snapIndex (nd_log n) = 0" "length (log_entries (nd_log n)) + 1 < 2 ^ 64" if "i \<in> set ids" "cl_nodes s' i = n" for i n
    using room that by (auto simp: uncompacted_def)
  from step show ?thesis
  proof cases
    case (election_timeout i n el args)
    show ?thesis
      by (intro one sim_start [OF inv sim election_timeout(2) inv_node(1) [OF cinv election_timeout(2)] election_timeout(3,4)])
        (auto simp: election_timeout(1) set_node_def granted_def fun_eq_iff)
  next
    case (single_node_win i t el el' n)
    then have "s' = (elect_node i t el' n s)\<lparr>cl_counted := cl_counted s\<rparr>" by (simp add: elect_node_def set_node_def)
    then show ?thesis by (intro one sim_elect [OF inv sim cinv single_node_win(2,3) singleNodeWin_quiet cinv']) (rule single_node_win(5))
  next
    case (deliver_vote_request args p j n reply)
    then show ?thesis using sim_request_vote [OF inv sim cinv config] by (intro one) simp
  next
    case (vote_reply i j t reply p el el' n)
    show ?thesis by (intro one sim_elect [OF inv sim cinv vote_reply(2,7) handleVoteReply_quiet cinv' vote_reply(1)]) (rule vote_reply(8))
  next
    case (client_propose i command n res)
    show ?thesis
    proof (cases "nd_state (cl_nodes s i) = Leader")
      case True
      have "i \<notin> set (peers i)" using self client_propose(2) by blast
      from sim_propose [OF inv sim cinv config odd client_propose(2) this True client_propose(3)] show ?thesis
        using new(2) [OF client_propose(2), of n] by (intro one) (simp add: client_propose(1) set_node_def)
    next
      case False
      then have "n = cl_nodes s i" using client_propose(3) by (simp add: Propose_def)
      then show ?thesis using quiet [OF client_propose(2)] by (simp add: client_propose(1))
    qed
  next
    case (replicate_send i p j args)
    have "ae_sim ids a args" using sim_send [OF cluster_simD(1) [OF sim replicate_send(2)] replicate_send(5)] .
    then show ?thesis
      by (intro one sim_quiet [OF inv sim replicate_send(2) quiet_refl]) (auto simp: replicate_send(1) granted_def fun_eq_iff)
  next
    case (deliver_append_entries j args n reply)
    have "j \<in> set ids" using inv_append_entries [OF cinv deliver_append_entries(2)] by simp
    then show ?thesis
      using sim_append_entries [OF inv sim cinv deliver_append_entries(2,3)] new(2) [of j n]
      by (intro one) (simp add: deliver_append_entries(1) set_node_def)
  next
    case (append_entries_reply i j args reply p)
    have "i \<notin> set (peers i)" using self append_entries_reply(2) by blast
    then show ?thesis
      using sim_append_reply [OF inv sim cinv config odd append_entries_reply(2)] append_entries_reply(1,3,5,6) by blast
  next
    case (snapshot_send i p j args)
    have "is_LastIncludedIndex args = 0"
      using snapshot_send(5) snap [OF snapshot_send(2)] by (auto simp: sendSnapshot_send_def split: if_splits)
    then show ?thesis
      by (intro one sim_quiet [OF inv sim snapshot_send(2) quiet_refl]) (auto simp: snapshot_send(1) granted_def fun_eq_iff)
  next
    case (deliver_install_snapshot j args n reply)
    have zero: "is_LastIncludedIndex args = 0" using cluster_simD(6) [OF sim deliver_install_snapshot(3)] .
    show ?thesis
      by (intro one sim_quiet [OF inv sim deliver_install_snapshot(2) HandleInstallSnapshot_quiet [OF deliver_install_snapshot(4) zero]])
        (auto simp: deliver_install_snapshot(1) set_node_def granted_def fun_eq_iff zero)
  next
    case (install_snapshot_reply i j args reply p)
    then show ?thesis using quiet sendSnapshot_reply_quiet cluster_simD(7) [OF sim install_snapshot_reply(3)] by simp
  next
    case (take_snapshot i data n res)
    then show ?thesis using quiet TakeSnapshot_quiet [OF _ snap] new(1) [of i n] by (simp add: set_node_def)
  next
    case (apply_committed i stop n sent)
    then show ?thesis using quiet applyCommitted_quiet [OF _ snap] new(1) [of i n] by (simp add: set_node_def)
  qed
qed

section \<open>Runs\<close>

lemma sim_init: "cluster_sim ids peers route (cluster_init peers) abs_init"
  by (auto simp: cluster_sim_def cluster_init_def abs_init_def node_sim_def plain_log_def newRaftLog_wf raft_New_def raft_DefaultConfig_def
      newRaftLog_def safe_commit_def granted_def log_wf_def)

lemma abs_steps:
  assumes "(abs_step quorum)\<^sup>*\<^sup>* a a'" and "abs_inv quorum a"
  shows "abs_inv quorum a' \<and> grows a a'"
  using assms(1)
proof (induction rule: rtranclp_induct)
  case (step b c)
  then show ?case using abs_step_inv [OF step.hyps(2)] abs_step_grows [OF step.hyps(2)] grows_trans by blast
qed (simp add: assms(2))

text \<open>The refinement: a run of the cluster is matched by a run of the abstract system.\<close>

lemma run_refines:
  assumes run: "(uncompacted_step ids route)\<^sup>*\<^sup>* s s'" and config: "cluster_config ids peers route" and odd: "odd (length ids)"
    and self: "\<forall>i \<in> set ids. i \<notin> set (peers i)"
    and start: "cluster_inv ids peers route s" "abs_inv (vote_quorum ids) a" "cluster_sim ids peers route s a"
  shows "cluster_inv ids peers route s' \<and> (\<exists>a'. (abs_step (vote_quorum ids))\<^sup>*\<^sup>* a a' \<and> cluster_sim ids peers route s' a')"
  using run
proof (induction rule: rtranclp_induct)
  case base
  then show ?case using start by blast
next
  case (step u v)
  then obtain b where b: "(abs_step (vote_quorum ids))\<^sup>*\<^sup>* a b" "cluster_sim ids peers route u b" "cluster_inv ids peers route u" by blast
  have st: "cluster_step ids route u v" "uncompacted ids v" using step.hyps(2) by (simp_all add: uncompacted_step_def)
  obtain c where "(abs_step (vote_quorum ids))\<^sup>*\<^sup>* b c" "cluster_sim ids peers route v c"
    using sim_step [OF st(1) config odd self b(3) st(2) _ b(2)] abs_steps [OF b(1) start(2)] by blast
  then show ?case using b(1) inv_step [OF st(1) config b(3)] by (meson rtranclp_trans)
qed

lemma run_abstract:
  assumes "cluster_config ids peers route" and "odd (length ids)" and "\<forall>i \<in> set ids. i \<notin> set (peers i)"
    and "(uncompacted_step ids route)\<^sup>*\<^sup>* (cluster_init peers) s" and "(uncompacted_step ids route)\<^sup>*\<^sup>* s s'"
  obtains a a' where "cluster_sim ids peers route s a" "cluster_sim ids peers route s' a'" "abs_inv (vote_quorum ids) a'" "grows a a'"
proof -
  obtain a where a: "cluster_inv ids peers route s" "(abs_step (vote_quorum ids))\<^sup>*\<^sup>* abs_init a" "cluster_sim ids peers route s a"
    using run_refines [OF assms(4,1-3) inv_init abs_inv_init sim_init] by blast
  note inv = conjunct1 [OF abs_steps [OF a(2) abs_inv_init]]
  obtain a' where "(abs_step (vote_quorum ids))\<^sup>*\<^sup>* a a'" "cluster_sim ids peers route s' a'"
    using run_refines [OF assms(5,1-3) a(1) inv a(3)] by blast
  then show thesis using that a(3) abs_steps [OF _ inv] by blast
qed

end
