(* ===== verification/Raft_Agreement.thy ===== *)
theory Raft_Agreement
  imports Raft_Safety
begin

text \<open>
  What the refinement of \<open>Raft_Safety\<close> gives for the cluster: logs match, leaders have what was committed
  before, and the entries that nodes hand to their state machines agree. A run of three nodes that replicates
  and commits a command shows that the hypotheses can be met.
\<close>

section \<open>Logs match\<close>

lemma sim_log:
  assumes "cluster_sim ids peers route s a" and "i \<in> set ids"
  shows "a_log a i = log_entries (nd_log (cl_nodes s i))" and "plain_log (nd_log (cl_nodes s i))"
    and "safe_commit ids a (currentTerm (cl_nodes s i)) (unat (commitIndex (cl_nodes s i))) (log_entries (nd_log (cl_nodes s i)))"
  using cluster_simD(1) [OF assms] by (simp_all add: node_sim_def)

text \<open>
  C6: Log matching. In a cluster of odd size in which no node has compacted its log, whatever the order of steps
  and messages, two logs that have an entry of the same term at the same position are identical up to and
  including that position. The hypotheses say that the peer list of a node names every other node once and
  does not contain the node's own name.
\<close>
theorem log_matching:
  assumes "cluster_config ids peers route" and "odd (length ids)" and "\<forall>i \<in> set ids. i \<notin> set (peers i)"
    and "(uncompacted_step ids route)\<^sup>*\<^sup>* (cluster_init peers) s" and "i \<in> set ids" and "j \<in> set ids"
    and "k < length (log_entries (nd_log (cl_nodes s i)))" and "k < length (log_entries (nd_log (cl_nodes s j)))"
    and "e_Term (log_entries (nd_log (cl_nodes s i)) ! k) = e_Term (log_entries (nd_log (cl_nodes s j)) ! k)"
  shows "take (Suc k) (log_entries (nd_log (cl_nodes s i))) = take (Suc k) (log_entries (nd_log (cl_nodes s j)))"
proof -
  obtain a where a: "cluster_sim ids peers route s a" "abs_inv (vote_quorum ids) a"
    using run_abstract [OF assms(1-4) rtranclp.rtrancl_refl] by metis
  have "on_track a (a_log a m)" for m using inv_logsD(1) [of a m] a(2) by (simp add: abs_inv_def good_log_def)
  from on_track_same [OF this [of i] this [of j]] show ?thesis using assms(7-9) sim_log(1) [OF a(1)] assms(5,6) by simp
qed

section \<open>Committed entries\<close>

definition committed_entries :: "Node \<Rightarrow> Entry list" where
  "committed_entries n = take (unat (commitIndex n)) (log_entries (nd_log n))"

lemma safe_commit_agree:
  assumes inv: "abs_inv (vote_quorum ids) a" and "safe_commit ids a t c xs" and "safe_commit ids a u d ys"
  shows "prefix (take c xs) (take d ys) \<or> prefix (take d ys) (take c xs)"
proof (cases "c = 0 \<or> d = 0")
  case False
  then obtain t' k u' l where k: "c \<le> k" "committed (vote_quorum ids) a t' k" "prefix (take c (tlog a t')) xs"
    and l: "d \<le> l" "committed (vote_quorum ids) a u' l" "prefix (take d (tlog a u')) ys"
    using assms(2,3) unfolding safe_commit_def by blast
  have xs: "take c xs = take c (take k (tlog a t'))" using k committed_bound(2) [OF k(2)] by (auto simp: prefix_def min_def)
  have ys: "take d ys = take d (take l (tlog a u'))" using l committed_bound(2) [OF l(2)] by (auto simp: prefix_def min_def)
  show ?thesis
    unfolding xs ys using majority.committed_agree [OF inv k(2) l(2)] prefix_same_cases take_is_prefix prefix_order.trans by metis
qed auto

text \<open>
  C5: Leader completeness. What a node has committed is in the log of every leader of the node's term or a
  later one, at that time and afterwards, in clusters of odd size whose logs are not compacted.
\<close>
theorem leaders_keep_committed:
  assumes "cluster_config ids peers route" and "odd (length ids)" and "\<forall>i \<in> set ids. i \<notin> set (peers i)"
    and "(uncompacted_step ids route)\<^sup>*\<^sup>* (cluster_init peers) s" and "(uncompacted_step ids route)\<^sup>*\<^sup>* s s'"
    and "i \<in> set ids" and "j \<in> set ids" and "nd_state (cl_nodes s' j) = Leader"
    and "currentTerm (cl_nodes s i) \<le> currentTerm (cl_nodes s' j)"
  shows "prefix (committed_entries (cl_nodes s i)) (log_entries (nd_log (cl_nodes s' j)))"
proof -
  obtain a a' where a: "cluster_sim ids peers route s a" "cluster_sim ids peers route s' a'"
    "abs_inv (vote_quorum ids) a'" "grows a a'" using run_abstract [OF assms(1-5)] by blast
  have "a_lead a' (currentTerm (cl_nodes s' j)) = Some (log_entries (nd_log (cl_nodes s' j)))"
    using cluster_simD(1) [OF a(2) assms(7)] assms(8) by (simp add: node_sim_def leader_sim_def)
  from safe_commit_leader [OF a(3) safe_commit_later [OF sim_log(3) [OF a(1) assms(6)] a(4) order_refl prefix_order.refl] assms(9) this]
  show ?thesis by (simp add: committed_entries_def)
qed

text \<open>The committed logs of two nodes, then or later, never contradict each other.\<close>

lemma committed_entries_agree:
  assumes "cluster_config ids peers route" and "odd (length ids)" and "\<forall>i \<in> set ids. i \<notin> set (peers i)"
    and "(uncompacted_step ids route)\<^sup>*\<^sup>* (cluster_init peers) s" and "(uncompacted_step ids route)\<^sup>*\<^sup>* s s'"
    and "i \<in> set ids" and "j \<in> set ids"
  shows "prefix (committed_entries (cl_nodes s i)) (committed_entries (cl_nodes s' j)) \<or>
    prefix (committed_entries (cl_nodes s' j)) (committed_entries (cl_nodes s i))"
proof -
  obtain a a' where a: "cluster_sim ids peers route s a" "cluster_sim ids peers route s' a'"
    "abs_inv (vote_quorum ids) a'" "grows a a'" using run_abstract [OF assms(1-5)] by blast
  show ?thesis
    unfolding committed_entries_def
    by (rule safe_commit_agree [OF a(3) safe_commit_later [OF sim_log(3) [OF a(1) assms(6)] a(4) order_refl prefix_order.refl]
        sim_log(3) [OF a(2) assms(7)]])
qed

section \<open>Applied entries\<close>

lemma applied_committed:
  assumes log: "plain_log (nd_log n)" and c: "unat (commitIndex n) \<le> length (log_entries (nd_log n))"
    and app: "applyCommitted stop n = (n', sent)" and e: "e \<in> set sent"
  shows "unat (e_Index e) - 1 < length (committed_entries n)" and "committed_entries n ! (unat (e_Index e) - 1) = e"
proof -
  have "sent = [] \<or> (\<exists>k. sent = take k (applyEntries n) \<or> sent = applyEntries n)"
    using app by (auto simp: applyCommitted_def applyLoop_deliver_result Let_def split: if_splits option.splits)
  then have "e \<in> set (applyEntries n)" using e by (auto dest: in_set_takeD)
  then have e: "e \<in> set (log_entries (nd_log n))" "e_Index e < commitIndex n + 1"
    by (auto simp: applyEntries_def log_Slice_entries [OF plain_log_wf [OF log]] split: if_splits)
  have "commitIndex n \<noteq> - 1" using c log by (auto simp: plain_log_def unsigned_minus_1_eq_mask mask_eq_exp_minus_1)
  then have le: "unat (e_Index e) \<le> unat (commitIndex n)" using e(2) by (simp add: word_less_nat_alt unat_u64_Suc)
  obtain k where k: "k < length (log_entries (nd_log n))" "log_entries (nd_log n) ! k = e" using e(1) by (auto simp: in_set_conv_nth)
  then have "unat (e_Index e) = k + 1" using log_wfD(2) [OF plain_log_wf [OF log] k(1)] log by (simp add: plain_log_def)
  then show "unat (e_Index e) - 1 < length (committed_entries n)" and "committed_entries n ! (unat (e_Index e) - 1) = e"
    using k le by (simp_all add: committed_entries_def)
qed

text \<open>
  C2: State machine safety. In a cluster of odd size whose logs are not compacted, an entry that one node hands
  to its state machine and an entry with the same index that a node hands over then or at any later time are
  the same entry: nodes apply the same commands in the same order.
\<close>
theorem state_machine_safety:
  assumes "cluster_config ids peers route" and "odd (length ids)" and "\<forall>i \<in> set ids. i \<notin> set (peers i)"
    and "(uncompacted_step ids route)\<^sup>*\<^sup>* (cluster_init peers) s" and "(uncompacted_step ids route)\<^sup>*\<^sup>* s s'"
    and "i \<in> set ids" and "j \<in> set ids"
    and "applyCommitted stop (cl_nodes s i) = (n, sent)" and "applyCommitted stop' (cl_nodes s' j) = (n', sent')"
    and "e \<in> set sent" and "e' \<in> set sent'" and "e_Index e = e_Index e'"
  shows "e = e'"
proof -
  obtain a a' where a: "cluster_sim ids peers route s a" "cluster_sim ids peers route s' a'" using run_abstract [OF assms(1-5)] by blast
  note i = sim_log(2,3) [OF a(1) assms(6)] and j = sim_log(2,3) [OF a(2) assms(7)]
  note e = applied_committed [OF i(1) safe_commit_length [OF i(2)] assms(8,10)]
    and e' = applied_committed [OF j(1) safe_commit_length [OF j(2)] assms(9,11)]
  from committed_entries_agree [OF assms(1-7)] e e' assms(12) show ?thesis by (auto simp: prefix_def nth_append)
qed

section \<open>A run that commits\<close>

text \<open>
  Three nodes: \<open>a\<close> is elected by \<open>b\<close>, takes a command, replicates it to \<open>b\<close>, commits it on the reply, and \<open>b\<close>
  learns the commit index from the next message.
\<close>

definition node3 :: "string \<Rightarrow> NodeState \<Rightarrow> u64 \<Rightarrow> string \<Rightarrow> string \<Rightarrow> Entry list \<Rightarrow> u64 \<Rightarrow> Node" where
  "node3 i st t v ldr es ci = (raft_New (raft_DefaultConfig i (peers3 i)))
     \<lparr>nd_state := st, currentTerm := t, votedFor := v, leaderID := ldr, commitIndex := ci,
      nd_log := \<lparr>log_entries = es, snapIndex = 0, snapTerm = 0\<rparr>\<rparr>"

definition cmd3 :: Entry where
  "cmd3 = \<lparr>e_Index = 1, e_Term = 1, e_Command = [7]\<rparr>"

definition append3 :: "u64 \<Rightarrow> u64 \<Rightarrow> Entry list \<Rightarrow> u64 \<Rightarrow> AppendEntriesArgs" where
  "append3 p t es c = \<lparr>ae_Term = 1, ae_LeaderID = ''a'', ae_PrevLogIndex = p, ae_PrevLogTerm = t, ae_Entries = es, ae_LeaderCommit = c\<rparr>"

definition leads3 :: "Entry list \<Rightarrow> u64 \<Rightarrow> u64 \<Rightarrow> u64 \<Rightarrow> bool \<Rightarrow> Node" where
  "leads3 es m own ci sig = (node3 ''a'' Leader 1 ''a'' ''a'' es ci)
     \<lparr>nextIndex := [(''b'', m + 1), (''c'', 1)], matchIndex := [(''b'', m), (''c'', 0), (''a'', own)], heartbeatSig := True, applySig := sig\<rparr>"

definition follows3 :: "string \<Rightarrow> Entry list \<Rightarrow> u64 \<Rightarrow> bool \<Rightarrow> Node" where
  "follows3 ldr es ci sig = (node3 ''b'' Follower 1 ''a'' ldr es ci)\<lparr>electionReset := True, applySig := sig\<rparr>"

definition ack3 :: AppendEntriesReply where
  "ack3 = \<lparr>aer_Term = 1, aer_Success = True, aer_ConflictIndex = 0, aer_ConflictTerm = 0\<rparr>"

definition poll3 :: election where
  "poll3 = \<lparr>el_term = 1, el_votes = 1, el_quorum = 2, el_once = False\<rparr>"

definition ask3 :: RequestVoteArgs where
  "ask3 = \<lparr>rv_Term = 1, rv_CandidateID = ''a'', rv_LastLogIndex = 0, rv_LastLogTerm = 0\<rparr>"

lemma u64_two_not_le: "\<not> (2 :: u64) \<le> 1"
  by (simp add: word_le_nat_alt)

lemmas run3_defs = u64_two_not_le node3_def cmd3_def append3_def leads3_def follows3_def ack3_def raft_New_def raft_DefaultConfig_def peers3_def ids3_def
  log_Term_def lastIndex_def lastTerm_def log_Append_def log_Slice_def signalApply_def signalElectionReset_def becomeFollower_def newRaftLog_def

lemma run3_starts: "cl_nodes (cluster_init peers3) i = node3 i Follower 0 '''' '''' [] 0"
  by (simp add: cluster_init_def run3_defs)

lemma run3_stands: "startElection (node3 ''a'' Follower 0 '''' '''' [] 0) = (node3 ''a'' Candidate 1 ''a'' '''' [] 0, Some (poll3, ask3))"
  by (simp add: startElection_def electionQuorum_def poll3_def ask3_def run3_defs)

lemma run3_votes: "HandleRequestVote (node3 ''b'' Follower 0 '''' '''' [] 0) ask3 = (follows3 '''' [] 0 False, \<lparr>rvr_Term = 1, rvr_VoteGranted = True\<rparr>)"
  by (simp add: HandleRequestVote_def logUpToDate_def ask3_def run3_defs)

lemma run3_wins: "handleVoteReply poll3 (node3 ''a'' Candidate 1 ''a'' '''' [] 0) \<lparr>rvr_Term = 1, rvr_VoteGranted = True\<rparr> =
    (poll3\<lparr>el_votes := 2, el_once := True\<rparr>, leads3 [] 0 0 0 False)"
  by (simp add: handleVoteReply_def poll3_def becomeLeader_def run3_defs)

lemma run3_proposes: "Propose (leads3 [] 0 0 0 False) [7] = (leads3 [cmd3] 0 1 0 False, Inr ())"
  by (simp add: Propose_def advanceCommitIndex_def run3_defs)

lemma run3_sends: "replicateTo_send (leads3 [cmd3] 0 1 0 False) ''b'' = SendEntries (append3 0 0 [cmd3] 0)"
  "replicateTo_send (leads3 [cmd3] 1 1 1 True) ''b'' = SendEntries (append3 1 1 [] 1)"
  by (simp_all add: replicateTo_send_def gm_get_def run3_defs)

lemma run3_appends: "HandleAppendEntries (follows3 '''' [] 0 False) (append3 0 0 [cmd3] 0) = (follows3 ''a'' [cmd3] 0 False, ack3)"
  "HandleAppendEntries (follows3 ''a'' [cmd3] 0 False) (append3 1 1 [] 1) = (follows3 ''a'' [cmd3] 1 True, ack3)"
  by (simp_all add: HandleAppendEntries_def run3_defs)

lemma run3_commits: "replicateTo_reply (leads3 [cmd3] 0 1 0 False) ''b'' (append3 0 0 [cmd3] 0) ack3 = leads3 [cmd3] 1 1 1 True"
  by (simp add: replicateTo_reply_def advanceCommitIndex_def gm_get_def run3_defs)

lemma run3_applies: "snd (applyCommitted None (leads3 [cmd3] 1 1 1 True)) = [cmd3]" "snd (applyCommitted None (follows3 ''a'' [cmd3] 1 True)) = [cmd3]"
  by (simp_all add: applyCommitted_def applyEntries_def applyCompact_def compactThreshold_def log_Len_def run3_defs)

definition at3 :: "cluster \<Rightarrow> Node \<Rightarrow> Node \<Rightarrow> bool" where
  "at3 s na nb \<longleftrightarrow> (uncompacted_step ids3 id)\<^sup>*\<^sup>* (cluster_init peers3) s \<and> cl_nodes s ''a'' = na \<and> cl_nodes s ''b'' = nb \<and>
     cl_nodes s ''c'' = node3 ''c'' Follower 0 '''' '''' [] 0"

definition short_log :: "Node \<Rightarrow> bool" where
  "short_log n \<longleftrightarrow> snapIndex (nd_log n) = 0 \<and> length (log_entries (nd_log n)) \<le> 1"

lemma at3_step:
  assumes "at3 s na nb" and "cluster_step ids3 id s s'" and "cl_nodes s' ''a'' = na'" and "cl_nodes s' ''b'' = nb'"
    and "cl_nodes s' ''c'' = cl_nodes s ''c''" and "short_log na'" and "short_log nb'"
  shows "at3 s' na' nb'"
proof -
  have "uncompacted_step ids3 id s s'"
    using assms by (auto simp: uncompacted_step_def uncompacted_def at3_def short_log_def ids3_def node3_def)
  then show ?thesis using assms(1,3-5) by (auto simp: at3_def intro: rtranclp.rtrancl_into_rtrancl)
qed

lemma short_log3 [simp]: "short_log (node3 i st t v l [] ci)" "short_log (leads3 [] m k ci b)" "short_log (leads3 [cmd3] m k ci b)"
  "short_log (follows3 l [] ci b)" "short_log (follows3 l [cmd3] ci b)"
  by (simp_all add: short_log_def leads3_def follows3_def node3_def)

lemma peers_run3 [simp]: "nd_peers (node3 ''a'' st t v l es ci) = [''b'', ''c'']" "nd_peers (leads3 es m k ci b) = [''b'', ''c'']"
  by (simp_all add: leads3_def node3_def raft_New_def raft_DefaultConfig_def peers3_def ids3_def)

lemma run3_elected: "\<exists>s. at3 s (leads3 [] 0 0 0 False) (follows3 '''' [] 0 False)"
proof -
  let ?s0 = "cluster_init peers3" and ?a = "node3 ''a'' Candidate 1 ''a'' '''' [] 0" and ?yes = "\<lparr>rvr_Term = 1, rvr_VoteGranted = True\<rparr>"
  have s0: "at3 ?s0 (node3 ''a'' Follower 0 '''' '''' [] 0) (node3 ''b'' Follower 0 '''' '''' [] 0)" by (simp add: at3_def run3_starts)
  define s1 where "s1 = (set_node ''a'' ?a ?s0)\<lparr>cl_elections := (cl_elections ?s0)((''a'', el_term poll3) := Some poll3),
    cl_votereqs := insert ask3 (cl_votereqs ?s0)\<rparr>"
  have "cluster_step ids3 id ?s0 s1"
    unfolding s1_def by (rule election_timeout) (simp_all add: ids3_def run3_starts run3_stands, simp add: node3_def)
  then have s1: "at3 s1 ?a (node3 ''b'' Follower 0 '''' '''' [] 0)" by (rule at3_step [OF s0]) (simp_all add: s1_def set_node_def run3_starts)
  define s2 where "s2 = (set_node ''b'' (follows3 '''' [] 0 False) s1)\<lparr>cl_votereps := insert (''b'', rv_CandidateID ask3, rv_Term ask3, ?yes) (cl_votereps s1)\<rparr>"
  have ask: "rv_CandidateID ask3 = ''a''" "rv_Term ask3 = 1" "ask3 \<in> cl_votereqs s1" by (simp_all add: ask3_def s1_def)
  have "cluster_step ids3 id s1 s2"
    unfolding s2_def by (rule deliver_vote_request [where p = "''b''"]) (use s1 ask in \<open>simp_all add: at3_def run3_votes\<close>)
  then have s2: "at3 s2 ?a (follows3 '''' [] 0 False)" by (rule at3_step [OF s1]) (use s1 in \<open>simp_all add: at3_def s2_def set_node_def\<close>)
  have el: "cl_elections s2 (''a'', 1) = Some poll3" "(''b'', ''a'', 1, ?yes) \<in> cl_votereps s2" "cl_counted s2 (''a'', 1) = {}"
    using ask by (simp_all add: s2_def s1_def set_node_def poll3_def cluster_init_def)
  let ?s3 = "(elect_node ''a'' 1 (poll3\<lparr>el_votes := 2, el_once := True\<rparr>) (leads3 [] 0 0 0 False) s2)
    \<lparr>cl_counted := (cl_counted s2)((''a'', 1) := insert ''b'' (cl_counted s2 (''a'', 1)))\<rparr>"
  have "cluster_step ids3 id s2 ?s3"
    by (rule vote_reply [where j = "''b''" and reply = ?yes, OF _ el(2) _ _ _ el(1)]) (use s2 el in \<open>simp_all add: at3_def run3_wins ids3_def\<close>)
  then have "at3 ?s3 (leads3 [] 0 0 0 False) (follows3 '''' [] 0 False)"
    by (rule at3_step [OF s2]) (use s2 in \<open>simp_all add: at3_def elect_node_def set_node_def\<close>)
  then show ?thesis by blast
qed

text \<open>The leader sends a message, and the follower handles it.\<close>

lemma run3_round:
  assumes s: "at3 s (leads3 es m k ci b) nb" and send: "replicateTo_send (leads3 es m k ci b) ''b'' = SendEntries args"
    and handle: "HandleAppendEntries nb args = (nb', ack3)" and "short_log (leads3 es m k ci b)" "short_log nb" "short_log nb'"
  shows "\<exists>s'. at3 s' (leads3 es m k ci b) nb' \<and> (''b'', args, ack3) \<in> cl_aereps s'"
proof -
  define s1 where "s1 = s\<lparr>cl_aereqs := insert (''b'', args) (cl_aereqs s)\<rparr>"
  have "cluster_step ids3 id s s1"
    unfolding s1_def by (rule replicate_send [where i = "''a''" and p = "''b''"]) (use s send in \<open>simp_all add: at3_def ids3_def\<close>)
  then have s1: "at3 s1 (leads3 es m k ci b) nb" by (rule at3_step [OF s]) (use s assms(4,5) in \<open>simp_all add: at3_def s1_def\<close>)
  let ?s2 = "(set_node ''b'' nb' s1)\<lparr>cl_aereps := insert (''b'', args, ack3) (cl_aereps s1)\<rparr>"
  have "cluster_step ids3 id s1 ?s2" by (rule deliver_append_entries) (use s1 handle in \<open>simp_all add: at3_def s1_def\<close>)
  then have "at3 ?s2 (leads3 es m k ci b) nb'"
    by (rule at3_step [OF s1]) (use s1 assms(4,6) in \<open>simp_all add: at3_def set_node_def\<close>)
  then show ?thesis by (intro exI [of _ ?s2]) simp
qed

lemma run3_committed: "\<exists>s. at3 s (leads3 [cmd3] 1 1 1 True) (follows3 ''a'' [cmd3] 1 True)"
proof -
  obtain s0 where s0: "at3 s0 (leads3 [] 0 0 0 False) (follows3 '''' [] 0 False)" using run3_elected by blast
  let ?s1 = "set_node ''a'' (leads3 [cmd3] 0 1 0 False) s0"
  have "cluster_step ids3 id s0 ?s1" by (rule client_propose [where command = "[7]"]) (use s0 in \<open>simp_all add: at3_def ids3_def run3_proposes\<close>)
  then have "at3 ?s1 (leads3 [cmd3] 0 1 0 False) (follows3 '''' [] 0 False)"
    by (rule at3_step [OF s0]) (use s0 in \<open>simp_all add: at3_def set_node_def\<close>)
  from run3_round [OF this run3_sends(1) run3_appends(1)] obtain s2 where
    s2: "at3 s2 (leads3 [cmd3] 0 1 0 False) (follows3 ''a'' [cmd3] 0 False)" "(''b'', append3 0 0 [cmd3] 0, ack3) \<in> cl_aereps s2" by auto
  let ?s3 = "set_node ''a'' (replicateTo_reply (cl_nodes s2 ''a'') ''b'' (append3 0 0 [cmd3] 0) ack3) s2"
  have "cluster_step ids3 id s2 ?s3"
    by (rule append_entries_reply [OF _ s2(2)]) (use s2(1) in \<open>simp_all add: at3_def ids3_def append3_def\<close>)
  then have "at3 ?s3 (leads3 [cmd3] 1 1 1 True) (follows3 ''a'' [cmd3] 0 False)"
    by (rule at3_step [OF s2(1)]) (use s2(1) in \<open>simp_all add: at3_def set_node_def run3_commits\<close>)
  from run3_round [OF this run3_sends(2) run3_appends(2)] show ?thesis by auto
qed

lemma self3: "\<forall>i \<in> set ids3. i \<notin> set (peers3 i)" and odd3: "odd (length ids3)"
  by (simp_all add: peers3_def ids3_def)

theorem log_matching_witness:
  "\<exists>s. (uncompacted_step ids3 id)\<^sup>*\<^sup>* (cluster_init peers3) s \<and> log_entries (nd_log (cl_nodes s ''a'')) = [cmd3] \<and>
     take (Suc 0) (log_entries (nd_log (cl_nodes s ''a''))) = take (Suc 0) (log_entries (nd_log (cl_nodes s ''b'')))"
proof -
  obtain s where s: "at3 s (leads3 [cmd3] 1 1 1 True) (follows3 ''a'' [cmd3] 1 True)" using run3_committed by blast
  then have run: "(uncompacted_step ids3 id)\<^sup>*\<^sup>* (cluster_init peers3) s"
    and logs: "log_entries (nd_log (cl_nodes s ''a'')) = [cmd3]" "log_entries (nd_log (cl_nodes s ''b'')) = [cmd3]"
    by (simp_all add: at3_def leads3_def follows3_def node3_def)
  from log_matching [OF config3 odd3 self3 run, of "''a''" "''b''" 0] run logs show ?thesis by (auto simp: ids3_def)
qed

theorem leaders_keep_committed_witness:
  "\<exists>s. (uncompacted_step ids3 id)\<^sup>*\<^sup>* (cluster_init peers3) s \<and> nd_state (cl_nodes s ''a'') = Leader \<and>
     committed_entries (cl_nodes s ''b'') = [cmd3] \<and> prefix (committed_entries (cl_nodes s ''b'')) (log_entries (nd_log (cl_nodes s ''a'')))"
proof -
  obtain s where s: "at3 s (leads3 [cmd3] 1 1 1 True) (follows3 ''a'' [cmd3] 1 True)" using run3_committed by blast
  then have run: "(uncompacted_step ids3 id)\<^sup>*\<^sup>* (cluster_init peers3) s"
    and nodes: "nd_state (cl_nodes s ''a'') = Leader" "currentTerm (cl_nodes s ''b'') \<le> currentTerm (cl_nodes s ''a'')"
      "committed_entries (cl_nodes s ''b'') = [cmd3]"
    by (simp_all add: at3_def leads3_def follows3_def node3_def committed_entries_def)
  from leaders_keep_committed [OF config3 odd3 self3 run rtranclp.rtrancl_refl _ _ nodes(1,2)] run nodes show ?thesis
    by (auto simp: ids3_def)
qed

theorem state_machine_safety_witness:
  "\<exists>s e e'. (uncompacted_step ids3 id)\<^sup>*\<^sup>* (cluster_init peers3) s \<and> e \<in> set (snd (applyCommitted None (cl_nodes s ''a''))) \<and>
     e' \<in> set (snd (applyCommitted None (cl_nodes s ''b''))) \<and> e = e'"
proof -
  obtain s where s: "at3 s (leads3 [cmd3] 1 1 1 True) (follows3 ''a'' [cmd3] 1 True)" using run3_committed by blast
  then have run: "(uncompacted_step ids3 id)\<^sup>*\<^sup>* (cluster_init peers3) s"
    and app: "snd (applyCommitted None (cl_nodes s ''a'')) = [cmd3]" "snd (applyCommitted None (cl_nodes s ''b'')) = [cmd3]"
    by (simp_all add: at3_def run3_applies)
  obtain n sent n' sent' where sent: "applyCommitted None (cl_nodes s ''a'') = (n, sent)" "applyCommitted None (cl_nodes s ''b'') = (n', sent')"
    by (metis surj_pair)
  obtain e e' where e: "e \<in> set sent" "e' \<in> set sent'" "e_Index e = e_Index e'" using app sent by auto
  have "e = e'" by (rule state_machine_safety [OF config3 odd3 self3 run rtranclp.rtrancl_refl _ _ sent e]) (simp_all add: ids3_def)
  with run sent e show ?thesis by (intro exI [of _ s] exI [of _ e] exI [of _ e']) simp
qed

end
