(* ===== verification/Wal_Entry.thy ===== *)
theory Wal_Entry
  imports VaultFS_Prelude
begin

text \<open>
  Records of the write-ahead log (\<^verbatim>\<open>internal/wal/entry.go\<close>): little-endian fields, the CRC-32 of
  \<^verbatim>\<open>hash/crc32\<close> (IEEE polynomial, reflected), \<^verbatim>\<open>Encode\<close> and \<^verbatim>\<open>Decode\<close>.

  A reader is the rest of a byte sequence together with the number of bytes that can be read
  before the device reports an error, if it does.
\<close>

unbundle bit_operations_syntax

section \<open>Little-endian integers\<close>

fun le_put :: "nat \<Rightarrow> 'a::len word \<Rightarrow> bytes" where
  "le_put 0 x = []"
| "le_put (Suc n) x = ucast x # le_put n (drop_bit 8 x)"

fun le_get :: "bytes \<Rightarrow> 'a::len word" where
  "le_get [] = 0"
| "le_get (b # bs) = ucast b OR push_bit 8 (le_get bs)"

definition PutUint64 :: "u64 \<Rightarrow> bytes" where
  "PutUint64 x = le_put 8 x"

definition PutUint32 :: "32 word \<Rightarrow> bytes" where
  "PutUint32 x = le_put 4 x"

definition Uint64 :: "bytes \<Rightarrow> u64" where
  "Uint64 bs = le_get (take 8 bs)"

definition Uint32 :: "bytes \<Rightarrow> 32 word" where
  "Uint32 bs = le_get (take 4 bs)"

lemma length_le_put [simp]: "length (le_put n x) = n"
  by (induction n x rule: le_put.induct) simp_all

lemma le_get_le_put: "le_get (le_put n x) = take_bit (8 * n) (x :: 'a::len word)"
proof (induction n arbitrary: x)
  case (Suc n)
  show ?case
    by (rule bit_word_eqI)
      (auto simp: Suc bit_simps)
qed simp

lemma Uint64_PutUint64 [simp]: "Uint64 (PutUint64 x @ bs) = x"
  by (simp add: Uint64_def PutUint64_def le_get_le_put take_bit_word_eq_self)

lemma Uint32_PutUint32 [simp]: "Uint32 (PutUint32 x @ bs) = x"
  by (simp add: Uint32_def PutUint32_def le_get_le_put take_bit_word_eq_self)

lemma length_PutUint [simp]: "length (PutUint64 x) = 8" "length (PutUint32 y) = 4"
  by (simp_all add: PutUint64_def PutUint32_def)

section \<open>CRC-32\<close>

definition crc_poly :: "32 word" where
  "crc_poly = 0xEDB88320"

definition crc_shift :: "32 word \<Rightarrow> 32 word" where
  "crc_shift c = (if bit c 0 then drop_bit 1 c XOR crc_poly else drop_bit 1 c)"

definition crc_byte :: "32 word \<Rightarrow> byte \<Rightarrow> 32 word" where
  "crc_byte c b = (crc_shift ^^ 8) (c XOR ucast b)"

definition ChecksumIEEE :: "bytes \<Rightarrow> 32 word" where
  "ChecksumIEEE bs = NOT (foldl crc_byte (NOT 0) bs)"

lemma crc_byte_unfold:
  "crc_byte c b = crc_shift (crc_shift (crc_shift (crc_shift (crc_shift (crc_shift (crc_shift (crc_shift
     (c XOR ucast b))))))))"
  by (simp add: crc_byte_def eval_nat_numeral)

text \<open>The check value of this CRC, for the digits 1 to 9.\<close>

lemma ChecksumIEEE_check: "ChecksumIEEE [0x31, 0x32, 0x33, 0x34, 0x35, 0x36, 0x37, 0x38, 0x39] = 0xCBF43926"
  by (simp add: ChecksumIEEE_def crc_byte_unfold crc_shift_def crc_poly_def)

text \<open>
  The register update is injective: the top bit of a shifted register tells which bit was
  shifted out.
\<close>

lemma word_xor_cancel:
  fixes a b p :: "'a::len word"
  shows "a XOR p = b XOR p \<longleftrightarrow> a = b" and "p XOR a = p XOR b \<longleftrightarrow> a = b"
proof -
  show r: "a XOR p = b XOR p \<longleftrightarrow> a = b" for a b p :: "'a word"
  proof
    assume "a XOR p = b XOR p"
    then have "(a XOR p) XOR p = (b XOR p) XOR p" by simp
    then show "a = b" by (simp add: xor.assoc)
  qed simp
  show "p XOR a = p XOR b \<longleftrightarrow> a = b"
    using r [of a p b] by (simp add: xor.commute)
qed

lemma crc_shift_top: "bit (crc_shift c) 31 = bit c 0"
  using bit_imp_le_length [of c 32] by (auto simp: crc_shift_def bit_simps crc_poly_def)

lemma crc_shift_inj:
  assumes eq: "crc_shift c = crc_shift d"
  shows "c = d"
proof (rule bit_word_eqI)
  have par: "bit c 0 = bit d 0"
    using eq crc_shift_top [of c] crc_shift_top [of d] by simp
  with eq have "drop_bit 1 c = drop_bit 1 d"
    by (auto simp: crc_shift_def word_xor_cancel split: if_splits)
  then have "bit (drop_bit 1 c) n = bit (drop_bit 1 d) n" for n by simp
  then have "bit c (Suc n) = bit d (Suc n)" for n by (simp add: bit_drop_bit_eq)
  with par show "bit c n = bit d n" for n by (cases n) simp_all
qed

lemma crc_shift_pow_inj: "(crc_shift ^^ n) c = (crc_shift ^^ n) d \<Longrightarrow> c = d"
proof (induction n)
  case (Suc n)
  then have "crc_shift ((crc_shift ^^ n) c) = crc_shift ((crc_shift ^^ n) d)" by simp
  from Suc.IH [OF crc_shift_inj [OF this]] show ?case .
qed simp

lemma crc_byte_inj: "crc_byte c b = crc_byte d b \<Longrightarrow> c = d" "crc_byte c a = crc_byte c b \<Longrightarrow> a = b"
proof -
  show "c = d" if "crc_byte c b = crc_byte d b"
    using crc_shift_pow_inj [of 8 "c XOR ucast b" "d XOR ucast b"] that
    by (simp add: crc_byte_def word_xor_cancel)
  show "a = b" if "crc_byte c a = crc_byte c b"
  proof -
    have "(ucast a :: 32 word) = ucast b"
      using crc_shift_pow_inj [of 8 "c XOR ucast a" "c XOR ucast b"] that
      by (simp add: crc_byte_def word_xor_cancel)
    then have "(ucast (ucast a :: 32 word) :: byte) = ucast (ucast b :: 32 word)" by simp
    then show ?thesis by (simp add: ucast_up_ucast_id is_up)
  qed
qed

lemma crc_fold_inj: "foldl crc_byte c bs = foldl crc_byte d bs \<Longrightarrow> c = d"
proof (induction bs arbitrary: c d)
  case (Cons b bs)
  then have "crc_byte c b = crc_byte d b" by simp
  then show ?case by (rule crc_byte_inj(1))
qed simp

lemma crc_single_byte:
  assumes "a \<noteq> b"
  shows "ChecksumIEEE (pre @ a # post) \<noteq> ChecksumIEEE (pre @ b # post)"
proof
  assume "ChecksumIEEE (pre @ a # post) = ChecksumIEEE (pre @ b # post)"
  then have "crc_byte (foldl crc_byte (NOT 0) pre) a = crc_byte (foldl crc_byte (NOT 0) pre) b"
    using crc_fold_inj [of _ post] by (simp add: ChecksumIEEE_def)
  with assms show False using crc_byte_inj(2) by blast
qed

section \<open>Records\<close>

record wal_Entry =
  we_Index :: u64
  we_Data :: bytes

definition maxPayloadSize :: nat where
  "maxPayloadSize = 128 * 1024 * 1024"

datatype decode_error = EOF | ErrUnexpectedEOF | ErrChecksumMismatch | PayloadTooLarge u64 | PayloadTooSmall u64

definition entry_payload :: "wal_Entry \<Rightarrow> bytes" where
  "entry_payload e = PutUint64 (we_Index e) @ we_Data e"

definition entry_header :: "wal_Entry \<Rightarrow> bytes" where
  "entry_header e = PutUint64 (of_nat (length (entry_payload e))) @ PutUint32 (ChecksumIEEE (entry_payload e))"

text \<open>
  \<^verbatim>\<open>Encode\<close> writes header and payload with two calls of the writer it is given; \<open>write\<close> returns the
  writer's next state and whether it failed.
\<close>

definition Encode :: "('w \<Rightarrow> bytes \<Rightarrow> 'w \<times> bool) \<Rightarrow> wal_Entry \<Rightarrow> 'w \<Rightarrow> 'w \<times> bool" where
  "Encode write e w =
     (case write w (entry_header e) of
        (w1, True) \<Rightarrow> (w1, True)
      | (w1, False) \<Rightarrow>
          (case write w1 (entry_payload e) of
             (w2, True) \<Rightarrow> (w2, True)
           | (w2, False) \<Rightarrow> (w2, False)))"

text \<open>\<^verbatim>\<open>bytes.Buffer\<close> appends and does not fail.\<close>

definition buffer_write :: "bytes \<Rightarrow> bytes \<Rightarrow> bytes \<times> bool" where
  "buffer_write buf p = (buf @ p, False)"

definition encoded :: "wal_Entry \<Rightarrow> bytes" where
  "encoded e = fst (Encode buffer_write e [])"

definition encodedSize :: "nat \<Rightarrow> nat" where
  "encodedSize dataLen = 8 + 4 + 8 + dataLen"

record reader =
  rd_bytes :: bytes
  rd_fault :: "nat option"

datatype read_result = ReadOk bytes reader | ReadEOF | ReadShort | ReadFailed

definition ReadFull :: "reader \<Rightarrow> nat \<Rightarrow> read_result" where
  "ReadFull r n =
     (let len = length (rd_bytes r)
      in if n \<le> len \<and> (case rd_fault r of None \<Rightarrow> True | Some k \<Rightarrow> n \<le> k)
         then ReadOk (take n (rd_bytes r))
                \<lparr>rd_bytes = drop n (rd_bytes r), rd_fault = map_option (\<lambda>k. k - n) (rd_fault r)\<rparr>
         else if (case rd_fault r of None \<Rightarrow> False | Some k \<Rightarrow> k < len) then ReadFailed
         else if len = 0 then ReadEOF else ReadShort)"

definition Decode :: "reader \<Rightarrow> decode_error + (wal_Entry \<times> reader)" where
  "Decode r =
     (case ReadFull r 12 of
        ReadEOF \<Rightarrow> Inl EOF
      | ReadShort \<Rightarrow> Inl ErrUnexpectedEOF
      | ReadFailed \<Rightarrow> Inl ErrUnexpectedEOF
      | ReadOk header r1 \<Rightarrow>
          let payloadLen = Uint64 (take 8 header); storedCRC = Uint32 (drop 8 header)
          in if unat payloadLen > maxPayloadSize then Inl (PayloadTooLarge payloadLen)
             else if unat payloadLen < 8 then Inl (PayloadTooSmall payloadLen)
             else (case ReadFull r1 (unat payloadLen) of
                     ReadOk payload r2 \<Rightarrow>
                       if ChecksumIEEE payload \<noteq> storedCRC then Inl ErrChecksumMismatch
                       else Inr (\<lparr>we_Index = Uint64 (take 8 payload), we_Data = drop 8 payload\<rparr>, r2)
                   | _ \<Rightarrow> Inl ErrUnexpectedEOF))"

definition plain_reader :: "bytes \<Rightarrow> reader" where
  "plain_reader bs = \<lparr>rd_bytes = bs, rd_fault = None\<rparr>"

lemma encoded_eq: "encoded e = entry_header e @ entry_payload e"
  by (simp add: encoded_def Encode_def buffer_write_def)

lemma length_entry [simp]:
  "length (entry_header e) = 12" "length (entry_payload e) = 8 + length (we_Data e)"
  by (simp_all add: entry_header_def entry_payload_def)

lemma length_encoded: "length (encoded e) = encodedSize (length (we_Data e))"
  by (simp add: encoded_eq encodedSize_def)

lemma ReadFull_plain [simp]:
  "ReadFull (plain_reader bs) n = (if n \<le> length bs then ReadOk (take n bs) (plain_reader (drop n bs))
     else if bs = [] then ReadEOF else ReadShort)"
  by (simp add: ReadFull_def plain_reader_def)

lemma header_fields:
  "take 8 (entry_header e @ bs) = PutUint64 (of_nat (length (entry_payload e)))"
  "take 4 (drop 8 (entry_header e @ bs)) = PutUint32 (ChecksumIEEE (entry_payload e))"
  by (simp_all add: entry_header_def)

lemma Uint_take [simp]: "Uint64 (take 8 bs) = Uint64 bs" "Uint32 (take 4 bs) = Uint32 bs"
  by (simp_all add: Uint64_def Uint32_def)

section \<open>Decoding\<close>

lemma le_put_le_get:
  "8 * length bs \<le> LENGTH('a) \<Longrightarrow> le_put (length bs) (le_get bs :: 'a::len word) = bs"
proof (induction bs)
  case (Cons b bs)
  have "ucast (ucast b OR push_bit 8 (le_get bs) :: 'a word) = b"
    using Cons.prems by (intro bit_word_eqI) (auto simp: bit_simps)
  moreover have "drop_bit 8 (ucast b OR push_bit 8 (le_get bs) :: 'a word) = take_bit (LENGTH('a) - 8) (le_get bs)"
    by (rule bit_word_eqI) (auto simp: bit_simps dest: bit_imp_le_length)
  moreover have "take_bit (LENGTH('a) - 8) (le_get bs :: 'a word) = le_get bs"
  proof -
    have "le_get bs = (take_bit (8 * length bs) (le_get bs) :: 'a word)"
      using le_get_le_put [of "length bs" "le_get bs :: 'a word"] Cons by simp
    then show ?thesis
      using Cons.prems by (metis (no_types, lifting) Nat.le_diff_conv2 add.commute add_leD1 length_Cons
          mult_Suc_right min.absorb2 take_bit_take_bit)
  qed
  ultimately show ?case using Cons by simp
qed simp

lemma Uint64_take: "8 \<le> n \<Longrightarrow> Uint64 (take n bs) = Uint64 bs"
  by (simp add: Uint64_def)

lemma entry_header_nonempty [simp]: "entry_header e \<noteq> []"
  using length_entry(1) [of e] by (metis list.size(3) zero_neq_numeral)

lemma unat_payload_length:
  "8 + length (we_Data e) < 2 ^ 64 \<Longrightarrow> unat (of_nat (length (entry_payload e)) :: u64) = 8 + length (we_Data e)"
  using unat_u64_of_nat [of "8 + length (we_Data e)"] by simp

text \<open>Decoding bytes that start with the header of a record.\<close>

lemma Decode_header:
  assumes "8 + length (we_Data e) < 2 ^ 64" and "length crc = 4"
  shows "Decode (plain_reader (PutUint64 (of_nat (length (entry_payload e))) @ crc @ bs)) =
    (if maxPayloadSize < 8 + length (we_Data e) then Inl (PayloadTooLarge (of_nat (8 + length (we_Data e))))
     else if length bs < 8 + length (we_Data e) then Inl ErrUnexpectedEOF
     else let payload = take (8 + length (we_Data e)) bs
       in if ChecksumIEEE payload \<noteq> Uint32 crc then Inl ErrChecksumMismatch
          else Inr (\<lparr>we_Index = Uint64 payload, we_Data = drop 8 payload\<rparr>,
                    plain_reader (drop (8 + length (we_Data e)) bs)))"
  using unat_payload_length [OF assms(1)] assms(2)
  by (auto simp: Decode_def Let_def Uint64_PutUint64 [of _ "[]", simplified] Uint64_take not_less)

lemma decode_encoded:
  assumes "8 + length (we_Data e) \<le> maxPayloadSize"
  shows "Decode (plain_reader (encoded e @ rest)) = Inr (e, plain_reader rest)"
proof -
  have lt: "8 + length (we_Data e) < 2 ^ 64"
    using assms by (simp add: maxPayloadSize_def)
  show ?thesis
    using Decode_header [OF lt _, of "PutUint32 (ChecksumIEEE (entry_payload e))" "entry_payload e @ rest"] assms
      Uint32_PutUint32 [of _ "[]"]
    by (simp add: encoded_eq entry_header_def Let_def) (simp add: entry_payload_def)
qed

lemma decode_too_large:
  assumes "maxPayloadSize < 8 + length (we_Data e)" and "8 + length (we_Data e) < 2 ^ 64"
  shows "\<exists>n. Decode (plain_reader (encoded e @ rest)) = Inl (PayloadTooLarge n)"
  using Decode_header [OF assms(2) _, of "PutUint32 (ChecksumIEEE (entry_payload e))" "entry_payload e @ rest"] assms
  by (simp add: encoded_eq entry_header_def)

lemma decode_truncated:
  assumes "8 + length (we_Data e) \<le> maxPayloadSize" and "k < length (encoded e)"
  shows "Decode (plain_reader (take k (encoded e))) = Inl (if k = 0 then EOF else ErrUnexpectedEOF)"
proof (cases "k < 12")
  case True
  then show ?thesis
    using assms(2) by (auto simp: Decode_def encoded_eq)
next
  case False
  have lt: "8 + length (we_Data e) < 2 ^ 64"
    using assms(1) by (simp add: maxPayloadSize_def)
  have "take k (encoded e) = PutUint64 (of_nat (length (entry_payload e))) @
      PutUint32 (ChecksumIEEE (entry_payload e)) @ take (k - 12) (entry_payload e)"
    using False by (simp add: encoded_eq entry_header_def)
  moreover have "k - 12 < 8 + length (we_Data e)"
    using assms(2) False by (simp add: encoded_eq)
  ultimately show ?thesis
    using Decode_header [OF lt _, of "PutUint32 (ChecksumIEEE (entry_payload e))" "take (k - 12) (entry_payload e)"]
      assms(1) False by (simp add: encoded_eq)
qed

lemma Uint32_inj: "length bs = 4 \<Longrightarrow> length cs = 4 \<Longrightarrow> Uint32 bs = Uint32 cs \<Longrightarrow> bs = cs"
  using le_put_le_get [of bs, where 'a = 32] le_put_le_get [of cs, where 'a = 32] by (simp add: Uint32_def)

lemma decode_corrupted:
  assumes size: "8 + length (we_Data e) \<le> maxPayloadSize"
    and k: "8 \<le> k" "k < length (encoded e)" and b: "b \<noteq> encoded e ! k"
  shows "Decode (plain_reader ((encoded e)[k := b] @ rest)) = Inl ErrChecksumMismatch"
proof -
  let ?len = "PutUint64 (of_nat (length (entry_payload e)))" and ?crc = "PutUint32 (ChecksumIEEE (entry_payload e))"
  have lt: "8 + length (we_Data e) < 2 ^ 64"
    using size by (simp add: maxPayloadSize_def)
  have enc: "encoded e = ?len @ ?crc @ entry_payload e"
    by (simp add: encoded_eq entry_header_def)
  show ?thesis
  proof (cases "k < 12")
    case True
    then have i: "k - 8 < 4" using k(1) by simp
    then have upd: "(encoded e)[k := b] = ?len @ ?crc[k - 8 := b] @ entry_payload e"
      using k(1) by (simp add: enc list_update_append)
    have "b \<noteq> ?crc ! (k - 8)"
      using b k(1) i by (simp add: enc nth_append)
    then have "?crc[k - 8 := b] \<noteq> ?crc"
      using i by (simp add: list_update_same_conv)
    then have "Uint32 (?crc[k - 8 := b]) \<noteq> ChecksumIEEE (entry_payload e)"
      using Uint32_inj [of "?crc[k - 8 := b]" ?crc] Uint32_PutUint32 [of _ "[]"] by fastforce
    then show ?thesis
      using Decode_header [OF lt, of "?crc[k - 8 := b]" "entry_payload e @ rest"] size upd by (simp add: Let_def)
  next
    case False
    then have i: "\<not> k < 8" "\<not> k - 8 < 4" "k - 8 - 4 = k - 12" by simp_all
    then have upd: "(encoded e)[k := b] = ?len @ ?crc @ (entry_payload e)[k - 12 := b]"
      by (simp add: enc list_update_append)
    have lt': "k - 12 < length (entry_payload e)"
      using False k(2) by (simp add: enc)
    have "b \<noteq> entry_payload e ! (k - 12)"
      using b i by (simp add: enc nth_append)
    then have "ChecksumIEEE ((entry_payload e)[k - 12 := b]) \<noteq> ChecksumIEEE (entry_payload e)"
      using crc_single_byte [of b "entry_payload e ! (k - 12)" "take (k - 12) (entry_payload e)"
          "drop (Suc (k - 12)) (entry_payload e)"] id_take_nth_drop [OF lt'] upd_conv_take_nth_drop [OF lt', of b]
      by simp
    then show ?thesis
      using Decode_header [OF lt, of ?crc "(entry_payload e)[k - 12 := b] @ rest"] size upd
        Uint32_PutUint32 [of _ "[]"] by (simp add: Let_def)
  qed
qed

section \<open>Properties\<close>

text \<open>
  C14: Encoding round trip. Decoding a reader that starts with the encoding of an entry returns
  the entry and leaves the reader right after it, for every entry whose payload (index and data)
  is at most 128 MiB; the encoding is \<open>encodedSize\<close> bytes long.
\<close>
theorem wal_entry_roundtrip:
  assumes "8 + length (we_Data e) \<le> maxPayloadSize"
  shows "Decode (plain_reader (encoded e @ rest)) = Inr (e, plain_reader rest) \<and>
    length (encoded e) = encodedSize (length (we_Data e))"
  using decode_encoded [OF assms] length_encoded by blast

theorem wal_entry_roundtrip_witness:
  "Decode (plain_reader (encoded \<lparr>we_Index = 7, we_Data = [1, 2, 3]\<rparr> @ [9])) =
     Inr (\<lparr>we_Index = 7, we_Data = [1, 2, 3]\<rparr>, plain_reader [9])"
  using wal_entry_roundtrip [of "\<lparr>we_Index = 7, we_Data = [1, 2, 3]\<rparr>" "[9]"] by (simp add: maxPayloadSize_def)



end
