(* ===== verification/Go_Strings.thy ===== *)
theory Go_Strings
  imports VaultFS_Prelude "HOL-Library.Char_ord" "HOL-Library.List_Lexorder" "HOL-Library.Sublist"
begin

text \<open>
  The parts of \<^verbatim>\<open>strings\<close>, \<^verbatim>\<open>strconv\<close>, \<^verbatim>\<open>fmt\<close> and \<^verbatim>\<open>sort\<close> that the code uses. A string is
  its sequence of bytes, compared byte by byte.
\<close>

section \<open>Prefixes and suffixes\<close>

definition TrimSuffix :: "string \<Rightarrow> string \<Rightarrow> string" where
  "TrimSuffix s suf = (if suffix suf s then take (length s - length suf) s else s)"

definition TrimPrefix :: "string \<Rightarrow> string \<Rightarrow> string" where
  "TrimPrefix s pre = (if prefix pre s then drop (length pre) s else s)"

lemma TrimSuffix_append [simp]: "TrimSuffix (s @ suf) suf = s"
  by (simp add: TrimSuffix_def suffix_def)

section \<open>Decimal numbers\<close>

definition digit_char :: "nat \<Rightarrow> char" where
  "digit_char d = char_of (48 + d)"

definition char_digit :: "char \<Rightarrow> nat option" where
  "char_digit c = (if 48 \<le> (of_char c :: nat) \<and> (of_char c :: nat) \<le> 57 then Some (of_char c - 48) else None)"

fun decimal :: "nat \<Rightarrow> string" where
  "decimal n = (if n < 10 then [digit_char n] else decimal (n div 10) @ [digit_char (n mod 10)])"

declare decimal.simps [simp del]

definition pad_zeros :: "nat \<Rightarrow> string \<Rightarrow> string" where
  "pad_zeros w s = replicate (w - length s) (digit_char 0) @ s"

fun parse_digits :: "nat \<Rightarrow> string \<Rightarrow> nat option" where
  "parse_digits acc [] = Some acc"
| "parse_digits acc (c # cs) =
     (case char_digit c of None \<Rightarrow> None | Some d \<Rightarrow> parse_digits (10 * acc + d) cs)"

text \<open>\<^verbatim>\<open>strconv.ParseUint(s, 10, 64)\<close>; \<open>None\<close> is a syntax or a range error.\<close>

definition ParseUint :: "string \<Rightarrow> u64 option" where
  "ParseUint s = (if s = [] then None
     else case parse_digits 0 s of
       None \<Rightarrow> None | Some n \<Rightarrow> if n < 2 ^ 64 then Some (of_nat n) else None)"

lemma char_digit_digit_char [simp]: "d < 10 \<Longrightarrow> char_digit (digit_char d) = Some d"
  by (simp add: char_digit_def digit_char_def)

lemma digit_char_less_iff: "a < 10 \<Longrightarrow> b < 10 \<Longrightarrow> digit_char a < digit_char b \<longleftrightarrow> a < b"
  by (simp add: digit_char_def less_char_def)

lemma digit_char_inj: "a < 10 \<Longrightarrow> b < 10 \<Longrightarrow> digit_char a = digit_char b \<longleftrightarrow> a = b"
  by (metis char_digit_digit_char option.inject)

lemma parse_digits_append:
  "parse_digits acc (s @ t) = Option.bind (parse_digits acc s) (\<lambda>a. parse_digits a t)"
  by (induction acc s rule: parse_digits.induct) (auto split: option.split)

lemma parse_digits_zeros [simp]: "parse_digits 0 (replicate k (digit_char 0) @ s) = parse_digits 0 s"
  by (induction k) simp_all

lemma parse_decimal: "parse_digits 0 (decimal n) = Some n"
proof (induction n rule: decimal.induct)
  case (1 n)
  then show ?case
    by (subst decimal.simps) (auto simp: parse_digits_append)
qed

lemma parse_padded: "parse_digits 0 (pad_zeros w (decimal n)) = Some n"
  by (simp add: pad_zeros_def parse_decimal)

lemma decimal_nonempty [simp]: "decimal n \<noteq> []"
  by (subst decimal.simps) simp

lemma ParseUint_padded: "ParseUint (pad_zeros w (decimal (unat x))) = Some x"
proof -
  have "unat x < 2 ^ 64" using unsigned_less [of x] by simp
  moreover have "pad_zeros w (decimal (unat x)) \<noteq> []" by (simp add: pad_zeros_def)
  ultimately show ?thesis by (simp add: ParseUint_def parse_padded)
qed

text \<open>Numbers padded to the same width compare like numbers.\<close>

lemma length_decimal: "0 < w \<Longrightarrow> n < 10 ^ w \<Longrightarrow> length (decimal n) \<le> w"
proof (induction n arbitrary: w rule: decimal.induct)
  case (1 n)
  show ?case
  proof (cases "n < 10")
    case False
    then obtain v where v: "w = Suc v" "0 < v"
      using 1(2,3) by (cases w; cases "w = 1") auto
    with 1 False have "length (decimal (n div 10)) \<le> v" by simp
    with False v show ?thesis by (subst decimal.simps) simp
  qed (use 1 in \<open>subst decimal.simps, simp\<close>)
qed

definition digits_value :: "nat list \<Rightarrow> nat" where
  "digits_value ds = foldl (\<lambda>a d. 10 * a + d) 0 ds"

lemma foldl_digits: "foldl (\<lambda>a d. 10 * a + d) a ds = a * 10 ^ length ds + digits_value ds"
proof (induction ds arbitrary: a)
  case (Cons d ds)
  show ?case
    using Cons [of "10 * a + d"] Cons [of d] by (simp add: digits_value_def algebra_simps)
qed (simp add: digits_value_def)

lemma digits_value_Cons: "digits_value (d # ds) = d * 10 ^ length ds + digits_value ds"
  using foldl_digits [of d ds] by (simp add: digits_value_def)

lemma digits_value_bound: "\<forall>d \<in> set ds. d < 10 \<Longrightarrow> digits_value ds < 10 ^ length ds"
proof (induction ds)
  case (Cons d ds)
  then have "d * 10 ^ length ds + digits_value ds < (d + 1) * 10 ^ length ds" by simp
  also have "\<dots> \<le> 10 * 10 ^ length ds"
    using Cons.prems by (intro mult_right_mono) simp_all
  finally show ?case by (simp add: digits_value_Cons)
qed (simp add: digits_value_def)

lemma digits_less_iff:
  assumes "length ds = length es" and "\<forall>d \<in> set ds. d < 10" and "\<forall>d \<in> set es. d < 10"
  shows "map digit_char ds < map digit_char es \<longleftrightarrow> digits_value ds < digits_value es"
  using assms
proof (induction ds es rule: list_induct2)
  case (Cons d ds e es)
  let ?p = "10 ^ length ds :: nat"
  have b: "digits_value ds < ?p" "digits_value es < ?p"
    using Cons digits_value_bound [of ds] digits_value_bound [of es] by auto
  have "digits_value (d # ds) < digits_value (e # es)" if "d < e"
  proof -
    have "d * ?p + digits_value ds < (d + 1) * ?p" using b by simp
    also have "\<dots> \<le> e * ?p" using that by (intro mult_right_mono) simp_all
    finally show ?thesis using Cons.hyps by (simp add: digits_value_Cons)
  qed
  moreover have "digits_value (e # es) < digits_value (d # ds)" if "e < d"
  proof -
    have "e * ?p + digits_value es < (e + 1) * ?p" using b by simp
    also have "\<dots> \<le> d * ?p" using that by (intro mult_right_mono) simp_all
    finally show ?thesis using Cons.hyps by (simp add: digits_value_Cons)
  qed
  ultimately show ?case
    using Cons digit_char_less_iff [of d e] digit_char_inj [of d e]
    by (cases d e rule: linorder_cases) (auto simp: digits_value_Cons)
qed simp

lemma decimal_digits: "\<exists>ds. decimal n = map digit_char ds \<and> (\<forall>d \<in> set ds. d < 10) \<and> digits_value ds = n"
proof (induction n rule: decimal.induct)
  case (1 n)
  show ?case
  proof (cases "n < 10")
    case True
    then show ?thesis by (intro exI [of _ "[n]"]) (simp add: decimal.simps digits_value_def)
  next
    case False
    then obtain ds where ds: "decimal (n div 10) = map digit_char ds" "\<forall>d \<in> set ds. d < 10" "digits_value ds = n div 10"
      using 1 by blast
    have "digits_value (ds @ [n mod 10]) = n"
      using ds(3) by (simp add: digits_value_def)
    with ds False show ?thesis
      by (intro exI [of _ "ds @ [n mod 10]"]) (auto simp: decimal.simps [of n])
  qed
qed

lemma digits_value_zeros: "digits_value (replicate k 0 @ ds) = digits_value ds"
  by (induction k) (simp_all add: digits_value_Cons)

lemma padded_less_iff:
  assumes "m < 10 ^ w" and "n < 10 ^ w" and "0 < w"
  shows "pad_zeros w (decimal m) < pad_zeros w (decimal n) \<longleftrightarrow> m < n"
proof -
  have pad: "\<exists>ds. pad_zeros w (decimal k) = map digit_char ds \<and> length ds = w \<and> (\<forall>d \<in> set ds. d < 10) \<and> digits_value ds = k"
    if "k < 10 ^ w" for k
  proof -
    obtain ds where ds: "decimal k = map digit_char ds" "\<forall>d \<in> set ds. d < 10" "digits_value ds = k"
      using decimal_digits by blast
    have "length ds \<le> w"
      using length_decimal [OF assms(3) that] ds(1) by simp
    with ds show ?thesis
      by (intro exI [of _ "replicate (w - length ds) 0 @ ds"])
        (auto simp: pad_zeros_def digits_value_zeros)
  qed
  from pad [OF assms(1)] pad [OF assms(2)] show ?thesis
    using digits_less_iff by fastforce
qed

end
