(* ===== verification/Go_Files.thy ===== *)
theory Go_Files
  imports VaultFS_Prelude
begin

text \<open>
  Files and crashes, as the write-ahead log and the chunk store see them. A file has the bytes that
  are on stable storage and the bytes written after the last fsync; a crash keeps some prefix of
  the latter.
\<close>

record wal_file =
  wf_synced :: bytes
  wf_pending :: bytes

type_synonym 'path files = "('path, wal_file) gomap"

definition file_bytes :: "wal_file \<Rightarrow> bytes" where
  "file_bytes f = wf_synced f @ wf_pending f"

text \<open>A crash keeps the synced bytes and, per file, some number of the pending ones.\<close>

definition disk_crash :: "('path \<Rightarrow> nat) \<Rightarrow> 'path files \<Rightarrow> 'path files" where
  "disk_crash keep d =
     map (\<lambda>(name, f). (name, \<lparr>wf_synced = wf_synced f @ take (keep name) (wf_pending f), wf_pending = []\<rparr>)) d"

definition append_pending :: "bytes \<Rightarrow> wal_file \<Rightarrow> wal_file" where
  "append_pending p f = f\<lparr>wf_pending := wf_pending f @ p\<rparr>"

definition sync_file :: "wal_file \<Rightarrow> wal_file" where
  "sync_file f = \<lparr>wf_synced = file_bytes f, wf_pending = []\<rparr>"

definition on_file :: "'path \<Rightarrow> (wal_file \<Rightarrow> wal_file) \<Rightarrow> 'path files \<Rightarrow> 'path files" where
  "on_file path g d = (case gm_lookup d path of None \<Rightarrow> d | Some f \<Rightarrow> gm_set path (g f) d)"

lemma disk_crash_lookup:
  "gm_lookup (disk_crash keep d) name = map_option (\<lambda>f.
     \<lparr>wf_synced = wf_synced f @ take (keep name) (wf_pending f), wf_pending = []\<rparr>) (gm_lookup d name)"
  by (induction d) (auto simp: disk_crash_def)

lemma disk_crash_wf: "gm_wf d \<Longrightarrow> gm_wf (disk_crash keep d)"
  by (simp add: gm_wf_def disk_crash_def comp_def case_prod_unfold)

lemma on_file_lookup:
  "gm_lookup (on_file path g d) = (case gm_lookup d path of None \<Rightarrow> gm_lookup d | Some f \<Rightarrow> (gm_lookup d)(path \<mapsto> g f))"
  by (simp add: on_file_def gomap_simps split: option.split)

lemma on_file_wf: "gm_wf d \<Longrightarrow> gm_wf (on_file path g d)"
  by (auto simp: on_file_def split: option.split)

end
