(* ===== verification/Wal.thy ===== *)
theory Wal
  imports Wal_Entry Go_Strings Go_Files
begin

text \<open>
  The write-ahead log (\<^verbatim>\<open>internal/wal/wal.go\<close>, \<^verbatim>\<open>segment.go\<close>, \<^verbatim>\<open>recovery.go\<close>): rolling
  segment files in one directory, appends with an fsync before the acknowledgement, and recovery.

  The directory maps file names to files. Which system calls fail is an argument of the
  operations, so every error return is a branch. Paths are file
  names inside \<^verbatim>\<open>dir\<close>, which \<^verbatim>\<open>filepath.Join\<close> and \<^verbatim>\<open>filepath.Base\<close> add and remove.
\<close>

section \<open>Files and faults\<close>

type_synonym disk = "string files"

record faults =
  ft_open :: "string \<Rightarrow> bool"
  ft_read :: "string \<Rightarrow> nat option"
  ft_openw :: bool
  ft_truncate :: bool
  ft_seek :: bool
  ft_stat :: "string \<Rightarrow> bool"
  ft_create :: bool
  ft_write :: "nat option"
  ft_sync :: bool
  ft_close_sync :: bool
  ft_close :: bool

definition no_faults :: faults where
  "no_faults = \<lparr>ft_open = (\<lambda>_. False), ft_read = (\<lambda>_. None), ft_openw = False, ft_truncate = False,
     ft_seek = False, ft_stat = (\<lambda>_. False), ft_create = False, ft_write = None, ft_sync = False,
     ft_close_sync = False, ft_close = False\<rparr>"

datatype wal_error =
    InvalidSegmentName string
  | OpenFailed string
  | ReplayDecode decode_error
  | OpenSegmentFailed u64
  | TruncateFailed u64
  | SeekFailed u64
  | StatFailed string
  | CreateFailed u64
  | WriteFailed u64
  | SyncFailed u64
  | CloseSyncFailed u64
  | CloseFailed u64

section \<open>segment.go\<close>

record segment =
  sg_id :: u64
  sg_path :: string
  sg_open :: bool
  sg_size :: int

definition segmentPath :: "u64 \<Rightarrow> string" where
  "segmentPath i = pad_zeros 16 (decimal (unat i)) @ ''.wal''"

definition segmentIDFromPath :: "string \<Rightarrow> wal_error + u64" where
  "segmentIDFromPath path =
     (case ParseUint (TrimSuffix path ''.wal'') of
        None \<Rightarrow> Inl (InvalidSegmentName path) | Some i \<Rightarrow> Inr i)"

definition createSegment :: "faults \<Rightarrow> u64 \<Rightarrow> disk \<Rightarrow> disk \<times> (wal_error + segment)" where
  "createSegment ft i d =
     (let path = segmentPath i
      in if ft_create ft \<or> gm_lookup d path \<noteq> None then (d, Inl (CreateFailed i))
         else (gm_set path \<lparr>wf_synced = [], wf_pending = []\<rparr> d,
               Inr \<lparr>sg_id = i, sg_path = path, sg_open = True, sg_size = 0\<rparr>))"

text \<open>
  Truncating keeps the first \<open>validBytes\<close> bytes. (The replay that computed \<open>validBytes\<close> has read
  them, so they do not exceed the file.)
\<close>

definition truncate_file :: "nat \<Rightarrow> wal_file \<Rightarrow> wal_file" where
  "truncate_file n f = \<lparr>wf_synced = take n (wf_synced f), wf_pending = take (n - length (wf_synced f)) (wf_pending f)\<rparr>"

definition openSegmentForWrite :: "faults \<Rightarrow> string \<Rightarrow> u64 \<Rightarrow> nat \<Rightarrow> disk \<Rightarrow> disk \<times> (wal_error + segment)" where
  "openSegmentForWrite ft path i validBytes d =
     (case gm_lookup d path of
        None \<Rightarrow> (d, Inl (OpenSegmentFailed i))
      | Some f \<Rightarrow>
          if ft_openw ft then (d, Inl (OpenSegmentFailed i))
          else if ft_truncate ft then (d, Inl (TruncateFailed i))
          else let d' = gm_set path (truncate_file validBytes f) d
            in if ft_seek ft then (d', Inl (SeekFailed i))
               else (d', Inr \<lparr>sg_id = i, sg_path = path, sg_open = True, sg_size = int validBytes\<rparr>))"

text \<open>
  A write that fails has written the first \<open>k\<close> bytes; a segment whose handle is closed refuses
  the write.
\<close>

definition segment_write :: "faults \<Rightarrow> segment \<Rightarrow> bytes \<Rightarrow> disk \<Rightarrow> segment \<times> disk \<times> wal_error option" where
  "segment_write ft s p d =
     (if \<not> sg_open s then (s, d, Some (WriteFailed (sg_id s)))
      else case ft_write ft of
        None \<Rightarrow> (s\<lparr>sg_size := sg_size s + int (length p)\<rparr>, on_file (sg_path s) (append_pending p) d, None)
      | Some k \<Rightarrow> (s\<lparr>sg_size := sg_size s + int (length (take k p))\<rparr>,
                   on_file (sg_path s) (append_pending (take k p)) d, Some (WriteFailed (sg_id s))))"

definition segment_sync :: "faults \<Rightarrow> segment \<Rightarrow> disk \<Rightarrow> disk \<times> wal_error option" where
  "segment_sync ft s d =
     (if ft_sync ft \<or> \<not> sg_open s then (d, Some (SyncFailed (sg_id s)))
      else (on_file (sg_path s) sync_file d, None))"

definition segment_close :: "faults \<Rightarrow> segment \<Rightarrow> disk \<Rightarrow> segment \<times> disk \<times> wal_error option" where
  "segment_close ft s d =
     (if \<not> sg_open s then (s, d, None)
      else if ft_close_sync ft then (s\<lparr>sg_open := False\<rparr>, d, Some (CloseSyncFailed (sg_id s)))
      else let d' = on_file (sg_path s) sync_file d
        in if ft_close ft then (s\<lparr>sg_open := False\<rparr>, d', Some (CloseFailed (sg_id s)))
           else (s\<lparr>sg_open := False\<rparr>, d', None))"

section \<open>recovery.go: replay\<close>

text \<open>Every decoded record is at least 20 bytes long, so replaying a file ends.\<close>

lemma ReadFull_consumes: "ReadFull r n = ReadOk bs r' \<Longrightarrow> length (rd_bytes r') + n = length (rd_bytes r)"
  by (auto simp: ReadFull_def Let_def split: if_splits)

lemma Decode_consumes: "Decode r = Inr (e, r') \<Longrightarrow> length (rd_bytes r') < length (rd_bytes r)"
  by (fastforce simp: Decode_def Let_def split: read_result.splits if_splits dest!: ReadFull_consumes)

function replay_loop :: "reader \<Rightarrow> wal_Entry list \<Rightarrow> nat \<Rightarrow> wal_Entry list \<times> nat \<times> decode_error option" where
  "replay_loop r entries offset =
     (case Decode r of
        Inl err \<Rightarrow> (entries, offset,
          if err = EOF \<or> err = ErrUnexpectedEOF \<or> err = ErrChecksumMismatch then None else Some err)
      | Inr (e, r') \<Rightarrow> replay_loop r' (entries @ [e]) (offset + encodedSize (length (we_Data e))))"
  by pat_completeness auto
termination
  by (relation "measure (\<lambda>(r, es, off). length (rd_bytes r))") (auto dest: Decode_consumes)

declare replay_loop.simps [simp del]

definition replayFile :: "faults \<Rightarrow> string \<Rightarrow> disk \<Rightarrow> wal_error + wal_Entry list \<times> nat" where
  "replayFile ft path d =
     (case gm_lookup d path of
        None \<Rightarrow> Inl (OpenFailed path)
      | Some f \<Rightarrow>
          if ft_open ft path then Inl (OpenFailed path)
          else case replay_loop \<lparr>rd_bytes = file_bytes f, rd_fault = ft_read ft path\<rparr> [] 0 of
                 (es, off, None) \<Rightarrow> Inr (es, off)
               | (es, off, Some err) \<Rightarrow> Inl (ReplayDecode err))"

section \<open>wal.go\<close>

record WAL =
  wal_segments :: "segment list"
  wal_lastIdx :: u64
  wal_maxSegSz :: int

definition DefaultMaxSegmentSize :: int where
  "DefaultMaxSegmentSize = 64 * 1024 * 1024"

definition wal_active :: "WAL \<Rightarrow> segment" where
  "wal_active w = last (wal_segments w)"

definition set_active :: "segment \<Rightarrow> WAL \<Rightarrow> WAL" where
  "set_active s w = w\<lparr>wal_segments := butlast (wal_segments w) @ [s]\<rparr>"

definition wal_rotate :: "faults \<Rightarrow> WAL \<Rightarrow> disk \<Rightarrow> WAL \<times> disk \<times> wal_error option" where
  "wal_rotate ft w d =
     (case segment_close ft (wal_active w) d of
        (a, d1, Some err) \<Rightarrow> (set_active a w, d1, Some err)
      | (a, d1, None) \<Rightarrow>
          let w1 = set_active a w
          in case createSegment ft (sg_id a + 1) d1 of
               (d2, Inl err) \<Rightarrow> (w1, d2, Some err)
             | (d2, Inr seg) \<Rightarrow> (w1\<lparr>wal_segments := wal_segments w1 @ [seg]\<rparr>, d2, None))"

definition append_write :: "faults \<Rightarrow> wal_Entry \<Rightarrow> WAL \<Rightarrow> disk \<Rightarrow> WAL \<times> disk \<times> wal_error option" where
  "append_write ft e w d =
     (case segment_write ft (wal_active w) (encoded e) d of
        (a, d1, Some err) \<Rightarrow> (set_active a w, d1, Some err)
      | (a, d1, None) \<Rightarrow>
          let w1 = set_active a w
          in case segment_sync ft a d1 of
               (d2, Some err) \<Rightarrow> (w1, d2, Some err)
             | (d2, None) \<Rightarrow>
                 (if we_Index e > wal_lastIdx w1 then w1\<lparr>wal_lastIdx := we_Index e\<rparr> else w1, d2, None))"

definition wal_Append :: "faults \<Rightarrow> wal_Entry \<Rightarrow> WAL \<Rightarrow> disk \<Rightarrow> WAL \<times> disk \<times> wal_error option" where
  "wal_Append ft e w d =
     (if sg_size (wal_active w) + int (length (encoded e)) > wal_maxSegSz w
      then (case wal_rotate ft w d of
              (w1, d1, Some err) \<Rightarrow> (w1, d1, Some err)
            | (w1, d1, None) \<Rightarrow> append_write ft e w1 d1)
      else append_write ft e w d)"

fun readAll_loop :: "faults \<Rightarrow> segment list \<Rightarrow> disk \<Rightarrow> wal_Entry list \<Rightarrow> wal_error + wal_Entry list" where
  "readAll_loop ft [] d all = Inr all"
| "readAll_loop ft (seg # segs) d all =
     (case replayFile ft (sg_path seg) d of
        Inl err \<Rightarrow> Inl err
      | Inr (entries, _) \<Rightarrow> readAll_loop ft segs d (all @ entries))"

definition wal_ReadAll :: "faults \<Rightarrow> WAL \<Rightarrow> disk \<Rightarrow> wal_error + wal_Entry list" where
  "wal_ReadAll ft w d = readAll_loop ft (wal_segments w) d []"

definition wal_LastIndex :: "WAL \<Rightarrow> u64" where
  "wal_LastIndex w = wal_lastIdx w"

definition wal_Close :: "faults \<Rightarrow> WAL \<Rightarrow> disk \<Rightarrow> WAL \<times> disk \<times> wal_error option" where
  "wal_Close ft w d =
     (case segment_close ft (wal_active w) d of (a, d1, err) \<Rightarrow> (set_active a w, d1, err))"

section \<open>recovery.go: recover\<close>

fun bump_index :: "wal_Entry list \<Rightarrow> u64 \<Rightarrow> u64" where
  "bump_index [] lastIdx = lastIdx"
| "bump_index (e # es) lastIdx = bump_index es (if we_Index e > lastIdx then we_Index e else lastIdx)"

fun recover_loop :: "faults \<Rightarrow> string list \<Rightarrow> WAL \<Rightarrow> disk \<Rightarrow> WAL \<times> disk \<times> wal_error option" where
  "recover_loop ft [] w d = (w, d, None)"
| "recover_loop ft (path # paths) w d =
     (case segmentIDFromPath path of
        Inl err \<Rightarrow> (w, d, Some err)
      | Inr i \<Rightarrow>
          (case replayFile ft path d of
             Inl err \<Rightarrow> (w, d, Some err)
           | Inr (entries, validEnd) \<Rightarrow>
               let w1 = w\<lparr>wal_lastIdx := bump_index entries (wal_lastIdx w)\<rparr>
               in if paths = []
                  then (case openSegmentForWrite ft path i validEnd d of
                          (d1, Inl err) \<Rightarrow> (w1, d1, Some err)
                        | (d1, Inr seg) \<Rightarrow> (w1\<lparr>wal_segments := wal_segments w1 @ [seg]\<rparr>, d1, None))
                  else if ft_stat ft path then (w1, d, Some (StatFailed path))
                  else let seg = \<lparr>sg_id = i, sg_path = path, sg_open = False,
                                  sg_size = (case gm_lookup d path of None \<Rightarrow> 0
                                             | Some f \<Rightarrow> int (length (file_bytes f)))\<rparr>
                    in recover_loop ft paths (w1\<lparr>wal_segments := wal_segments w1 @ [seg]\<rparr>) d))"

definition segment_names :: "disk \<Rightarrow> string list" where
  "segment_names d = sort (filter (\<lambda>name. suffix ''.wal'' name) (map fst d))"

definition wal_recover :: "faults \<Rightarrow> WAL \<Rightarrow> disk \<Rightarrow> WAL \<times> disk \<times> wal_error option" where
  "wal_recover ft w d =
     (case recover_loop ft (segment_names d) w d of
        (w1, d1, Some err) \<Rightarrow> (w1, d1, Some err)
      | (w1, d1, None) \<Rightarrow>
          if wal_segments w1 = []
          then (case createSegment ft 1 d1 of
                  (d2, Inl err) \<Rightarrow> (w1, d2, Some err)
                | (d2, Inr seg) \<Rightarrow> (w1\<lparr>wal_segments := [seg]\<rparr>, d2, None))
          else (w1, d1, None))"

text \<open>\<^verbatim>\<open>Open\<close> with the given segment size (\<open>DefaultMaxSegmentSize\<close> without an option).\<close>

definition wal_Open :: "faults \<Rightarrow> int \<Rightarrow> disk \<Rightarrow> WAL \<times> disk \<times> wal_error option" where
  "wal_Open ft maxSegSz d = wal_recover ft \<lparr>wal_segments = [], wal_lastIdx = 0, wal_maxSegSz = maxSegSz\<rparr> d"

end
