(* ===== verification/Wal_Recovery.thy ===== *)
theory Wal_Recovery
  imports Wal
begin

text \<open>
  What the write-ahead log guarantees across crashes: the state of the log and of its directory
  represent a sequence of entries, kept by every append, read back by \<^verbatim>\<open>ReadAll\<close> and restored by
  \<^verbatim>\<open>Open\<close> from what a crash leaves.
\<close>

section \<open>Representation\<close>

definition seg_bytes :: "wal_Entry list \<Rightarrow> bytes" where
  "seg_bytes es = concat (map encoded es)"

definition seg_file :: "wal_Entry list \<Rightarrow> wal_file" where
  "seg_file es = \<lparr>wf_synced = seg_bytes es, wf_pending = []\<rparr>"

definition entries_ok :: "wal_Entry list \<Rightarrow> bool" where
  "entries_ok es \<longleftrightarrow> (\<forall>e \<in> set es. 8 + length (we_Data e) \<le> maxPayloadSize)"

text \<open>
  \<open>pre\<close> are the closed segments (ID and entries), \<open>i\<close> and \<open>f\<close> the ID and the file of the active
  one. File names have 16 digits for IDs below \<open>10 ^ 16\<close>.
\<close>

definition disk_image :: "(u64 \<times> wal_Entry list) list \<Rightarrow> u64 \<Rightarrow> wal_file \<Rightarrow> disk" where
  "disk_image pre i f = map (\<lambda>(j, es). (segmentPath j, seg_file es)) pre @ [(segmentPath i, f)]"

definition ids_ok :: "u64 list \<Rightarrow> bool" where
  "ids_ok is \<longleftrightarrow> sorted_wrt (<) is \<and> (\<forall>i \<in> set is. unat i < 10 ^ 16)"

definition disk_holds :: "disk \<Rightarrow> (u64 \<times> wal_Entry list) list \<Rightarrow> u64 \<Rightarrow> wal_file \<Rightarrow> bool" where
  "disk_holds d pre i f \<longleftrightarrow> gm_wf d \<and> ids_ok (map fst pre @ [i]) \<and> (\<forall>(j, es) \<in> set pre. entries_ok es) \<and>
     (\<forall>name. suffix ''.wal'' name \<longrightarrow> gm_lookup d name = map_of (disk_image pre i f) name)"

definition log_of :: "(u64 \<times> wal_Entry list) list \<Rightarrow> wal_Entry list \<Rightarrow> wal_Entry list" where
  "log_of pre es = concat (map snd pre) @ es"

definition wal_ok :: "WAL \<Rightarrow> disk \<Rightarrow> (u64 \<times> wal_Entry list) list \<Rightarrow> u64 \<Rightarrow> wal_Entry list \<Rightarrow> bool" where
  "wal_ok w d pre i es \<longleftrightarrow> disk_holds d pre i (seg_file es) \<and> entries_ok es \<and>
     map sg_path (wal_segments w) = map (segmentPath \<circ> fst) pre @ [segmentPath i] \<and>
     sg_id (wal_active w) = i \<and> sg_open (wal_active w) \<and>
     sg_size (wal_active w) = int (length (seg_bytes es)) \<and>
     wal_lastIdx w = bump_index (log_of pre es) 0"

section \<open>File names\<close>

lemma segmentIDFromPath_segmentPath [simp]: "segmentIDFromPath (segmentPath i) = Inr i"
  by (simp add: segmentIDFromPath_def segmentPath_def ParseUint_padded)

lemma segmentPath_inj [simp]: "segmentPath i = segmentPath j \<longleftrightarrow> i = j"
  by (metis segmentIDFromPath_segmentPath sum.inject(2))

lemma segmentPath_suffix [simp]: "suffix ''.wal'' (segmentPath i)"
  by (simp add: segmentPath_def suffix_def)

lemma append_less_same: "length xs = length ys \<Longrightarrow> xs @ zs < ys @ zs \<longleftrightarrow> xs < (ys :: string)"
  by (induction xs ys rule: list_induct2) auto

lemma segmentPath_less:
  assumes "unat i < 10 ^ 16" and "unat j < 10 ^ 16"
  shows "segmentPath i < segmentPath j \<longleftrightarrow> i < j"
proof -
  have "length (decimal (unat i)) \<le> 16" and "length (decimal (unat j)) \<le> 16"
    using assms by (simp_all add: length_decimal)
  then have "length (pad_zeros 16 (decimal (unat i))) = length (pad_zeros 16 (decimal (unat j)))"
    by (simp add: pad_zeros_def)
  with assms show ?thesis
    by (simp add: segmentPath_def append_less_same padded_less_iff word_less_nat_alt)
qed

lemma sorted_paths: "ids_ok is \<Longrightarrow> sorted_wrt (<) (map segmentPath is)"
  by (induction "is") (auto simp: ids_ok_def segmentPath_less)

text \<open>\<^verbatim>\<open>Glob\<close> and \<^verbatim>\<open>sort.Strings\<close> list the segments by increasing ID.\<close>

lemma segment_names_disk:
  assumes "disk_holds d pre i f"
  shows "segment_names d = map segmentPath (map fst pre @ [i])"
proof (rule sorted_distinct_set_unique)
  have sorted: "sorted_wrt (<) (map segmentPath (map fst pre @ [i]))"
    using assms by (intro sorted_paths) (simp add: disk_holds_def)
  then show "sorted (map segmentPath (map fst pre @ [i]))" and "distinct (map segmentPath (map fst pre @ [i]))"
    by (simp_all only: strict_sorted_iff)
  show "sorted (segment_names d)" by (simp add: segment_names_def)
  show "distinct (segment_names d)"
    using assms by (simp add: segment_names_def disk_holds_def gm_wf_def)
  have names: "name \<in> fst ` set d \<longleftrightarrow> name \<in> segmentPath ` (insert i (fst ` set pre))" if "suffix ''.wal'' name" for name
  proof -
    have "name \<in> fst ` set d \<longleftrightarrow> gm_lookup d name \<noteq> None"
      by (simp add: map_of_eq_None_iff)
    also have "\<dots> \<longleftrightarrow> name \<in> fst ` set (disk_image pre i f)"
      using assms that by (simp add: disk_holds_def map_of_eq_None_iff)
    finally show ?thesis by (force simp: disk_image_def)
  qed
  have "name \<in> set (segment_names d) \<longleftrightarrow> name \<in> segmentPath ` insert i (fst ` set pre)" for name
  proof (cases "suffix ''.wal'' name")
    case True
    with names [OF True] show ?thesis by (simp add: segment_names_def)
  qed (auto simp: segment_names_def)
  then show "set (segment_names d) = set (map segmentPath (map fst pre @ [i]))" by auto
qed

section \<open>Replaying\<close>

definition benign :: "bytes \<Rightarrow> bool" where
  "benign rest \<longleftrightarrow> (\<exists>err \<in> {EOF, ErrUnexpectedEOF, ErrChecksumMismatch}. Decode (plain_reader rest) = Inl err)"

lemma benign_Nil: "benign []"
  by (simp add: benign_def Decode_def)

lemma benign_take:
  "8 + length (we_Data e) \<le> maxPayloadSize \<Longrightarrow> k < length (encoded e) \<Longrightarrow> benign (take k (encoded e))"
  using decode_truncated [of e k] by (auto simp: benign_def)

lemma seg_bytes_simps [simp]:
  "seg_bytes [] = []" "seg_bytes (e # es) = encoded e @ seg_bytes es" "seg_bytes (es @ fs) = seg_bytes es @ seg_bytes fs"
  by (simp_all add: seg_bytes_def)

lemma entries_ok_simps [simp]:
  "entries_ok []" "entries_ok (e # es) \<longleftrightarrow> 8 + length (we_Data e) \<le> maxPayloadSize \<and> entries_ok es"
  "entries_ok (es @ fs) \<longleftrightarrow> entries_ok es \<and> entries_ok fs"
  by (auto simp: entries_ok_def)

lemma replay_loop_entries:
  assumes "entries_ok es" and "benign rest"
  shows "replay_loop (plain_reader (seg_bytes es @ rest)) acc off = (acc @ es, off + length (seg_bytes es), None)"
  using assms(1)
proof (induction es arbitrary: acc off)
  case Nil
  then show ?case
    using assms(2) by (subst replay_loop.simps) (auto simp: benign_def)
next
  case (Cons e es)
  then show ?case
    by (subst replay_loop.simps) (simp add: decode_encoded length_encoded add.assoc)
qed

lemma file_bytes_seg_file [simp]: "file_bytes (seg_file es) = seg_bytes es"
  by (simp add: file_bytes_def seg_file_def)

lemma replayFile_entries:
  assumes "gm_lookup d path = Some f" and "file_bytes f = seg_bytes es @ rest" and "entries_ok es" and "benign rest"
  shows "replayFile no_faults path d = Inr (es, length (seg_bytes es))"
  using replay_loop_entries [OF assms(3,4), of "[]" 0] assms(1,2)
  by (simp add: replayFile_def no_faults_def plain_reader_def)

lemma replayFile_seg_file:
  "gm_lookup d path = Some (seg_file es) \<Longrightarrow> entries_ok es \<Longrightarrow>
     replayFile no_faults path d = Inr (es, length (seg_bytes es))"
  using replayFile_entries [of d path "seg_file es" es "[]"] by (simp add: benign_Nil)

section \<open>Reading the directory\<close>

lemma disk_holds_lookup:
  assumes "disk_holds d pre i f" and "(segmentPath j, g) \<in> set (disk_image pre i f)"
  shows "gm_lookup d (segmentPath j) = Some g"
proof -
  have "distinct (map fst (disk_image pre i f))"
    using sorted_paths [of "map fst pre @ [i]"] assms(1)
    by (simp add: disk_holds_def disk_image_def comp_def case_prod_unfold strict_sorted_iff)
  with assms show ?thesis by (simp add: disk_holds_def)
qed

lemma disk_holds_active: "disk_holds d pre i f \<Longrightarrow> gm_lookup d (segmentPath i) = Some f"
  by (erule disk_holds_lookup) (simp add: disk_image_def)

lemma disk_holds_closed:
  assumes "disk_holds d pre i f" and "(j, es) \<in> set pre"
  shows "gm_lookup d (segmentPath j) = Some (seg_file es)" and "entries_ok es"
proof -
  show "gm_lookup d (segmentPath j) = Some (seg_file es)"
    by (rule disk_holds_lookup [OF assms(1)]) (use assms(2) in \<open>force simp: disk_image_def\<close>)
  show "entries_ok es" using assms by (auto simp: disk_holds_def)
qed

lemma readAll_loop_closed:
  assumes "\<And>j es. (j, es) \<in> set ps \<Longrightarrow> gm_lookup d (segmentPath j) = Some (seg_file es) \<and> entries_ok es"
    and "map sg_path segs = map (segmentPath \<circ> fst) ps"
  shows "readAll_loop no_faults segs d acc = Inr (acc @ concat (map snd ps))"
  using assms
proof (induction ps arbitrary: segs acc)
  case (Cons p ps)
  obtain j es s ss where [simp]: "p = (j, es)" "segs = s # ss" "sg_path s = segmentPath j"
      "map sg_path ss = map (segmentPath \<circ> fst) ps"
    using Cons.prems(2) by (cases p; cases segs) auto
  have "replayFile no_faults (segmentPath j) d = Inr (es, length (seg_bytes es))"
    using Cons.prems(1) [of j es] by (intro replayFile_seg_file) auto
  moreover have "readAll_loop no_faults ss d (acc @ es) = Inr ((acc @ es) @ concat (map snd ps))"
    using Cons.prems(1) by (intro Cons.IH) auto
  ultimately show ?case by simp
qed simp

lemma wal_ReadAll_ok:
  assumes "wal_ok w d pre i es"
  shows "wal_ReadAll no_faults w d = Inr (log_of pre es)"
proof -
  have "readAll_loop no_faults (wal_segments w) d [] = Inr ([] @ concat (map snd (pre @ [(i, es)])))"
    using assms disk_holds_closed [of d pre i "seg_file es"] disk_holds_active [of d pre i "seg_file es"]
    by (intro readAll_loop_closed) (auto simp: wal_ok_def)
  then show ?thesis by (simp add: wal_ReadAll_def log_of_def)
qed

section \<open>Opening\<close>

lemma bump_index_append [simp]: "bump_index (xs @ ys) l = bump_index ys (bump_index xs l)"
  by (induction xs arbitrary: l) simp_all

lemma disk_image_upd:
  assumes "ids_ok (map fst pre @ [i])"
  shows "map_of (disk_image pre i g) = (map_of (disk_image pre i f))(segmentPath i \<mapsto> g)"
proof -
  have "i \<notin> fst ` set pre"
    using assms by (auto simp: ids_ok_def sorted_wrt_append)
  then have "map_of (map (\<lambda>(j, es). (segmentPath j, seg_file es)) pre) (segmentPath i) = None"
    by (force simp: map_of_eq_None_iff)
  then show ?thesis by (auto simp: disk_image_def fun_eq_iff map_add_def split: option.split)
qed

lemma disk_holds_set:
  assumes "disk_holds d pre i f"
  shows "disk_holds (gm_set (segmentPath i) g d) pre i g"
  using assms disk_image_upd [of pre i g f] gm.invar_update [of d "segmentPath i" g]
  by (simp add: disk_holds_def update_conv')

definition closed_seg :: "u64 \<times> wal_Entry list \<Rightarrow> segment" where
  "closed_seg p = \<lparr>sg_id = fst p, sg_path = segmentPath (fst p), sg_open = False, sg_size = int (length (seg_bytes (snd p)))\<rparr>"

lemma no_faults_simps [simp]:
  "ft_open no_faults path = False" "ft_read no_faults path = None" "ft_openw no_faults = False"
  "ft_truncate no_faults = False" "ft_seek no_faults = False" "ft_stat no_faults path = False"
  "ft_create no_faults = False" "ft_write no_faults = None" "ft_sync no_faults = False"
  "ft_close_sync no_faults = False" "ft_close no_faults = False"
  by (simp_all add: no_faults_def)

lemma recover_loop_step:
  assumes "gm_lookup d (segmentPath j) = Some (seg_file es)" and "entries_ok es" and "paths \<noteq> []"
  shows "recover_loop no_faults (segmentPath j # paths) w d =
    recover_loop no_faults paths (w\<lparr>wal_lastIdx := bump_index es (wal_lastIdx w),
      wal_segments := wal_segments w @ [closed_seg (j, es)]\<rparr>) d"
  using assms replayFile_seg_file [OF assms(1,2)] by (simp add: closed_seg_def)

lemma recover_loop_closed:
  assumes "\<And>j es. (j, es) \<in> set ps \<Longrightarrow> gm_lookup d (segmentPath j) = Some (seg_file es) \<and> entries_ok es"
  shows "recover_loop no_faults (map (segmentPath \<circ> fst) ps @ [path]) w d =
    recover_loop no_faults [path] (w\<lparr>wal_lastIdx := bump_index (concat (map snd ps)) (wal_lastIdx w),
      wal_segments := wal_segments w @ map closed_seg ps\<rparr>) d"
  using assms
proof (induction ps arbitrary: w)
  case (Cons p ps)
  obtain j es where p: "p = (j, es)" by (cases p)
  have "recover_loop no_faults (map (segmentPath \<circ> fst) (p # ps) @ [path]) w d =
      recover_loop no_faults (map (segmentPath \<circ> fst) ps @ [path])
        (w\<lparr>wal_lastIdx := bump_index es (wal_lastIdx w), wal_segments := wal_segments w @ [closed_seg (j, es)]\<rparr>) d"
    using Cons.prems [of j es] recover_loop_step [of d j es "map (segmentPath \<circ> fst) ps @ [path]" w]
    by (simp del: recover_loop.simps add: p)
  also have "\<dots> = recover_loop no_faults [path] (w\<lparr>wal_lastIdx := bump_index (concat (map snd (p # ps))) (wal_lastIdx w),
      wal_segments := wal_segments w @ map closed_seg (p # ps)\<rparr>) d"
    using Cons.IH [OF Cons.prems [OF list.set_intros(2)],
        of "w\<lparr>wal_lastIdx := bump_index es (wal_lastIdx w), wal_segments := wal_segments w @ [closed_seg (j, es)]\<rparr>"]
    by (simp del: recover_loop.simps add: p comp_def)
  finally show ?case .
qed simp

lemma wal_Open_ok:
  assumes holds: "disk_holds d pre i f" and f: "f = \<lparr>wf_synced = seg_bytes es @ rest, wf_pending = []\<rparr>"
    and es: "entries_ok es" "benign rest"
  shows "\<exists>w d'. wal_Open no_faults sz d = (w, d', None) \<and> wal_ok w d' pre i es \<and> wal_maxSegSz w = sz"
proof -
  let ?n = "length (seg_bytes es)" and ?d = "gm_set (segmentPath i) (seg_file es) d"
  let ?w = "\<lparr>wal_segments = map closed_seg pre @ [\<lparr>sg_id = i, sg_path = segmentPath i, sg_open = True, sg_size = int ?n\<rparr>],
     wal_lastIdx = bump_index (log_of pre es) 0, wal_maxSegSz = sz\<rparr>"
  have "replayFile no_faults (segmentPath i) d = Inr (es, ?n)"
    using f es disk_holds_active [OF holds] by (intro replayFile_entries) (auto simp: file_bytes_def)
  moreover have "truncate_file ?n f = seg_file es"
    by (simp add: f truncate_file_def seg_file_def)
  ultimately have step: "recover_loop no_faults [segmentPath i] w d =
      (w\<lparr>wal_lastIdx := bump_index es (wal_lastIdx w), wal_segments := wal_segments w @
          [\<lparr>sg_id = i, sg_path = segmentPath i, sg_open = True, sg_size = int ?n\<rparr>]\<rparr>, ?d, None)" for w
    using disk_holds_active [OF holds] by (simp add: openSegmentForWrite_def)
  have names: "segment_names d = map (segmentPath \<circ> fst) pre @ [segmentPath i]"
    by (simp add: segment_names_disk [OF holds])
  have "wal_Open no_faults sz d = (?w, ?d, None)"
    unfolding wal_Open_def wal_recover_def names
    by (subst recover_loop_closed) (simp_all del: recover_loop.simps add: disk_holds_closed [OF holds] step log_of_def)
  moreover have "wal_ok ?w ?d pre i es"
    using disk_holds_set [OF holds, of "seg_file es"] es(1)
    by (simp add: wal_ok_def wal_active_def closed_seg_def comp_def)
  ultimately show ?thesis by auto
qed

lemma wal_Open_empty:
  assumes "gm_wf d" and "\<And>name. suffix ''.wal'' name \<Longrightarrow> gm_lookup d name = None"
  shows "\<exists>w d'. wal_Open no_faults sz d = (w, d', None) \<and> wal_ok w d' [] 1 [] \<and> wal_maxSegSz w = sz"
proof -
  have "segment_names d = []"
  proof (rule ccontr)
    assume "segment_names d \<noteq> []"
    then obtain name where "name \<in> set (segment_names d)" by (meson list.set_sel(1))
    then have "suffix ''.wal'' name" and "name \<in> fst ` set d" by (auto simp: segment_names_def)
    with assms(2) show False by (simp add: map_of_eq_None_iff)
  qed
  then have "wal_Open no_faults sz d =
    (\<lparr>wal_segments = [\<lparr>sg_id = 1, sg_path = segmentPath 1, sg_open = True, sg_size = 0\<rparr>], wal_lastIdx = 0, wal_maxSegSz = sz\<rparr>,
     gm_set (segmentPath 1) (seg_file []) d, None)"
    using assms(2) [of "segmentPath 1"]
    by (simp add: wal_Open_def wal_recover_def createSegment_def Let_def seg_file_def)
  moreover have "disk_holds (gm_set (segmentPath 1) (seg_file []) d) [] 1 (seg_file [])"
    using assms gm.invar_update [of d]
    by (auto simp: disk_holds_def ids_ok_def disk_image_def update_conv')
  ultimately show ?thesis
    by (auto simp: wal_ok_def wal_active_def log_of_def)
qed

section \<open>Appending\<close>

lemma active_segments:
  assumes "map sg_path (wal_segments w) = ps @ [p]"
  shows "wal_segments w \<noteq> []" and "map sg_path (butlast (wal_segments w)) = ps" and "sg_path (wal_active w) = p"
proof -
  show ne: "wal_segments w \<noteq> []" using assms by auto
  show "map sg_path (butlast (wal_segments w)) = ps"
    using assms by (simp add: map_butlast)
  show "sg_path (wal_active w) = p"
    using assms ne by (metis last_map last_snoc wal_active_def)
qed

lemma set_active_simps [simp]:
  "wal_active (set_active s w) = s" "wal_lastIdx (set_active s w) = wal_lastIdx w"
  "wal_maxSegSz (set_active s w) = wal_maxSegSz w" "wal_segments (set_active s w) = butlast (wal_segments w) @ [s]"
  by (simp_all add: wal_active_def set_active_def)

lemma wal_active_lastIdx [simp]: "wal_active (w\<lparr>wal_lastIdx := x\<rparr>) = wal_active w"
  by (simp add: wal_active_def)

text \<open>A write that is not followed by a sync leaves the record pending.\<close>

definition pending_file :: "wal_Entry list \<Rightarrow> wal_Entry \<Rightarrow> wal_file" where
  "pending_file es e = \<lparr>wf_synced = seg_bytes es, wf_pending = encoded e\<rparr>"

lemma append_write_result:
  assumes ok: "wal_ok w d pre i es" and size: "8 + length (we_Data e) \<le> maxPayloadSize"
  shows "\<exists>w' d'. append_write no_faults e w d = (w', d', None) \<and> wal_ok w' d' pre i (es @ [e]) \<and>
      wal_maxSegSz w' = wal_maxSegSz w"
    and "\<exists>w' d'. append_write (no_faults\<lparr>ft_sync := True\<rparr>) e w d = (w', d', Some (SyncFailed i)) \<and>
      disk_holds d' pre i (pending_file es e)"
proof -
  let ?p = "segmentPath i" and ?a = "wal_active w"
  let ?d = "gm_set ?p (pending_file es e) d" and ?a' = "?a\<lparr>sg_size := sg_size ?a + int (length (encoded e))\<rparr>"
  have holds: "disk_holds d pre i (seg_file es)" and a: "sg_path ?a = ?p" "sg_open ?a" "sg_id ?a = i"
      "sg_size ?a = int (length (seg_bytes es))" "wal_lastIdx w = bump_index (log_of pre es) 0"
    and segs: "map sg_path (butlast (wal_segments w)) = map (segmentPath \<circ> fst) pre"
    using ok active_segments [of w] by (auto simp: wal_ok_def)
  have holds': "disk_holds ?d pre i (pending_file es e)"
    by (rule disk_holds_set [OF holds])
  have written: "segment_write ft ?a (encoded e) d = (?a', ?d, None)" if "ft_write ft = None" for ft
    using that disk_holds_active [OF holds] a(1,2)
    by (simp add: segment_write_def on_file_def append_pending_def pending_file_def seg_file_def)
  have sync: "on_file ?p sync_file ?d = gm_set ?p (seg_file (es @ [e])) ?d"
    using disk_holds_active [OF holds']
    by (simp add: on_file_def sync_file_def pending_file_def seg_file_def file_bytes_def)
  let ?w = "(set_active ?a' w)\<lparr>wal_lastIdx := bump_index [e] (wal_lastIdx w)\<rparr>"
  have run: "append_write no_faults e w d = (?w, on_file ?p sync_file ?d, None)"
    using a(1,2) by (auto simp: append_write_def written segment_sync_def Let_def)
  have "disk_holds (on_file ?p sync_file ?d) pre i (seg_file (es @ [e]))"
    unfolding sync by (rule disk_holds_set [OF holds'])
  then have "wal_ok ?w (on_file ?p sync_file ?d) pre i (es @ [e])"
    using a segs size ok by (simp add: wal_ok_def log_of_def)
  with run show "\<exists>w' d'. append_write no_faults e w d = (w', d', None) \<and> wal_ok w' d' pre i (es @ [e]) \<and>
      wal_maxSegSz w' = wal_maxSegSz w" by auto
  show "\<exists>w' d'. append_write (no_faults\<lparr>ft_sync := True\<rparr>) e w d = (w', d', Some (SyncFailed i)) \<and>
      disk_holds d' pre i (pending_file es e)"
    using holds' a(3) by (simp add: append_write_def written segment_sync_def)
qed

lemma ids_ok_next:
  assumes "ids_ok (map fst pre @ [i])" and "unat i + 1 < 10 ^ 16"
  shows "ids_ok (map fst pre @ [i, i + 1])" and "i + 1 \<notin> insert i (fst ` set pre)"
proof -
  have sum: "unat (i + 1) = unat i + 1"
    using assms(2) unat_word_ariths(1) [of i 1] by simp
  then have "i < i + 1" by (simp add: word_less_nat_alt)
  with assms sum show "ids_ok (map fst pre @ [i, i + 1])"
    by (auto simp: ids_ok_def sorted_wrt_append intro: less_trans)
  with \<open>i < i + 1\<close> show "i + 1 \<notin> insert i (fst ` set pre)"
    by (auto simp: ids_ok_def sorted_wrt_append)
qed

lemma wal_rotate_result:
  assumes ok: "wal_ok w d pre i es" and room: "unat i + 1 < 10 ^ 16"
    and ft: "\<not> ft_close_sync ft" "\<not> ft_close ft" "\<not> ft_create ft"
  shows "\<exists>w' d'. wal_rotate ft w d = (w', d', None) \<and> wal_ok w' d' (pre @ [(i, es)]) (i + 1) [] \<and>
      wal_maxSegSz w' = wal_maxSegSz w"
proof -
  let ?p = "segmentPath i" and ?q = "segmentPath (i + 1)" and ?a = "wal_active w"
  have holds: "disk_holds d pre i (seg_file es)" and a: "sg_path ?a = ?p" "sg_open ?a" "sg_id ?a = i"
    and last: "wal_lastIdx w = bump_index (log_of pre es) 0" and es: "entries_ok es"
    and segs: "map sg_path (butlast (wal_segments w)) = map (segmentPath \<circ> fst) pre"
    using ok active_segments [of w] by (auto simp: wal_ok_def)
  note fresh_id = ids_ok_next [OF _ room, of pre]
  let ?d = "gm_set ?p (seg_file es) d"
  have closed: "on_file ?p sync_file d = ?d"
    using disk_holds_active [OF holds] by (simp add: on_file_def sync_file_def seg_file_def file_bytes_def)
  have holds': "disk_holds ?d pre i (seg_file es)" by (rule disk_holds_set [OF holds])
  then have ids: "ids_ok (map fst pre @ [i])" by (simp add: disk_holds_def)
  have "map_of (disk_image pre i (seg_file es)) ?q = None"
    using fresh_id(2) [OF ids] by (auto simp: map_of_eq_None_iff disk_image_def image_iff split_beta)
  then have fresh: "gm_lookup ?d ?q = None"
    using holds' unfolding disk_holds_def by simp
  have "map_of (disk_image (pre @ [(i, es)]) (i + 1) (seg_file [])) =
      (map_of (disk_image pre i (seg_file es)))(?q \<mapsto> seg_file [])"
    using disk_image_upd [of "pre @ [(i, es)]" "i + 1" "seg_file []" "seg_file []"] fresh_id(1) [OF ids]
      \<open>map_of (disk_image pre i (seg_file es)) ?q = None\<close>
    by (auto simp: disk_image_def fun_eq_iff map_add_def split: option.splits)
  then have new: "disk_holds (gm_set ?q (seg_file []) ?d) (pre @ [(i, es)]) (i + 1) (seg_file [])"
    using holds' fresh_id(1) [OF ids] es by (auto simp: disk_holds_def update_conv')
  let ?w = "set_active (?a\<lparr>sg_open := False\<rparr>) w"
  have "wal_rotate ft w d = (?w\<lparr>wal_segments := wal_segments ?w @
      [\<lparr>sg_id = i + 1, sg_path = ?q, sg_open = True, sg_size = 0\<rparr>]\<rparr>, gm_set ?q (seg_file []) ?d, None)"
    using ft a fresh by (simp add: wal_rotate_def segment_close_def closed createSegment_def Let_def seg_file_def)
  with new a segs last show ?thesis
    by (auto simp: wal_ok_def wal_active_def log_of_def)
qed

lemma wal_Append_result:
  assumes ok: "wal_ok w d pre i es" and size: "8 + length (we_Data e) \<le> maxPayloadSize"
    and room: "unat i + 1 < 10 ^ 16"
  shows "\<exists>w' d' pre' i' es'. wal_Append no_faults e w d = (w', d', None) \<and> wal_ok w' d' pre' i' es' \<and>
      log_of pre' es' = log_of pre es @ [e] \<and> unat i' \<le> unat i + 1 \<and> wal_maxSegSz w' = wal_maxSegSz w"
    and "\<exists>w' d' pre' i' es'. wal_Append (no_faults\<lparr>ft_sync := True\<rparr>) e w d = (w', d', Some (SyncFailed i')) \<and>
      disk_holds d' pre' i' (pending_file es' e) \<and> entries_ok es' \<and> log_of pre' es' = log_of pre es"
proof -
  have i1: "unat (i + 1) \<le> unat i + 1"
    using unat_word_ariths(1) [of i 1] by simp
  have es: "entries_ok es" using ok by (simp add: wal_ok_def)
  consider (rotate) "sg_size (wal_active w) + int (length (encoded e)) > wal_maxSegSz w"
    | (fits) "\<not> sg_size (wal_active w) + int (length (encoded e)) > wal_maxSegSz w" by blast
  note cases = this
  show "\<exists>w' d' pre' i' es'. wal_Append no_faults e w d = (w', d', None) \<and> wal_ok w' d' pre' i' es' \<and>
      log_of pre' es' = log_of pre es @ [e] \<and> unat i' \<le> unat i + 1 \<and> wal_maxSegSz w' = wal_maxSegSz w"
  proof (cases rule: cases)
    case rotate
    obtain w1 d1 where r: "wal_rotate no_faults w d = (w1, d1, None)" "wal_ok w1 d1 (pre @ [(i, es)]) (i + 1) []"
        "wal_maxSegSz w1 = wal_maxSegSz w"
      using wal_rotate_result [OF ok room, of no_faults] by auto
    from append_write_result(1) [OF r(2) size] show ?thesis
      using rotate r(1,3) i1 by (fastforce simp: wal_Append_def log_of_def)
  next
    case fits
    from append_write_result(1) [OF ok size] show ?thesis
      using fits by (fastforce simp: wal_Append_def log_of_def)
  qed
  let ?ft = "no_faults\<lparr>ft_sync := True\<rparr>"
  show "\<exists>w' d' pre' i' es'. wal_Append ?ft e w d = (w', d', Some (SyncFailed i')) \<and>
      disk_holds d' pre' i' (pending_file es' e) \<and> entries_ok es' \<and> log_of pre' es' = log_of pre es"
  proof (cases rule: cases)
    case rotate
    obtain w1 d1 where r: "wal_rotate ?ft w d = (w1, d1, None)" "wal_ok w1 d1 (pre @ [(i, es)]) (i + 1) []"
      using wal_rotate_result [OF ok room, of ?ft] by auto
    from append_write_result(2) [OF r(2) size] show ?thesis
      using rotate r(1) by (fastforce simp: wal_Append_def log_of_def)
  next
    case fits
    from append_write_result(2) [OF ok size] es show ?thesis
      using fits by (fastforce simp: wal_Append_def log_of_def)
  qed
qed

section \<open>Crashes\<close>

lemma disk_crash_holds:
  assumes "disk_holds d pre i \<lparr>wf_synced = s, wf_pending = p\<rparr>"
  shows "disk_holds (disk_crash keep d) pre i \<lparr>wf_synced = s @ take (keep (segmentPath i)) p, wf_pending = []\<rparr>"
proof -
  have "map_of (disk_image pre i \<lparr>wf_synced = s @ take (keep (segmentPath i)) p, wf_pending = []\<rparr>) name =
      map_option (\<lambda>f. \<lparr>wf_synced = wf_synced f @ take (keep name) (wf_pending f), wf_pending = []\<rparr>)
        (map_of (disk_image pre i \<lparr>wf_synced = s, wf_pending = p\<rparr>) name)" for name
    by (induction pre) (auto simp: disk_image_def seg_file_def)
  with assms show ?thesis
    by (simp add: disk_holds_def disk_crash_lookup disk_crash_wf)
qed

text \<open>Appending a list of entries, one call of \<^verbatim>\<open>Append\<close> after the other.\<close>

fun wal_appends :: "wal_Entry list \<Rightarrow> WAL \<Rightarrow> disk \<Rightarrow> WAL \<times> disk \<times> wal_error option" where
  "wal_appends [] w d = (w, d, None)"
| "wal_appends (e # es) w d =
     (case wal_Append no_faults e w d of
        (w1, d1, None) \<Rightarrow> wal_appends es w1 d1
      | (w1, d1, Some err) \<Rightarrow> (w1, d1, Some err))"

lemma wal_appends_result:
  assumes "wal_ok w d pre i es" and "entries_ok new" and "unat i + length new < 10 ^ 16"
  shows "\<exists>w' d' pre' i' es'. wal_appends new w d = (w', d', None) \<and> wal_ok w' d' pre' i' es' \<and>
      log_of pre' es' = log_of pre es @ new \<and> unat i' \<le> unat i + length new \<and> wal_maxSegSz w' = wal_maxSegSz w"
  using assms
proof (induction new arbitrary: w d pre i es)
  case (Cons e new)
  have "8 + length (we_Data e) \<le> maxPayloadSize" and "unat i + 1 < 10 ^ 16" and new: "entries_ok new"
    using Cons.prems(2,3) by (auto simp: entries_ok_def)
  from wal_Append_result(1) [OF Cons.prems(1) this(1,2)] obtain w1 d1 pre1 i1 es1 where
    a: "wal_Append no_faults e w d = (w1, d1, None)" "wal_ok w1 d1 pre1 i1 es1"
      "log_of pre1 es1 = log_of pre es @ [e]" "unat i1 \<le> unat i + 1" "wal_maxSegSz w1 = wal_maxSegSz w" by blast
  have "unat i1 + length new < 10 ^ 16" using a(4) Cons.prems(3) by simp
  from Cons.IH [OF a(2) new this] obtain w2 d2 pre2 i2 es2 where
    b: "wal_appends new w1 d1 = (w2, d2, None)" "wal_ok w2 d2 pre2 i2 es2" "log_of pre2 es2 = log_of pre1 es1 @ new"
      "unat i2 \<le> unat i1 + length new" "wal_maxSegSz w2 = wal_maxSegSz w1" by blast
  show ?case
    by (rule exI [of _ w2], rule exI [of _ d2], rule exI [of _ pre2], rule exI [of _ i2], rule exI [of _ es2])
      (use a b in simp)
qed auto

lemma wal_reopened:
  assumes "disk_holds d pre i \<lparr>wf_synced = seg_bytes es @ rest, wf_pending = []\<rparr>" and "entries_ok es" and "benign rest"
  shows "\<exists>w d'. wal_Open no_faults sz d = (w, d', None) \<and> wal_ReadAll no_faults w d' = Inr (log_of pre es) \<and>
      wal_LastIndex w = bump_index (log_of pre es) 0"
  using wal_Open_ok [OF assms(1) refl assms(2,3), of sz] wal_ReadAll_ok
  by (fastforce simp: wal_LastIndex_def wal_ok_def)

lemma bump_index_max: "bump_index es x = fold max (map we_Index es) x"
  by (induction es arbitrary: x) (auto simp: max_def)

definition no_segments :: "disk \<Rightarrow> bool" where
  "no_segments d \<longleftrightarrow> gm_wf d \<and> (\<forall>(name, f) \<in> set d. \<not> suffix ''.wal'' name)"

lemma wal_started:
  assumes "no_segments d" and "entries_ok es" and "length es < 10 ^ 16 - 1"
  shows "\<exists>w0 d0 w1 d1 pre i es'. wal_Open no_faults sz d = (w0, d0, None) \<and> wal_appends es w0 d0 = (w1, d1, None) \<and>
      wal_ok w1 d1 pre i es' \<and> log_of pre es' = es \<and> unat i \<le> length es + 1"
proof -
  have "gm_lookup d name = None" if "suffix ''.wal'' name" for name
    using assms(1) that by (auto simp: no_segments_def map_of_eq_None_iff)
  with wal_Open_empty [of d sz] assms(1) obtain w0 d0 where
    o: "wal_Open no_faults sz d = (w0, d0, None)" "wal_ok w0 d0 [] 1 []" by (auto simp: no_segments_def)
  from wal_appends_result [OF o(2) assms(2)] assms(3) o(1) show ?thesis
    by (fastforce simp: log_of_def)
qed

text \<open>
  C3: entries that were acknowledged survive a crash. Opening an empty directory, appending any
  entries within the payload limit (across as many segments as the size limit \<open>sz\<close> makes), crashing
  with any part of unsynced data kept, and opening again (with any segment size) succeeds;
  \<^verbatim>\<open>ReadAll\<close> returns exactly the appended entries in order and \<^verbatim>\<open>LastIndex\<close> their greatest index.
\<close>

theorem wal_durability:
  assumes "no_segments d" and "entries_ok es" and "length es < 10 ^ 16 - 1"
  shows "\<exists>w0 d0 w1 d1 w2 d2. wal_Open no_faults sz d = (w0, d0, None) \<and> wal_appends es w0 d0 = (w1, d1, None) \<and>
      wal_Open no_faults sz' (disk_crash keep d1) = (w2, d2, None) \<and>
      wal_ReadAll no_faults w2 d2 = Inr es \<and> wal_LastIndex w2 = fold max (map we_Index es) 0"
proof -
  from wal_started [OF assms, of sz] obtain w0 d0 w1 d1 pre i es' where
    s: "wal_Open no_faults sz d = (w0, d0, None)" "wal_appends es w0 d0 = (w1, d1, None)"
      "wal_ok w1 d1 pre i es'" "log_of pre es' = es" by blast
  then have "disk_holds (disk_crash keep d1) pre i \<lparr>wf_synced = seg_bytes es' @ [], wf_pending = []\<rparr>"
    using disk_crash_holds [of d1 pre i "seg_bytes es'" "[]" keep] by (simp add: wal_ok_def seg_file_def)
  from wal_reopened [OF this _ benign_Nil, of sz'] s show ?thesis
    by (simp add: wal_ok_def bump_index_max [symmetric])
qed

theorem wal_durability_witness:
  "no_segments [(''LOCK'', \<lparr>wf_synced = [], wf_pending = []\<rparr>)] \<and>
   (\<exists>w0 d0 w1 d1 w2 d2. wal_Open no_faults 30 [(''LOCK'', \<lparr>wf_synced = [], wf_pending = []\<rparr>)] = (w0, d0, None) \<and>
      wal_appends [\<lparr>we_Index = 5, we_Data = [1, 2]\<rparr>, \<lparr>we_Index = 4, we_Data = []\<rparr>] w0 d0 = (w1, d1, None) \<and>
      wal_Open no_faults DefaultMaxSegmentSize (disk_crash (\<lambda>_. 3) d1) = (w2, d2, None) \<and>
      wal_ReadAll no_faults w2 d2 = Inr [\<lparr>we_Index = 5, we_Data = [1, 2]\<rparr>, \<lparr>we_Index = 4, we_Data = []\<rparr>] \<and>
      wal_LastIndex w2 = 5)"
  using wal_durability [of "[(''LOCK'', \<lparr>wf_synced = [], wf_pending = []\<rparr>)]"
      "[\<lparr>we_Index = 5, we_Data = [1, 2]\<rparr>, \<lparr>we_Index = 4, we_Data = []\<rparr>]" 30 DefaultMaxSegmentSize "\<lambda>_. 3"]
  by (simp add: no_segments_def gm_wf_def entries_ok_def maxPayloadSize_def suffix_def max_def)

text \<open>
  C8: an append is atomic across a crash. When the machine stops after the record was written but
  before the sync of \<^verbatim>\<open>Append\<close>, which then reports an error, whatever number of the record's bytes
  reached the disk, the log reopens with either exactly the earlier entries or these and the
  complete new one.
\<close>

theorem wal_append_atomic:
  assumes "no_segments d" and "entries_ok (es @ [e])" and "length es < 10 ^ 16 - 2"
  shows "\<exists>w0 d0 w1 d1 w2 d2 err w3 d3. wal_Open no_faults sz d = (w0, d0, None) \<and>
      wal_appends es w0 d0 = (w1, d1, None) \<and>
      wal_Append (no_faults\<lparr>ft_sync := True\<rparr>) e w1 d1 = (w2, d2, Some err) \<and>
      wal_Open no_faults sz' (disk_crash keep d2) = (w3, d3, None) \<and>
      wal_ReadAll no_faults w3 d3 \<in> {Inr es, Inr (es @ [e])}"
proof -
  have e: "8 + length (we_Data e) \<le> maxPayloadSize" and "entries_ok es" and "length es < 10 ^ 16 - 1"
    using assms(2,3) by (auto simp: entries_ok_def)
  from wal_started [OF assms(1) this(2,3), of sz] obtain w0 d0 w1 d1 pre i es' where
    s: "wal_Open no_faults sz d = (w0, d0, None)" "wal_appends es w0 d0 = (w1, d1, None)"
      "wal_ok w1 d1 pre i es'" "log_of pre es' = es" "unat i \<le> length es + 1" by blast
  have "unat i + 1 < 10 ^ 16" using s(5) assms(3) by simp
  from wal_Append_result(2) [OF s(3) e this] obtain w2 d2 pre2 i2 es2 where
    a: "wal_Append (no_faults\<lparr>ft_sync := True\<rparr>) e w1 d1 = (w2, d2, Some (SyncFailed i2))"
      "disk_holds d2 pre2 i2 (pending_file es2 e)" "entries_ok es2" "log_of pre2 es2 = es"
    using s(4) by auto
  let ?k = "keep (segmentPath i2)" and ?d = "disk_crash keep d2"
  have c: "disk_holds ?d pre2 i2 \<lparr>wf_synced = seg_bytes es2 @ take ?k (encoded e), wf_pending = []\<rparr>"
    using a(2) by (auto simp: pending_file_def intro: disk_crash_holds)
  have "\<exists>w3 d3. wal_Open no_faults sz' ?d = (w3, d3, None) \<and> wal_ReadAll no_faults w3 d3 \<in> {Inr es, Inr (es @ [e])}"
  proof (cases "?k < length (encoded e)")
    case True
    from wal_reopened [OF c a(3) benign_take [OF e True], of sz'] a(4) show ?thesis by auto
  next
    case False
    then have "disk_holds ?d pre2 i2 \<lparr>wf_synced = seg_bytes (es2 @ [e]) @ [], wf_pending = []\<rparr>"
      using c by (simp add: seg_bytes_def)
    from wal_reopened [OF this _ benign_Nil, of sz'] a(3,4) e show ?thesis
      by (auto simp: entries_ok_def log_of_def)
  qed
  with s a show ?thesis by blast
qed

theorem wal_append_atomic_witness:
  "no_segments [] \<and>
   (\<exists>w0 d0 w1 d1 w2 d2 err w3 d3. wal_Open no_faults 30 [] = (w0, d0, None) \<and>
      wal_appends [\<lparr>we_Index = 5, we_Data = [1, 2]\<rparr>] w0 d0 = (w1, d1, None) \<and>
      wal_Append (no_faults\<lparr>ft_sync := True\<rparr>) \<lparr>we_Index = 6, we_Data = [9]\<rparr> w1 d1 = (w2, d2, Some err) \<and>
      wal_Open no_faults 30 (disk_crash (\<lambda>_. 7) d2) = (w3, d3, None) \<and>
      wal_ReadAll no_faults w3 d3 \<in>
        {Inr [\<lparr>we_Index = 5, we_Data = [1, 2]\<rparr>], Inr [\<lparr>we_Index = 5, we_Data = [1, 2]\<rparr>, \<lparr>we_Index = 6, we_Data = [9]\<rparr>]})"
  using wal_append_atomic [of "[]" "[\<lparr>we_Index = 5, we_Data = [1, 2]\<rparr>]" "\<lparr>we_Index = 6, we_Data = [9]\<rparr>" 30 30 "\<lambda>_. 7"]
  by (simp add: no_segments_def gm_wf_def entries_ok_def maxPayloadSize_def)

text \<open>
  Segment files sort as their numbers. The name of a segment parses back to its ID, and for IDs
  below \<open>10 ^ 16\<close> the byte order of the names that \<^verbatim>\<open>recover\<close> sorts by is the order of the IDs, so
  segments are replayed in the order they were written.
\<close>

theorem segment_names_ordered:
  assumes "unat i < 10 ^ 16" and "unat j < 10 ^ 16"
  shows "segmentIDFromPath (segmentPath i) = Inr i \<and> (segmentPath i < segmentPath j \<longleftrightarrow> i < j)"
  using segmentPath_less [OF assms] by simp

theorem segment_names_ordered_witness:
  "segmentIDFromPath (segmentPath 9) = Inr 9 \<and> segmentPath 9 < segmentPath 10"
  using segment_names_ordered [of 9 10] by (simp add: word_less_nat_alt)

section \<open>A write that fails part way\<close>

lemma le_put_numeral: "le_put (numeral k) x = ucast x # le_put (pred_numeral k) (drop_bit 8 x)"
  by (simp add: numeral_eq_Suc)

text \<open>
  A failed write is not undone: its bytes stay in the segment, and an entry that is appended and
  acknowledged afterwards lies behind them. Replay stops at the debris, so the entry is lost.
\<close>

theorem acknowledged_entry_behind_failed_write_lost:
  "\<exists>w0 d0 w1 d1 err w2 d2. wal_Open no_faults DefaultMaxSegmentSize [] = (w0, d0, None) \<and>
     wal_Append (no_faults\<lparr>ft_write := Some 1\<rparr>) \<lparr>we_Index = 1, we_Data = [7]\<rparr> w0 d0 = (w1, d1, Some err) \<and>
     wal_Append no_faults \<lparr>we_Index = 2, we_Data = []\<rparr> w1 d1 = (w2, d2, None) \<and>
     wal_ReadAll no_faults w2 d2 = Inr []"
proof -
  let ?e = "\<lparr>we_Index = 1, we_Data = [7]\<rparr>" and ?e2 = "\<lparr>we_Index = 2, we_Data = []\<rparr>"
  let ?p = "segmentPath 1" and ?f = "\<lambda>s p. \<lparr>wf_synced = s, wf_pending = p\<rparr>"
  let ?w = "\<lambda>n x. \<lparr>wal_segments = [\<lparr>sg_id = 1, sg_path = ?p, sg_open = True, sg_size = n\<rparr>],
      wal_lastIdx = x, wal_maxSegSz = DefaultMaxSegmentSize\<rparr>"
  have open0: "wal_Open no_faults DefaultMaxSegmentSize [] = (?w 0 0, [(?p, ?f [] [])], None)"
    by (simp add: wal_Open_def wal_recover_def createSegment_def Let_def segment_names_def)
  have len: "length (encoded ?e) = 21" "length (encoded ?e2) = 20"
    by (simp_all add: length_encoded encodedSize_def)
  have fail: "wal_Append (no_faults\<lparr>ft_write := Some 1\<rparr>) ?e (?w 0 0) [(?p, ?f [] [])] =
      (?w 1 0, [(?p, ?f [] (take 1 (encoded ?e)))], Some (WriteFailed 1))"
    by (simp add: wal_Append_def append_write_def segment_write_def wal_active_def set_active_def len
        on_file_def append_pending_def DefaultMaxSegmentSize_def)
  have good: "wal_Append no_faults ?e2 (?w 1 0) [(?p, ?f [] (take 1 (encoded ?e)))] =
      (?w 21 2, [(?p, ?f (take 1 (encoded ?e) @ encoded ?e2) [])], None)"
    by (simp add: wal_Append_def append_write_def segment_write_def segment_sync_def wal_active_def set_active_def len
        on_file_def append_pending_def sync_file_def file_bytes_def DefaultMaxSegmentSize_def word_less_nat_alt)
  have "take 1 (encoded ?e) = [9]"
    by (simp add: encoded_eq entry_header_def PutUint64_def entry_payload_def le_put_numeral)
  moreover have "encoded ?e2 = [8, 0, 0, 0, 0, 0, 0, 0] @ PutUint32 (ChecksumIEEE (entry_payload ?e2)) @ entry_payload ?e2"
    by (simp add: encoded_eq entry_header_def PutUint64_def entry_payload_def le_put_numeral)
  ultimately have "take 12 (take 1 (encoded ?e) @ encoded ?e2) =
      [9, 8, 0, 0, 0, 0, 0, 0, 0] @ take 3 (PutUint32 (ChecksumIEEE (entry_payload ?e2)))"
    by simp
  moreover have "unat (Uint64 [9, 8, 0, 0, 0, 0, 0, 0]) = 2057"
    by (simp add: Uint64_def)
  ultimately have "benign (take 1 (encoded ?e) @ encoded ?e2)"
    using len by (simp add: benign_def Decode_def ReadFull_def plain_reader_def Let_def maxPayloadSize_def)
  then have "replayFile no_faults ?p [(?p, ?f (take 1 (encoded ?e) @ encoded ?e2) [])] = Inr ([], 0)"
    using replayFile_entries [of _ ?p _ "[]"] by (simp add: file_bytes_def seg_bytes_def entries_ok_def)
  then have "wal_ReadAll no_faults (?w 21 2) [(?p, ?f (take 1 (encoded ?e) @ encoded ?e2) [])] = Inr []"
    by (simp add: wal_ReadAll_def)
  with open0 fail good show ?thesis by blast
qed

end
