(* ===== verification/Lease.thy ===== *)
theory Lease
  imports VaultFS_Prelude
begin

text \<open>
  Write leases on chunks (\<^verbatim>\<open>internal/metadata/lease.go\<close>). Each method is one critical section and so
  one function; the injectable clock \<^verbatim>\<open>m.now\<close> is the argument \<open>now\<close>, the value it returned. The
  pointers stored in \<^verbatim>\<open>m.leases\<close> never leave the manager (callers get copies), so the map holds
  the leases themselves.
\<close>

section \<open>Model\<close>

record Lease =
  l_ChunkID :: string
  l_Holder :: string
  l_Expiry :: gtime

datatype lease_error = ErrLeaseHeld | ErrLeaseNotHeld

definition DefaultLeaseTTL :: duration where
  "DefaultLeaseTTL = 60 * 10 ^ 9"

definition lease_expired :: "Lease \<Rightarrow> gtime \<Rightarrow> bool" where
  "lease_expired l now \<longleftrightarrow> \<not> now < l_Expiry l"

record LeaseManager =
  lm_leases :: "(string, Lease) gomap"
  lm_ttl :: duration

definition NewLeaseManager :: "duration \<Rightarrow> LeaseManager" where
  "NewLeaseManager ttl = \<lparr>lm_leases = [], lm_ttl = (if ttl \<le> 0 then DefaultLeaseTTL else ttl)\<rparr>"

definition lease_Grant :: "gtime \<Rightarrow> string \<Rightarrow> string \<Rightarrow> LeaseManager \<Rightarrow> LeaseManager \<times> (lease_error + Lease)" where
  "lease_Grant now chunkID holder m =
     (let lease = \<lparr>l_ChunkID = chunkID, l_Holder = holder, l_Expiry = now + lm_ttl m\<rparr>;
          granted = (m\<lparr>lm_leases := gm_set chunkID lease (lm_leases m)\<rparr>, Inr lease)
      in case gm_lookup (lm_leases m) chunkID of
           Some existing \<Rightarrow>
             if \<not> lease_expired existing now
             then (if l_Holder existing \<noteq> holder then (m, Inl ErrLeaseHeld) else granted)
             else granted
         | None \<Rightarrow> granted)"

definition lease_Renew :: "gtime \<Rightarrow> string \<Rightarrow> string \<Rightarrow> LeaseManager \<Rightarrow> LeaseManager \<times> (lease_error + Lease)" where
  "lease_Renew now chunkID holder m =
     (case gm_lookup (lm_leases m) chunkID of
        None \<Rightarrow> (m, Inl ErrLeaseNotHeld)
      | Some existing \<Rightarrow>
          if lease_expired existing now \<or> l_Holder existing \<noteq> holder then (m, Inl ErrLeaseNotHeld)
          else let existing' = existing\<lparr>l_Expiry := now + lm_ttl m\<rparr>
            in (m\<lparr>lm_leases := gm_set chunkID existing' (lm_leases m)\<rparr>, Inr existing'))"

definition lease_Revoke :: "gtime \<Rightarrow> string \<Rightarrow> string \<Rightarrow> LeaseManager \<Rightarrow> LeaseManager \<times> lease_error option" where
  "lease_Revoke now chunkID holder m =
     (case gm_lookup (lm_leases m) chunkID of
        None \<Rightarrow> (m, Some ErrLeaseNotHeld)
      | Some existing \<Rightarrow>
          if lease_expired existing now \<or> l_Holder existing \<noteq> holder then (m, Some ErrLeaseNotHeld)
          else (m\<lparr>lm_leases := gm_delete chunkID (lm_leases m)\<rparr>, None))"

definition lease_Check :: "gtime \<Rightarrow> string \<Rightarrow> LeaseManager \<Rightarrow> Lease option" where
  "lease_Check now chunkID m =
     (case gm_lookup (lm_leases m) chunkID of
        None \<Rightarrow> None
      | Some existing \<Rightarrow> if lease_expired existing now then None else Some existing)"

fun lease_count_loop :: "gtime \<Rightarrow> (string \<times> Lease) list \<Rightarrow> nat \<Rightarrow> nat" where
  "lease_count_loop now [] n = n"
| "lease_count_loop now ((_, lease) # es) n =
     lease_count_loop now es (if \<not> lease_expired lease now then n + 1 else n)"

definition lease_Count :: "gtime \<Rightarrow> LeaseManager \<Rightarrow> nat" where
  "lease_Count now m = lease_count_loop now (lm_leases m) 0"

fun lease_sweep_loop ::
  "gtime \<Rightarrow> (string \<times> Lease) list \<Rightarrow> (string, Lease) gomap \<Rightarrow> nat \<Rightarrow> (string, Lease) gomap \<times> nat" where
  "lease_sweep_loop now [] leases n = (leases, n)"
| "lease_sweep_loop now ((chunkID, lease) # es) leases n =
     (if lease_expired lease now then lease_sweep_loop now es (gm_delete chunkID leases) (n + 1)
      else lease_sweep_loop now es leases n)"

definition lease_SweepExpired :: "gtime \<Rightarrow> LeaseManager \<Rightarrow> LeaseManager \<times> nat" where
  "lease_SweepExpired now m =
     (case lease_sweep_loop now (lm_leases m) (lm_leases m) 0 of
        (leases, n) \<Rightarrow> (m\<lparr>lm_leases := leases\<rparr>, n))"

section \<open>Lemmas\<close>

lemmas lease_defs = lease_Grant_def lease_Renew_def lease_Revoke_def lease_Check_def Let_def lease_expired_def

lemma lease_sweep_loop_eq:
  "lease_sweep_loop now es m n =
     (gm_sweep_loop (\<lambda>_ l. lease_expired l now) es m, n + length (filter (\<lambda>(_, l). lease_expired l now) es))"
  by (induction now es m n rule: lease_sweep_loop.induct) auto

lemma lease_SweepExpired_eq:
  "lease_SweepExpired now m =
     (m\<lparr>lm_leases := gm_sweep (\<lambda>_ l. lease_expired l now) (lm_leases m)\<rparr>,
      length (filter (\<lambda>(_, l). lease_expired l now) (lm_leases m)))"
  by (simp add: lease_SweepExpired_def lease_sweep_loop_eq gm_sweep_def)

lemma lease_count_loop_eq:
  "lease_count_loop now es n = n + length (filter (\<lambda>(_, l). \<not> lease_expired l now) es)"
  by (induction now es n rule: lease_count_loop.induct) auto

text \<open>Counting entries of a map is counting the keys that are looked up with the property.\<close>

lemma gm_count_lookup:
  assumes "gm_wf m"
  shows "length (filter (\<lambda>(_, v). p v) m) = card {k. \<exists>v. gm_lookup m k = Some v \<and> p v}"
proof -
  have "{k. \<exists>v. gm_lookup m k = Some v \<and> p v} = set (map fst (filter (\<lambda>(_, v). p v) m))"
    using assms by (force simp: gm_entries_iff image_iff)
  moreover have "distinct (map fst (filter (\<lambda>(_, v). p v) m))"
    using assms by (simp add: gm_wf_def distinct_map_filter)
  ultimately show ?thesis
    by (metis distinct_card length_map)
qed

lemma lease_Count_card:
  assumes "gm_wf (lm_leases m)"
  shows "lease_Count now m = card {c. lease_Check now c m \<noteq> None}"
proof -
  have "{c. lease_Check now c m \<noteq> None} = {k. \<exists>v. gm_lookup (lm_leases m) k = Some v \<and> \<not> lease_expired v now}"
    by (auto simp: lease_Check_def split: option.splits)
  then show ?thesis
    using gm_count_lookup [OF assms] by (simp add: lease_Count_def lease_count_loop_eq)
qed

text \<open>The calls on a manager by any node, as a sequence of steps at given times.\<close>

datatype lease_op = GrantOp string string | RenewOp string string | RevokeOp string string | SweepOp

fun lease_step :: "gtime \<times> lease_op \<Rightarrow> LeaseManager \<Rightarrow> LeaseManager" where
  "lease_step (now, GrantOp c h) m = fst (lease_Grant now c h m)"
| "lease_step (now, RenewOp c h) m = fst (lease_Renew now c h m)"
| "lease_step (now, RevokeOp c h) m = fst (lease_Revoke now c h m)"
| "lease_step (now, SweepOp) m = fst (lease_SweepExpired now m)"

definition lease_run :: "(gtime \<times> lease_op) list \<Rightarrow> LeaseManager \<Rightarrow> LeaseManager" where
  "lease_run ops m = fold lease_step ops m"

lemma lease_step_ttl: "lm_ttl (lease_step op m) = lm_ttl m"
  by (cases "(op, m)" rule: lease_step.cases)
    (auto simp: lease_defs lease_SweepExpired_eq split: option.split)

lemma lease_step_wf: "gm_wf (lm_leases m) \<Longrightarrow> gm_wf (lm_leases (lease_step op m))"
  by (cases "(op, m)" rule: lease_step.cases)
    (auto simp: lease_defs lease_SweepExpired_eq split: option.split)

definition holds_until :: "string \<Rightarrow> string \<Rightarrow> gtime \<Rightarrow> LeaseManager \<Rightarrow> bool" where
  "holds_until c h expiry m \<longleftrightarrow>
     (\<exists>l. gm_lookup (lm_leases m) c = Some l \<and> l_Holder l = h \<and> expiry \<le> l_Expiry l)"

lemma lease_step_holds:
  assumes "gm_wf (lm_leases m)" and "holds_until c h expiry m" and "expiry - lm_ttl m \<le> now" and "now < expiry"
    and "op \<noteq> RevokeOp c h"
  shows "holds_until c h expiry (lease_step (now, op) m)"
  using assms
  by (cases op) (auto simp: holds_until_def lease_defs lease_SweepExpired_eq gomap_simps split: option.splits)

lemma lease_run_holds:
  assumes "gm_wf (lm_leases m)" and "holds_until c h expiry m"
    and "\<forall>(now, op) \<in> set ops. expiry - lm_ttl m \<le> now \<and> now < expiry \<and> op \<noteq> RevokeOp c h"
  shows "holds_until c h expiry (lease_run ops m)"
  using assms
proof (induction ops arbitrary: m)
  case (Cons op ops)
  then show ?case
    using lease_step_holds [of m c h expiry "fst op" "snd op"] lease_step_wf [of m op] lease_step_ttl [of op m]
    by (auto simp: lease_run_def)
qed (simp add: lease_run_def)

section \<open>Properties\<close>

text \<open>
  C27: a lease is exclusive until it expires. After a node got a lease, whatever calls any nodes make
  before its expiry (grants, renewals, revocations and sweeps, at times not before the grant),
  except the holder revoking it, \<^verbatim>\<open>Check\<close> reports the holder at every earlier time than the
  expiry, and \<^verbatim>\<open>Grant\<close> refuses every other node with \<^verbatim>\<open>ErrLeaseHeld\<close>.
\<close>

theorem lease_exclusive:
  assumes "gm_wf (lm_leases m)" and "lease_Grant now c h m = (m1, Inr l)"
    and "\<forall>(t, op) \<in> set ops. now \<le> t \<and> t < l_Expiry l \<and> op \<noteq> RevokeOp c h"
    and "t < l_Expiry l"
  shows "map_option l_Holder (lease_Check t c (lease_run ops m1)) = Some h \<and>
      (\<forall>h'. h' \<noteq> h \<longrightarrow> lease_Grant t c h' (lease_run ops m1) = (lease_run ops m1, Inl ErrLeaseHeld))"
proof -
  have "holds_until c h (l_Expiry l) m1" and "gm_wf (lm_leases m1)" and "l_Expiry l - lm_ttl m1 = now"
    using assms(1,2) by (auto simp: holds_until_def lease_defs gomap_simps split: option.splits if_splits)
  then have "holds_until c h (l_Expiry l) (lease_run ops m1)"
    using assms(3) by (intro lease_run_holds) auto
  with assms(4) show ?thesis
    by (auto simp: holds_until_def lease_defs)
qed

theorem lease_exclusive_witness:
  "let m = fst (lease_Grant 100 ''c1'' ''n1'' (NewLeaseManager 50));
       m' = lease_run [(110, GrantOp ''c1'' ''n2''), (120, RevokeOp ''c1'' ''n2''), (130, SweepOp)] m
   in map_option l_Holder (lease_Check 149 ''c1'' m') = Some ''n1'' \<and>
      lease_Grant 149 ''c1'' ''n2'' m' = (m', Inl ErrLeaseHeld)"
proof -
  let ?g = "lease_Grant 100 ''c1'' ''n1'' (NewLeaseManager 50)"
  have "?g = (fst ?g, Inr \<lparr>l_ChunkID = ''c1'', l_Holder = ''n1'', l_Expiry = 150\<rparr>)"
    and "gm_wf (lm_leases (NewLeaseManager 50))"
    by (simp_all add: lease_Grant_def Let_def NewLeaseManager_def)
  from lease_exclusive [OF this(2,1), of "[(110, GrantOp ''c1'' ''n2''), (120, RevokeOp ''c1'' ''n2''), (130, SweepOp)]" 149]
  show ?thesis by (simp add: Let_def)
qed

text \<open>
  C33: what \<^verbatim>\<open>Grant\<close>, \<^verbatim>\<open>Renew\<close> and \<^verbatim>\<open>Revoke\<close> decide, in terms of the valid lease that \<^verbatim>\<open>Check\<close> reports at
  the same time: a grant succeeds unless another node holds a valid lease (so an expired lease is
  free for everyone), a renewal and a revocation succeed exactly for the holder of a valid lease;
  a granted or renewed lease runs for the manager's lifetime from now, a revoked one is gone, a
  refused call changes nothing, and leases on other chunks are never touched.
\<close>

theorem lease_decisions:
  "(case lease_Grant now c h m of
      (m', Inr l) \<Rightarrow> (\<forall>l'. lease_Check now c m = Some l' \<longrightarrow> l_Holder l' = h) \<and>
        l = \<lparr>l_ChunkID = c, l_Holder = h, l_Expiry = now + lm_ttl m\<rparr> \<and> gm_lookup (lm_leases m') = (gm_lookup (lm_leases m))(c \<mapsto> l)
    | (m', Inl err) \<Rightarrow> (\<exists>l'. lease_Check now c m = Some l' \<and> l_Holder l' \<noteq> h) \<and> err = ErrLeaseHeld \<and> m' = m) \<and>
   (case lease_Renew now c h m of
      (m', Inr l) \<Rightarrow> (\<exists>l'. lease_Check now c m = Some l' \<and> l_Holder l' = h \<and> l = l'\<lparr>l_Expiry := now + lm_ttl m\<rparr>) \<and>
        gm_lookup (lm_leases m') = (gm_lookup (lm_leases m))(c \<mapsto> l)
    | (m', Inl err) \<Rightarrow> (\<nexists>l'. lease_Check now c m = Some l' \<and> l_Holder l' = h) \<and> err = ErrLeaseNotHeld \<and> m' = m) \<and>
   (case lease_Revoke now c h m of
      (m', None) \<Rightarrow> (\<exists>l'. lease_Check now c m = Some l' \<and> l_Holder l' = h) \<and>
        gm_lookup (lm_leases m') = (gm_lookup (lm_leases m))(c := None)
    | (m', Some err) \<Rightarrow> (\<nexists>l'. lease_Check now c m = Some l' \<and> l_Holder l' = h) \<and> err = ErrLeaseNotHeld \<and> m' = m)"
  by (auto simp: lease_defs gomap_simps split: option.splits)

theorem lease_decisions_witness:
  "let m = fst (lease_Grant 100 ''c1'' ''n1'' (NewLeaseManager 50))
   in snd (lease_Grant 120 ''c1'' ''n2'' m) = Inl ErrLeaseHeld \<and>
      snd (lease_Grant 150 ''c1'' ''n2'' m) = Inr \<lparr>l_ChunkID = ''c1'', l_Holder = ''n2'', l_Expiry = 200\<rparr>"
  using lease_decisions [where now = 120 and c = "''c1''" and h = "''n2''" and m = "fst (lease_Grant 100 ''c1'' ''n1'' (NewLeaseManager 50))"]
    lease_decisions [where now = 150 and c = "''c1''" and h = "''n2''" and m = "fst (lease_Grant 100 ''c1'' ''n1'' (NewLeaseManager 50))"]
  by (simp add: lease_defs NewLeaseManager_def split: prod.splits sum.splits)



end
