(* ===== verification/Chunk_Map.thy ===== *)
theory Chunk_Map
  imports VaultFS_Prelude
begin

text \<open>
  Replica locations (\<^verbatim>\<open>internal/metadata/chunkmap.go\<close>) and the liveness monitor over them
  (\<^verbatim>\<open>internal/metadata/heartbeat.go\<close>). Slices of locations are lists: the loops that filter with
  \<^verbatim>\<open>locs[:0]\<close> reuse an array that no caller sees, because the methods hand out copies.

  The chunk map is specified as a function from chunk and node to address; the operations are
  shown to be the pointwise updates of that function.
\<close>

section \<open>chunkmap.go\<close>

record Location =
  loc_NodeID :: string
  loc_Address :: string

type_synonym ChunkMap = "(string, Location list) gomap"

definition NewChunkMap :: ChunkMap where
  "NewChunkMap = []"

fun add_location_loop :: "Location \<Rightarrow> Location list \<Rightarrow> Location list" where
  "add_location_loop loc [] = [loc]"
| "add_location_loop loc (l # locs) =
     (if loc_NodeID l = loc_NodeID loc then loc # locs else l # add_location_loop loc locs)"

definition AddLocation :: "string \<Rightarrow> Location \<Rightarrow> ChunkMap \<Rightarrow> ChunkMap" where
  "AddLocation chunkID loc cm = gm_set chunkID (add_location_loop loc (gm_get [] cm chunkID)) cm"

fun without_node_loop :: "string \<Rightarrow> Location list \<Rightarrow> Location list \<Rightarrow> Location list" where
  "without_node_loop nodeID [] out = out"
| "without_node_loop nodeID (l # locs) out =
     without_node_loop nodeID locs (if loc_NodeID l \<noteq> nodeID then out @ [l] else out)"

definition RemoveLocation :: "string \<Rightarrow> string \<Rightarrow> ChunkMap \<Rightarrow> ChunkMap" where
  "RemoveLocation chunkID nodeID cm =
     (let out = without_node_loop nodeID (gm_get [] cm chunkID) []
      in if length out = 0 then gm_delete chunkID cm else gm_set chunkID out cm)"

text \<open>\<^verbatim>\<open>nil\<close> for an unknown chunk is the empty list.\<close>

definition GetLocations :: "string \<Rightarrow> ChunkMap \<Rightarrow> Location list" where
  "GetLocations chunkID cm = gm_get [] cm chunkID"

fun remove_node_loop :: "string \<Rightarrow> (string \<times> Location list) list \<Rightarrow> ChunkMap \<Rightarrow> ChunkMap" where
  "remove_node_loop nodeID [] cm = cm"
| "remove_node_loop nodeID ((chunkID, locs) # es) cm =
     (let out = without_node_loop nodeID locs []
      in remove_node_loop nodeID es (if length out = 0 then gm_delete chunkID cm else gm_set chunkID out cm))"

definition RemoveNode :: "string \<Rightarrow> ChunkMap \<Rightarrow> ChunkMap" where
  "RemoveNode nodeID cm = remove_node_loop nodeID cm cm"

definition ChunkCount :: "ChunkMap \<Rightarrow> nat" where
  "ChunkCount cm = length cm"

fun under_replicated_loop :: "int \<Rightarrow> (string \<times> Location list) list \<Rightarrow> ChunkMap \<Rightarrow> ChunkMap" where
  "under_replicated_loop factor [] out = out"
| "under_replicated_loop factor ((chunkID, locs) # es) out =
     under_replicated_loop factor es (if int (length locs) < factor then gm_set chunkID locs out else out)"

definition UnderReplicated :: "int \<Rightarrow> ChunkMap \<Rightarrow> ChunkMap" where
  "UnderReplicated factor cm = under_replicated_loop factor cm []"

section \<open>heartbeat.go\<close>

definition DefaultDeadTimeout :: duration where
  "DefaultDeadTimeout = 15 * 10 ^ 9"

definition DefaultReplicationFactor :: int where
  "DefaultReplicationFactor = 3"

record ReplicationTask =
  rt_ChunkID :: string
  rt_Sources :: "Location list"
  rt_Need :: int

text \<open>
  The monitor's chunk map is shared with the master and is an argument of the methods that use it.
  The difference of two times saturates in Go at the largest duration, about 292 years, which no
  clock reading here reaches.
\<close>

record Monitor =
  mon_lastSeen :: "(string, gtime) gomap"
  mon_timeout :: duration
  mon_replicationFactor :: int

definition NewMonitor :: "duration \<Rightarrow> int \<Rightarrow> Monitor" where
  "NewMonitor timeout factor =
     \<lparr>mon_lastSeen = [], mon_timeout = (if timeout \<le> 0 then DefaultDeadTimeout else timeout),
      mon_replicationFactor = (if factor \<le> 0 then DefaultReplicationFactor else factor)\<rparr>"

definition RecordHeartbeat :: "gtime \<Rightarrow> string \<Rightarrow> Monitor \<Rightarrow> Monitor" where
  "RecordHeartbeat now nodeID m = m\<lparr>mon_lastSeen := gm_set nodeID now (mon_lastSeen m)\<rparr>"

definition LastSeen :: "string \<Rightarrow> Monitor \<Rightarrow> gtime option" where
  "LastSeen nodeID m = gm_lookup (mon_lastSeen m) nodeID"

definition IsAlive :: "gtime \<Rightarrow> string \<Rightarrow> Monitor \<Rightarrow> bool" where
  "IsAlive now nodeID m =
     (case gm_lookup (mon_lastSeen m) nodeID of None \<Rightarrow> False | Some ts \<Rightarrow> now - ts \<le> mon_timeout m)"

fun live_loop :: "gtime \<Rightarrow> duration \<Rightarrow> (string \<times> gtime) list \<Rightarrow> string list \<Rightarrow> string list" where
  "live_loop now timeout [] live = live"
| "live_loop now timeout ((nodeID, ts) # es) live =
     live_loop now timeout es (if now - ts \<le> timeout then live @ [nodeID] else live)"

definition LiveNodes :: "gtime \<Rightarrow> Monitor \<Rightarrow> string list" where
  "LiveNodes now m = live_loop now (mon_timeout m) (mon_lastSeen m) []"

fun dead_loop :: "gtime \<Rightarrow> duration \<Rightarrow> (string \<times> gtime) list \<Rightarrow> string list \<Rightarrow> (string, gtime) gomap \<Rightarrow>
    string list \<times> (string, gtime) gomap" where
  "dead_loop now timeout [] dead lastSeen = (dead, lastSeen)"
| "dead_loop now timeout ((nodeID, ts) # es) dead lastSeen =
     (if now - ts > timeout then dead_loop now timeout es (dead @ [nodeID]) (gm_delete nodeID lastSeen)
      else dead_loop now timeout es dead lastSeen)"

fun evict_loop :: "string list \<Rightarrow> ChunkMap \<Rightarrow> ChunkMap" where
  "evict_loop [] cm = cm"
| "evict_loop (nodeID # dead) cm = evict_loop dead (RemoveNode nodeID cm)"

fun task_loop :: "int \<Rightarrow> (string \<times> Location list) list \<Rightarrow> ReplicationTask list \<Rightarrow> ReplicationTask list" where
  "task_loop factor [] tasks = tasks"
| "task_loop factor ((chunkID, locs) # es) tasks =
     task_loop factor es
       (tasks @ [\<lparr>rt_ChunkID = chunkID, rt_Sources = locs, rt_Need = factor - int (length locs)\<rparr>])"

text \<open>
  The list of dead nodes is also the sequence of calls to \<^verbatim>\<open>OnNodeDead\<close>.
\<close>

definition monitor_Sweep ::
  "gtime \<Rightarrow> Monitor \<Rightarrow> ChunkMap \<Rightarrow> Monitor \<times> ChunkMap \<times> string list \<times> ReplicationTask list" where
  "monitor_Sweep now m cm =
     (let (dead, lastSeen) = dead_loop now (mon_timeout m) (mon_lastSeen m) [] (mon_lastSeen m);
          m' = m\<lparr>mon_lastSeen := lastSeen\<rparr>;
          cm' = evict_loop dead cm
      in if length dead = 0 then (m', cm', dead, [])
         else (m', cm', dead, task_loop (mon_replicationFactor m) (UnderReplicated (mon_replicationFactor m) cm') []))"

text \<open>
  One tick of \<^verbatim>\<open>Run\<close>, and the loop over the ticks up to the cancellation of the context. \<open>onTasks\<close>
  acts on a state of its own.
\<close>

definition monitor_tick :: "('s \<Rightarrow> ReplicationTask list \<Rightarrow> 's) option \<Rightarrow> gtime \<Rightarrow>
    Monitor \<times> ChunkMap \<times> 's \<Rightarrow> Monitor \<times> ChunkMap \<times> 's" where
  "monitor_tick onTasks now st =
     (case st of (m, cm, s) \<Rightarrow>
       case monitor_Sweep now m cm of (m', cm', _, tasks) \<Rightarrow>
         (m', cm', case onTasks of None \<Rightarrow> s | Some f \<Rightarrow> if length tasks > 0 then f s tasks else s))"

fun monitor_Run :: "('s \<Rightarrow> ReplicationTask list \<Rightarrow> 's) option \<Rightarrow> gtime list \<Rightarrow>
    Monitor \<times> ChunkMap \<times> 's \<Rightarrow> Monitor \<times> ChunkMap \<times> 's" where
  "monitor_Run onTasks [] st = st"
| "monitor_Run onTasks (now # ticks) st = monitor_Run onTasks ticks (monitor_tick onTasks now st)"

section \<open>Invariant and abstraction\<close>

text \<open>A tracked chunk has at least one replica, and at most one on a node.\<close>

definition locations_ok :: "Location list \<Rightarrow> bool" where
  "locations_ok locs \<longleftrightarrow> locs \<noteq> [] \<and> distinct (map loc_NodeID locs)"

definition chunk_map_ok :: "ChunkMap \<Rightarrow> bool" where
  "chunk_map_ok cm \<longleftrightarrow> gm_wf cm \<and> (\<forall>chunkID locs. gm_lookup cm chunkID = Some locs \<longrightarrow> locations_ok locs)"

definition replicas :: "ChunkMap \<Rightarrow> string \<Rightarrow> string \<Rightarrow> string option" where
  "replicas cm chunkID = map_of (map (\<lambda>l. (loc_NodeID l, loc_Address l)) (gm_get [] cm chunkID))"

lemma without_node_loop_eq: "without_node_loop n locs out = out @ filter (\<lambda>l. loc_NodeID l \<noteq> n) locs"
  by (induction n locs out rule: without_node_loop.induct) auto

lemma locations_ok_single [simp]: "locations_ok [loc]"
  by (simp add: locations_ok_def)

lemma add_location_nodes: "loc_NodeID ` set (add_location_loop loc locs) = insert (loc_NodeID loc) (loc_NodeID ` set locs)"
  by (induction loc locs rule: add_location_loop.induct) auto

lemma add_location_ok: "distinct (map loc_NodeID locs) \<Longrightarrow> locations_ok (add_location_loop loc locs)"
proof (induction loc locs rule: add_location_loop.induct)
  case (2 loc l locs)
  then show ?case
    using add_location_nodes [of loc locs] by (auto simp: locations_ok_def)
qed (simp add: locations_ok_def)

lemma add_location_lookup:
  "map_of (map (\<lambda>l. (loc_NodeID l, loc_Address l)) (add_location_loop loc locs)) =
     (map_of (map (\<lambda>l. (loc_NodeID l, loc_Address l)) locs))(loc_NodeID loc \<mapsto> loc_Address loc)"
  by (induction loc locs rule: add_location_loop.induct) auto

lemma without_node_lookup:
  "map_of (map (\<lambda>l. (loc_NodeID l, loc_Address l)) (filter (\<lambda>l. loc_NodeID l \<noteq> n) locs)) =
     (map_of (map (\<lambda>l. (loc_NodeID l, loc_Address l)) locs))(n := None)"
  by (induction locs) auto

lemma locations_ok_filter:
  "locations_ok locs \<Longrightarrow> filter p locs \<noteq> [] \<Longrightarrow> locations_ok (filter p locs)"
  by (simp add: locations_ok_def distinct_map_filter)

text \<open>The loop of \<^verbatim>\<open>RemoveNode\<close> rewrites every entry it visits and no other.\<close>

lemma remove_node_loop_lookup:
  assumes "distinct (map fst es)"
  shows "gm_lookup (remove_node_loop n es cm) c =
    (case gm_lookup es c of None \<Rightarrow> gm_lookup cm c
     | Some locs \<Rightarrow> let out = filter (\<lambda>l. loc_NodeID l \<noteq> n) locs in if out = [] then None else Some out)"
  using assms
proof (induction n es cm rule: remove_node_loop.induct)
  case (2 n chunkID locs es cm)
  then show ?case
    by (cases "c = chunkID")
      (auto simp: Let_def without_node_loop_eq gomap_simps map_of_eq_None_iff [THEN iffD2] split: option.split)
qed simp

lemma remove_node_loop_wf: "gm_wf cm \<Longrightarrow> gm_wf (remove_node_loop n es cm)"
  by (induction n es cm rule: remove_node_loop.induct) (auto simp: Let_def gm.invar_update gm.invar_delete)

lemma RemoveNode_wf: "gm_wf cm \<Longrightarrow> gm_wf (RemoveNode n cm)"
  by (simp add: RemoveNode_def remove_node_loop_wf)

lemma RemoveNode_lookup:
  assumes "gm_wf cm"
  shows "gm_lookup (RemoveNode n cm) c =
    (case gm_lookup cm c of None \<Rightarrow> None
     | Some locs \<Rightarrow> let out = filter (\<lambda>l. loc_NodeID l \<noteq> n) locs in if out = [] then None else Some out)"
  using assms by (auto simp: RemoveNode_def remove_node_loop_lookup gm_wf_def split: option.split)

lemma under_replicated_loop_lookup:
  assumes "distinct (map fst es)"
  shows "gm_lookup (under_replicated_loop k es out) c =
    (case gm_lookup es c of None \<Rightarrow> gm_lookup out c
     | Some locs \<Rightarrow> if int (length locs) < k then Some locs else gm_lookup out c)"
  using assms
proof (induction k es out rule: under_replicated_loop.induct)
  case (2 k chunkID locs es out)
  then show ?case
    by (cases "c = chunkID") (auto simp: gomap_simps map_of_eq_None_iff [THEN iffD2] split: option.split)
qed simp

lemma under_replicated_loop_wf: "gm_wf out \<Longrightarrow> gm_wf (under_replicated_loop k es out)"
  by (induction k es out rule: under_replicated_loop.induct) (auto simp: gm.invar_update)

lemma UnderReplicated_lookup:
  "gm_wf cm \<Longrightarrow> gm_lookup (UnderReplicated k cm) c =
     (case gm_lookup cm c of None \<Rightarrow> None | Some locs \<Rightarrow> if int (length locs) < k then Some locs else None)"
  by (auto simp: UnderReplicated_def under_replicated_loop_lookup gm_wf_def split: option.split)

lemma UnderReplicated_wf: "gm_wf (UnderReplicated k cm)"
  by (simp add: UnderReplicated_def under_replicated_loop_wf)

lemma replicas_RemoveNode:
  "gm_wf cm \<Longrightarrow> replicas (RemoveNode n cm) c = (replicas cm c)(n := None)"
  by (auto simp: replicas_def gm_get_def RemoveNode_lookup Let_def without_node_lookup [symmetric] split: option.split)

lemma RemoveNode_ok: "chunk_map_ok cm \<Longrightarrow> chunk_map_ok (RemoveNode n cm)"
  by (auto simp: chunk_map_ok_def RemoveNode_lookup Let_def RemoveNode_wf
      intro: locations_ok_filter split: option.splits if_splits)

lemma evict_loop_ok: "chunk_map_ok cm \<Longrightarrow> chunk_map_ok (evict_loop dead cm)"
  by (induction dead arbitrary: cm) (auto intro: RemoveNode_ok)

lemma evict_loop_replicas:
  "chunk_map_ok cm \<Longrightarrow> replicas (evict_loop dead cm) c n = (if n \<in> set dead then None else replicas cm c n)"
proof (induction dead arbitrary: cm)
  case (Cons d dead)
  then show ?case
    using RemoveNode_ok [OF Cons.prems] by (simp add: replicas_RemoveNode chunk_map_ok_def)
qed simp

lemma dead_loop_eq:
  "dead_loop now timeout es dead m =
     (dead @ map fst (filter (\<lambda>(_, ts). now - ts > timeout) es), gm_sweep_loop (\<lambda>_ ts. now - ts > timeout) es m)"
  by (induction now timeout es dead m rule: dead_loop.induct) auto

lemma live_loop_eq:
  "live_loop now timeout es live = live @ map fst (filter (\<lambda>(_, ts). now - ts \<le> timeout) es)"
  by (induction now timeout es live rule: live_loop.induct) auto

lemma task_loop_eq:
  "task_loop k es tasks = tasks @ map (\<lambda>(c, locs).
     \<lparr>rt_ChunkID = c, rt_Sources = locs, rt_Need = k - int (length locs)\<rparr>) es"
  by (induction k es tasks rule: task_loop.induct) auto

lemma monitor_Sweep_eq:
  "monitor_Sweep now m cm =
     (let dead = map fst (filter (\<lambda>(_, ts). now - ts > mon_timeout m) (mon_lastSeen m)); cm' = evict_loop dead cm
      in (m\<lparr>mon_lastSeen := gm_sweep (\<lambda>_ ts. now - ts > mon_timeout m) (mon_lastSeen m)\<rparr>, cm', dead,
          if dead = [] then [] else map (\<lambda>(c, locs).
            \<lparr>rt_ChunkID = c, rt_Sources = locs, rt_Need = mon_replicationFactor m - int (length locs)\<rparr>)
              (UnderReplicated (mon_replicationFactor m) cm')))"
  by (simp add: monitor_Sweep_def dead_loop_eq task_loop_eq gm_sweep_def Let_def)

lemma locations_card:
  assumes "chunk_map_ok cm"
  shows "length (GetLocations c cm) = card (dom (replicas cm c))"
    and "\<lparr>loc_NodeID = n, loc_Address = a\<rparr> \<in> set (GetLocations c cm) \<longleftrightarrow> replicas cm c n = Some a"
    and "replicas cm c = Map.empty \<longleftrightarrow> gm_lookup cm c = None"
proof -
  let ?locs = "GetLocations c cm" and ?pair = "\<lambda>l. (loc_NodeID l, loc_Address l)"
  have d: "distinct (map fst (map ?pair ?locs))"
    using assms by (auto simp: GetLocations_def gm_get_def chunk_map_ok_def locations_ok_def comp_def split: option.splits)
  have r: "replicas cm c = map_of (map ?pair ?locs)"
    by (simp add: replicas_def GetLocations_def)
  show "length ?locs = card (dom (replicas cm c))"
    using distinct_card [OF d] by (simp add: r dom_map_of_conv_image_fst image_image)
  have "(n, a) \<in> set (map ?pair ?locs) \<longleftrightarrow> \<lparr>loc_NodeID = n, loc_Address = a\<rparr> \<in> set ?locs"
  proof
    assume "(n, a) \<in> set (map ?pair ?locs)"
    then obtain l where "l \<in> set ?locs" "loc_NodeID l = n" "loc_Address l = a" by auto
    then show "\<lparr>loc_NodeID = n, loc_Address = a\<rparr> \<in> set ?locs" by - (cases l, simp)
  qed force
  with d show "\<lparr>loc_NodeID = n, loc_Address = a\<rparr> \<in> set ?locs \<longleftrightarrow> replicas cm c n = Some a"
    by (simp add: r)
  show "replicas cm c = Map.empty \<longleftrightarrow> gm_lookup cm c = None"
    using assms by (auto simp: replicas_def gm_get_def chunk_map_ok_def locations_ok_def split: option.splits)
qed

lemma AddLocation_ok: "chunk_map_ok cm \<Longrightarrow> chunk_map_ok (AddLocation c loc cm)"
  by (auto simp: chunk_map_ok_def AddLocation_def gomap_simps gm_get_def gm.invar_update locations_ok_def [THEN iffD1]
      intro!: add_location_ok split: if_splits option.splits)

lemma RemoveLocation_ok: "chunk_map_ok cm \<Longrightarrow> chunk_map_ok (RemoveLocation c n cm)"
  by (auto simp: chunk_map_ok_def RemoveLocation_def gomap_simps gm_get_def Let_def without_node_loop_eq
      gm.invar_update gm.invar_delete intro: locations_ok_filter split: if_splits option.splits)

section \<open>Properties\<close>

text \<open>
  C32: the chunk map invariant, at least one replica per tracked chunk and at most one per node,
  holds for a new map and is kept by adding and removing a location, removing a node, and a sweep
  of the monitor; the result of \<^verbatim>\<open>UnderReplicated\<close> has it too, so every chunk that is reported has
  a source to copy from.
\<close>

theorem chunk_map_invariant:
  assumes "chunk_map_ok cm"
  shows "chunk_map_ok NewChunkMap \<and> chunk_map_ok (AddLocation c loc cm) \<and> chunk_map_ok (RemoveLocation c n cm) \<and>
      chunk_map_ok (RemoveNode n cm) \<and> chunk_map_ok (UnderReplicated k cm) \<and>
      chunk_map_ok (fst (snd (monitor_Sweep now m cm)))"
proof -
  have "chunk_map_ok (UnderReplicated k cm)"
    using assms by (auto simp: chunk_map_ok_def UnderReplicated_lookup UnderReplicated_wf split: option.splits if_splits)
  then show ?thesis
    using assms by (simp add: AddLocation_ok RemoveLocation_ok RemoveNode_ok monitor_Sweep_eq Let_def evict_loop_ok)
      (simp add: chunk_map_ok_def NewChunkMap_def)
qed

definition sample_map :: ChunkMap where
  "sample_map = AddLocation ''c1'' \<lparr>loc_NodeID = ''n2'', loc_Address = ''h2:1''\<rparr>
     (AddLocation ''c1'' \<lparr>loc_NodeID = ''n1'', loc_Address = ''h1:1''\<rparr> NewChunkMap)"

lemma sample_map_eq:
  "sample_map = [(''c1'', [\<lparr>loc_NodeID = ''n1'', loc_Address = ''h1:1''\<rparr>, \<lparr>loc_NodeID = ''n2'', loc_Address = ''h2:1''\<rparr>])]"
  by (simp add: sample_map_def AddLocation_def NewChunkMap_def gm_get_def)

lemma sample_map_ok: "chunk_map_ok sample_map"
  by (simp add: sample_map_eq chunk_map_ok_def gm_wf_def locations_ok_def)

theorem chunk_map_invariant_witness:
  "chunk_map_ok sample_map \<and> chunk_map_ok (RemoveNode ''n1'' sample_map) \<and> chunk_map_ok (UnderReplicated 3 sample_map)"
  using chunk_map_invariant [OF sample_map_ok] sample_map_ok by blast

text \<open>
  C31: the chunk map implements a function from chunk and node to the replica's address. Adding a
  location, removing one and removing a node are the pointwise updates of that function;
  \<^verbatim>\<open>GetLocations\<close> lists its graph at a chunk without duplicates, \<^verbatim>\<open>ChunkCount\<close> counts the chunks with a
  replica, and \<^verbatim>\<open>UnderReplicated\<close> returns exactly the chunks with some but fewer than \<open>k\<close> replicas,
  with their locations.
\<close>

theorem chunk_map_refines_replicas:
  assumes "chunk_map_ok cm"
  shows "replicas (AddLocation c loc cm) = (replicas cm)(c := (replicas cm c)(loc_NodeID loc \<mapsto> loc_Address loc)) \<and>
      replicas (RemoveLocation c n cm) = (replicas cm)(c := (replicas cm c)(n := None)) \<and>
      replicas (RemoveNode n cm) = (\<lambda>c. (replicas cm c)(n := None)) \<and>
      (\<lparr>loc_NodeID = n, loc_Address = a\<rparr> \<in> set (GetLocations c cm) \<longleftrightarrow> replicas cm c n = Some a) \<and>
      length (GetLocations c cm) = card (dom (replicas cm c)) \<and>
      ChunkCount cm = card {c. replicas cm c \<noteq> Map.empty} \<and>
      gm_lookup (UnderReplicated k cm) c =
        (if replicas cm c \<noteq> Map.empty \<and> int (card (dom (replicas cm c))) < k then Some (GetLocations c cm) else None)"
proof -
  have wf: "gm_wf cm" using assms by (simp add: chunk_map_ok_def)
  have "{c. replicas cm c \<noteq> Map.empty} = set (map fst cm)"
    using locations_card(3) [OF assms] by (auto simp: map_of_eq_None_iff)
  then have "ChunkCount cm = card {c. replicas cm c \<noteq> Map.empty}"
    using wf distinct_card [of "map fst cm"] by (simp add: gm_wf_def ChunkCount_def)
  moreover have "gm_lookup (UnderReplicated k cm) c =
      (if replicas cm c \<noteq> Map.empty \<and> int (card (dom (replicas cm c))) < k then Some (GetLocations c cm) else None)"
    unfolding locations_card(1) [OF assms, symmetric] locations_card(3) [OF assms]
    by (simp add: UnderReplicated_lookup [OF wf] GetLocations_def gm_get_def split: option.split)
  moreover have "replicas (AddLocation c loc cm) = (replicas cm)(c := (replicas cm c)(loc_NodeID loc \<mapsto> loc_Address loc))"
    by (auto simp: fun_eq_iff replicas_def AddLocation_def gomap_simps add_location_lookup)
  moreover have "replicas (RemoveLocation c n cm) = (replicas cm)(c := (replicas cm c)(n := None))"
    by (rule ext) (auto simp: replicas_def RemoveLocation_def Let_def without_node_loop_eq gomap_simps
        without_node_lookup [symmetric])
  ultimately show ?thesis
    using locations_card(1,2) [OF assms] replicas_RemoveNode [OF wf] by auto
qed

theorem chunk_map_refines_replicas_witness:
  "replicas (RemoveNode ''n1'' sample_map) = (\<lambda>c. (replicas sample_map c)(''n1'' := None)) \<and>
   gm_lookup (UnderReplicated 3 sample_map) ''c1'' = Some (GetLocations ''c1'' sample_map)"
proof -
  have "int (card (dom (replicas sample_map ''c1''))) = 2"
    by (simp add: replicas_def sample_map_eq gm_get_def)
  moreover have "replicas sample_map ''c1'' \<noteq> Map.empty"
    by (simp add: replicas_def sample_map_eq gm_get_def)
  ultimately show ?thesis
    using chunk_map_refines_replicas [OF sample_map_ok, where c = "''c1''" and n = "''n1''" and k = 3] by simp
qed



end
