(* ===== verification/Meta_Store.thy ===== *)
theory Meta_Store
  imports VaultFS_Prelude Go_Strings
begin

text \<open>
  The transactional key/value store (\<^verbatim>\<open>internal/metadata/store.go\<close>) over BadgerDB.

  BadgerDB is a parameter: the record \<open>badger\<close> holds its transaction operations, on a database
  state \<open>'db\<close> and transactions \<open>'txn\<close>. \<^verbatim>\<open>db.View(fn)\<close> runs \<open>fn\<close> on a read-only transaction and returns
  its error, \<^verbatim>\<open>db.Update(fn)\<close> runs it on a read-write transaction and commits unless it failed. What
  the code relies on is the predicate \<open>badger_ok\<close>: reads see the last writes and do not fail, a
  commit is all or nothing, an iterator visits the pairs in key order.

  Keys are strings: \<^verbatim>\<open>[]byte(s)\<close> and \<^verbatim>\<open>string(b)\<close> keep the bytes, and a character is a byte.
\<close>

section \<open>BadgerDB\<close>

datatype badger_error = BadgerKeyNotFound | BadgerFailed string

text \<open>An item found by \<^verbatim>\<open>Get\<close> or an iterator is given by what its \<^verbatim>\<open>ValueCopy\<close> returns.\<close>

type_synonym badger_item = "badger_error + bytes"

record ('db, 'txn) badger =
  bg_NewTransaction :: "bool \<Rightarrow> 'db \<Rightarrow> 'txn"
  bg_Get :: "'txn \<Rightarrow> string \<Rightarrow> badger_error + badger_item"
  bg_Set :: "'txn \<Rightarrow> string \<Rightarrow> bytes \<Rightarrow> 'txn \<times> badger_error option"
  bg_Delete :: "'txn \<Rightarrow> string \<Rightarrow> 'txn \<times> badger_error option"
  bg_Commit :: "'db \<Rightarrow> 'txn \<Rightarrow> 'db \<times> badger_error option"
  bg_items :: "'txn \<Rightarrow> (string \<times> badger_item) list"

definition badger_Update :: "('db, 'txn) badger \<Rightarrow> 'db \<Rightarrow> ('txn \<Rightarrow> 'txn \<times> badger_error option) \<Rightarrow> 'db \<times> badger_error option" where
  "badger_Update B db fn =
     (case fn (bg_NewTransaction B True db) of
        (_, Some err) \<Rightarrow> (db, Some err)
      | (txn, None) \<Rightarrow> bg_Commit B db txn)"

text \<open>What a transaction and a database contain, as seen by reads.\<close>

definition txn_map :: "('db, 'txn) badger \<Rightarrow> 'txn \<Rightarrow> string \<Rightarrow> bytes option" where
  "txn_map B txn key = (case bg_Get B txn key of Inr (Inr v) \<Rightarrow> Some v | _ \<Rightarrow> None)"

definition db_map :: "('db, 'txn) badger \<Rightarrow> 'db \<Rightarrow> string \<Rightarrow> bytes option" where
  "db_map B db = txn_map B (bg_NewTransaction B False db)"

definition badger_ok :: "('db, 'txn) badger \<Rightarrow> bool" where
  "badger_ok B \<longleftrightarrow>
     (\<forall>db upd. txn_map B (bg_NewTransaction B upd db) = db_map B db) \<and>
     (\<forall>txn key. bg_Get B txn key = Inl BadgerKeyNotFound \<or> (\<exists>v. bg_Get B txn key = Inr (Inr v))) \<and>
     (\<forall>txn key v txn'. bg_Set B txn key v = (txn', None) \<longrightarrow> txn_map B txn' = (txn_map B txn)(key \<mapsto> v)) \<and>
     (\<forall>txn key txn'. bg_Delete B txn key = (txn', None) \<longrightarrow> txn_map B txn' = (txn_map B txn)(key := None)) \<and>
     (\<forall>db txn db'. bg_Commit B db txn = (db', None) \<longrightarrow> db_map B db' = txn_map B txn) \<and>
     (\<forall>db txn db' err. bg_Commit B db txn = (db', Some err) \<longrightarrow> db_map B db' = db_map B db) \<and>
     (\<forall>txn. sorted_wrt (<) (map fst (bg_items B txn)) \<and>
        (\<forall>key item. (key, item) \<in> set (bg_items B txn) \<longleftrightarrow> (\<exists>v. item = Inr v \<and> txn_map B txn key = Some v)))"

section \<open>store.go\<close>

datatype meta_error = ErrKeyNotFound | StoreFailed badger_error
  | ErrNotFound string | ErrAlreadyExists string | NotADirectory string | MarshalFailed string | UnmarshalFailed string

definition txn_Get :: "('db, 'txn) badger \<Rightarrow> 'txn \<Rightarrow> string \<Rightarrow> meta_error + bytes" where
  "txn_Get B txn key =
     (case bg_Get B txn key of
        Inl err \<Rightarrow> Inl (if err = BadgerKeyNotFound then ErrKeyNotFound else StoreFailed err)
      | Inr (Inl err) \<Rightarrow> Inl (StoreFailed err)
      | Inr (Inr val) \<Rightarrow> Inr val)"

definition txn_Set :: "('db, 'txn) badger \<Rightarrow> 'txn \<Rightarrow> string \<Rightarrow> bytes \<Rightarrow> 'txn \<times> meta_error option" where
  "txn_Set B txn key val = map_prod id (map_option StoreFailed) (bg_Set B txn key val)"

definition txn_Delete :: "('db, 'txn) badger \<Rightarrow> 'txn \<Rightarrow> string \<Rightarrow> 'txn \<times> meta_error option" where
  "txn_Delete B txn key = map_prod id (map_option StoreFailed) (bg_Delete B txn key)"

definition txn_Commit :: "('db, 'txn) badger \<Rightarrow> 'db \<Rightarrow> 'txn \<Rightarrow> 'db \<times> meta_error option" where
  "txn_Commit B db txn = map_prod id (map_option StoreFailed) (bg_Commit B db txn)"

definition NewTxn :: "('db, 'txn) badger \<Rightarrow> 'db \<Rightarrow> 'txn" where
  "NewTxn B db = bg_NewTransaction B True db"

definition store_Get :: "('db, 'txn) badger \<Rightarrow> 'db \<Rightarrow> string \<Rightarrow> meta_error + bytes" where
  "store_Get B db key =
     (let err_val = (case bg_Get B (bg_NewTransaction B False db) key of
            Inl err \<Rightarrow> Inl err
          | Inr item \<Rightarrow> item)
      in case err_val of
           Inl err \<Rightarrow> Inl (if err = BadgerKeyNotFound then ErrKeyNotFound else StoreFailed err)
         | Inr val \<Rightarrow> Inr val)"

definition store_Put :: "('db, 'txn) badger \<Rightarrow> 'db \<Rightarrow> string \<Rightarrow> bytes \<Rightarrow> 'db \<times> meta_error option" where
  "store_Put B db key val = map_prod id (map_option StoreFailed) (badger_Update B db (\<lambda>txn. bg_Set B txn key val))"

definition store_Delete :: "('db, 'txn) badger \<Rightarrow> 'db \<Rightarrow> string \<Rightarrow> 'db \<times> meta_error option" where
  "store_Delete B db key = map_prod id (map_option StoreFailed) (badger_Update B db (\<lambda>txn. bg_Delete B txn key))"

text \<open>
  The loop of \<^verbatim>\<open>Scan\<close>: \<^verbatim>\<open>it.Seek(prefix)\<close> moves to the first key that is not below the prefix,
  \<^verbatim>\<open>it.ValidForPrefix\<close> ends the loop at the first key without it. The callback acts on a state \<open>'s\<close>.
\<close>

fun scan_loop :: "string \<Rightarrow> ('s \<Rightarrow> string \<Rightarrow> bytes \<Rightarrow> 's \<times> meta_error option) \<Rightarrow> (string \<times> badger_item) list \<Rightarrow> 's \<Rightarrow>
    's \<times> meta_error option" where
  "scan_loop prefx fn [] s = (s, None)"
| "scan_loop prefx fn ((key, item) # items) s =
     (if \<not> prefix prefx key then (s, None)
      else case item of
        Inl err \<Rightarrow> (s, Some (StoreFailed err))
      | Inr val \<Rightarrow> (case fn s key val of
          (s', Some err) \<Rightarrow> (s', Some err)
        | (s', None) \<Rightarrow> scan_loop prefx fn items s'))"

definition store_Scan :: "('db, 'txn) badger \<Rightarrow> 'db \<Rightarrow> string \<Rightarrow> ('s \<Rightarrow> string \<Rightarrow> bytes \<Rightarrow> 's \<times> meta_error option) \<Rightarrow> 's \<Rightarrow>
    's \<times> meta_error option" where
  "store_Scan B db prefx fn s =
     scan_loop prefx fn (dropWhile (\<lambda>(key, _). key < prefx) (bg_items B (bg_NewTransaction B False db))) s"

section \<open>Lemmas\<close>

lemma badger_okD:
  assumes "badger_ok B"
  shows badger_new: "txn_map B (bg_NewTransaction B upd db) = db_map B db"
    and badger_get: "bg_Get B txn key = (case txn_map B txn key of None \<Rightarrow> Inl BadgerKeyNotFound | Some v \<Rightarrow> Inr (Inr v))"
    and badger_set: "bg_Set B txn key v = (txn', None) \<Longrightarrow> txn_map B txn' = (txn_map B txn)(key \<mapsto> v)"
    and badger_delete: "bg_Delete B txn key = (txn', None) \<Longrightarrow> txn_map B txn' = (txn_map B txn)(key := None)"
    and badger_commit: "bg_Commit B db txn = (db', None) \<Longrightarrow> db_map B db' = txn_map B txn"
    and badger_abort: "bg_Commit B db txn = (db', Some err) \<Longrightarrow> db_map B db' = db_map B db"
    and badger_items_sorted: "sorted_wrt (<) (map fst (bg_items B txn))"
    and badger_items: "(key, item) \<in> set (bg_items B txn) \<longleftrightarrow> (\<exists>v. item = Inr v \<and> txn_map B txn key = Some v)"
proof -
  have "bg_Get B txn key = Inl BadgerKeyNotFound \<or> (\<exists>v. bg_Get B txn key = Inr (Inr v))"
    using assms by (simp add: badger_ok_def)
  then show "bg_Get B txn key = (case txn_map B txn key of None \<Rightarrow> Inl BadgerKeyNotFound | Some v \<Rightarrow> Inr (Inr v))"
    by (auto simp: txn_map_def)
  show "bg_Commit B db txn = (db', Some err) \<Longrightarrow> db_map B db' = db_map B db"
    using assms unfolding badger_ok_def by metis
qed (use assms in \<open>simp_all add: badger_ok_def\<close>)

lemma store_Get_map:
  "badger_ok B \<Longrightarrow> store_Get B db key = (case db_map B db key of None \<Rightarrow> Inl ErrKeyNotFound | Some v \<Rightarrow> Inr v)"
  by (simp add: store_Get_def badger_get badger_new split: option.split)

text \<open>A write either takes effect as a whole or is reported and changes nothing.\<close>

lemma store_Put_map:
  assumes "badger_ok B" and "store_Put B db key v = (db', err)"
  shows "db_map B db' = (if err = None then (db_map B db)(key \<mapsto> v) else db_map B db)"
proof -
  obtain txn e where t: "bg_Set B (bg_NewTransaction B True db) key v = (txn, e)" by fastforce
  obtain db1 e1 where c: "bg_Commit B db txn = (db1, e1)" by fastforce
  show ?thesis
    using assms(2) t c badger_set [OF assms(1), of _ _ _ txn] badger_commit [OF assms(1), of db txn db1]
      badger_abort [OF assms(1), of db txn db1] badger_new [OF assms(1)]
    by (cases e; cases e1) (auto simp: store_Put_def badger_Update_def)
qed

lemma store_Delete_map:
  assumes "badger_ok B" and "store_Delete B db key = (db', err)"
  shows "db_map B db' = (if err = None then (db_map B db)(key := None) else db_map B db)"
proof -
  obtain txn e where t: "bg_Delete B (bg_NewTransaction B True db) key = (txn, e)" by fastforce
  obtain db1 e1 where c: "bg_Commit B db txn = (db1, e1)" by fastforce
  show ?thesis
    using assms(2) t c badger_delete [OF assms(1), of _ _ txn] badger_commit [OF assms(1), of db txn db1]
      badger_abort [OF assms(1), of db txn db1] badger_new [OF assms(1)]
    by (cases e; cases e1) (auto simp: store_Delete_def badger_Update_def)
qed

text \<open>
  Keys with a prefix are contiguous in the order of strings, so the scan visits exactly the pairs
  whose key has the prefix.
\<close>

lemma prefix_le: "prefix p (key :: string) \<Longrightarrow> p \<le> key"
proof (induction p arbitrary: key)
  case (Cons c p)
  then show ?case by (cases key) auto
qed simp

lemma prefix_between:
  assumes "prefix p (k1 :: string)" and "p \<le> k2" and "k2 \<le> k1"
  shows "prefix p k2"
  using assms
proof (induction p arbitrary: k1 k2)
  case (Cons c p)
  then obtain k1' where k1: "k1 = c # k1'" "prefix p k1'" by (cases k1) auto
  obtain c' k2' where k2: "k2 = c' # k2'" using Cons.prems(2) by (cases k2) auto
  have "c' = c" using Cons.prems(2,3) k1 k2 by auto
  with Cons.prems(2,3) k1 k2 have "p \<le> k2'" and "k2' \<le> k1'" by simp_all
  with Cons.IH [OF k1(2)] k2 \<open>c' = c\<close> show ?case by simp
qed simp

text \<open>The state after folding the callback over a list of pairs, until it fails.\<close>

fun scan_fold :: "('s \<Rightarrow> string \<Rightarrow> bytes \<Rightarrow> 's \<times> meta_error option) \<Rightarrow> (string \<times> bytes) list \<Rightarrow> 's \<Rightarrow> 's \<times> meta_error option" where
  "scan_fold fn [] s = (s, None)"
| "scan_fold fn ((key, val) # kvs) s =
     (case fn s key val of (s', Some err) \<Rightarrow> (s', Some err) | (s', None) \<Rightarrow> scan_fold fn kvs s')"

definition db_pairs :: "('db, 'txn) badger \<Rightarrow> 'db \<Rightarrow> (string \<times> bytes) list" where
  "db_pairs B db = map (\<lambda>(key, item). (key, projr item)) (bg_items B (bg_NewTransaction B False db))"

lemma scan_loop_fold:
  assumes "sorted_wrt (<) (map fst items)" and "\<forall>(key, item) \<in> set items. p \<le> key \<and> \<not> isl item"
  shows "scan_loop p fn items s = scan_fold fn (map (\<lambda>(key, item). (key, projr item)) (filter (\<lambda>(key, _). prefix p key) items)) s"
  using assms
proof (induction items arbitrary: s)
  case (Cons ki items)
  obtain key item where ki: "ki = (key, item)" by (cases ki)
  have rest: "key < key'" if "(key', item') \<in> set items" for key' item'
    using Cons.prems(1) that by (auto simp: ki)
  show ?case
  proof (cases "prefix p key")
    case True
    with Cons show ?thesis by (auto simp: ki split: sum.splits prod.splits option.splits)
  next
    case False
    have "\<not> prefix p key'" if "(key', item') \<in> set items" for key' item'
      using False rest [OF that] Cons.prems(2) prefix_between [of p key' key] by (force simp: ki)
    then have "filter (\<lambda>(key, _). prefix p key) items = []"
      by (auto simp: filter_empty_conv)
    with False show ?thesis by (simp add: ki)
  qed
qed simp

lemma db_pairs_map:
  assumes "badger_ok B"
  shows "(key, v) \<in> set (db_pairs B db) \<longleftrightarrow> db_map B db key = Some v" and "sorted_wrt (<) (map fst (db_pairs B db))"
proof -
  show "(key, v) \<in> set (db_pairs B db) \<longleftrightarrow> db_map B db key = Some v"
    using badger_items [OF assms, of key _ "bg_NewTransaction B False db"] badger_new [OF assms, of False db]
    by (auto simp: db_pairs_def image_iff Bex_def)
  show "sorted_wrt (<) (map fst (db_pairs B db))"
    using badger_items_sorted [OF assms] by (simp add: db_pairs_def comp_def case_prod_unfold)
qed

lemma seek_sorted:
  "sorted_wrt (<) (map fst xs) \<Longrightarrow> sorted_wrt (<) (map fst (dropWhile (\<lambda>(key, _). key < p) xs))"
  by (induction xs) auto

lemma seek_le:
  "sorted_wrt (<) (map fst xs) \<Longrightarrow> (key, item) \<in> set (dropWhile (\<lambda>(key, _). key < p) xs) \<Longrightarrow>
     (key, item) \<in> set xs \<and> p \<le> (key :: string)"
  by (induction xs) (force split: if_splits)+

lemma seek_filter:
  "filter (\<lambda>(key, _). prefix p key) (dropWhile (\<lambda>(key, _). key < p) xs) = filter (\<lambda>(key :: string, _). prefix p key) xs"
  by (induction xs) (auto dest: prefix_le leD)

lemma store_Scan_fold:
  assumes "badger_ok B"
  shows "store_Scan B db p fn s = scan_fold fn (filter (\<lambda>(key, _). prefix p key) (db_pairs B db)) s"
proof -
  let ?items = "bg_items B (bg_NewTransaction B False db)"
  have sorted: "sorted_wrt (<) (map fst ?items)" by (rule badger_items_sorted [OF assms])
  have "\<forall>(key, item) \<in> set (dropWhile (\<lambda>(key, _). key < p) ?items). p \<le> key \<and> \<not> isl item"
    using seek_le [OF sorted] badger_items [OF assms] by fastforce
  from scan_loop_fold [OF seek_sorted [OF sorted] this] show ?thesis
    by (simp add: store_Scan_def db_pairs_def seek_filter [unfolded case_prod_unfold] filter_map comp_def case_prod_unfold)
qed

end
