(* ===== verification/Namespace.thy ===== *)
theory Namespace
  imports Meta_Store
begin

text \<open>
  The inode tree (\<^verbatim>\<open>internal/metadata/namespace.go\<close>), stored as JSON values under the keys
  \<^verbatim>\<open>ns:<path>\<close>. The encoder of \<^verbatim>\<open>encoding/json\<close> for \<^verbatim>\<open>FileInfo\<close> is a parameter with the round trip the
  code relies on. The theory shows that every method is an operation on a finite map from paths to
  inodes, and states this contract as the interface \<open>namespace_api\<close>, on which the master relies.
\<close>

section \<open>Inodes\<close>

record FileInfo =
  fi_Path :: string
  fi_IsDir :: bool
  fi_Size :: int
  fi_ChunkIDs :: "string list"
  fi_Mode :: u32
  fi_CreatedAt :: gtime
  fi_UpdatedAt :: gtime

text \<open>The zero \<^verbatim>\<open>time.Time\<close> is the first of January of the year 1, here in nanoseconds since 1970.\<close>

definition zero_time :: gtime where
  "zero_time = - (62135596800 * 10 ^ 9)"

definition zero_FileInfo :: FileInfo where
  "zero_FileInfo = \<lparr>fi_Path = '''', fi_IsDir = False, fi_Size = 0, fi_ChunkIDs = [], fi_Mode = 0,
     fi_CreatedAt = zero_time, fi_UpdatedAt = zero_time\<rparr>"

record json_codec =
  js_Marshal :: "FileInfo \<Rightarrow> bytes option"
  js_Unmarshal :: "bytes \<Rightarrow> FileInfo option"

text \<open>
  The inodes JSON represents exactly: text without bytes that are not UTF-8 (here: ASCII), a size of
  64 bits, and times in the years 0 to 9999 that \<^verbatim>\<open>time.Time\<close> can marshal.
\<close>

definition ascii :: "string \<Rightarrow> bool" where
  "ascii s \<longleftrightarrow> (\<forall>c \<in> set s. (of_char c :: nat) < 128)"

definition json_time :: "gtime \<Rightarrow> bool" where
  "json_time t \<longleftrightarrow> - (62167219200 * 10 ^ 9) \<le> t \<and> t < 253402300800 * 10 ^ 9"

definition json_exact :: "FileInfo \<Rightarrow> bool" where
  "json_exact fi \<longleftrightarrow> ascii (fi_Path fi) \<and> (\<forall>chunkID \<in> set (fi_ChunkIDs fi). ascii chunkID) \<and>
     - (2 ^ 63) \<le> fi_Size fi \<and> fi_Size fi < 2 ^ 63 \<and> json_time (fi_CreatedAt fi) \<and> json_time (fi_UpdatedAt fi)"

definition json_ok :: "json_codec \<Rightarrow> bool" where
  "json_ok J \<longleftrightarrow> (\<forall>fi. json_exact fi \<longrightarrow> (\<exists>b. js_Marshal J fi = Some b \<and> js_Unmarshal J b = Some fi))"

section \<open>namespace.go\<close>

definition nsPrefix :: string where
  "nsPrefix = ''ns:''"

definition ns_Stat :: "('db, 'txn) badger \<Rightarrow> json_codec \<Rightarrow> 'db \<Rightarrow> string \<Rightarrow> meta_error + FileInfo" where
  "ns_Stat B J db path =
     (case store_Get B db (nsPrefix @ path) of
        Inl err \<Rightarrow> if err = ErrKeyNotFound then Inl (ErrNotFound path) else Inl err
      | Inr val \<Rightarrow> (case js_Unmarshal J val of
          None \<Rightarrow> Inl (UnmarshalFailed path)
        | Some fi \<Rightarrow> Inr fi))"

definition ns_write :: "('db, 'txn) badger \<Rightarrow> json_codec \<Rightarrow> FileInfo \<Rightarrow> 'db \<Rightarrow> 'db \<times> meta_error option" where
  "ns_write B J info db =
     (case js_Marshal J info of
        None \<Rightarrow> (db, Some (MarshalFailed (fi_Path info)))
      | Some val \<Rightarrow> store_Put B db (nsPrefix @ fi_Path info) val)"

definition ns_CreateFile :: "('db, 'txn) badger \<Rightarrow> json_codec \<Rightarrow> gtime \<Rightarrow> FileInfo \<Rightarrow> 'db \<Rightarrow> 'db \<times> meta_error option" where
  "ns_CreateFile B J now info db =
     (case ns_Stat B J db (fi_Path info) of
        Inr _ \<Rightarrow> (db, Some (ErrAlreadyExists (fi_Path info)))
      | Inl _ \<Rightarrow> ns_write B J (info\<lparr>fi_CreatedAt := now, fi_UpdatedAt := now\<rparr>) db)"

definition dir_info :: "gtime \<Rightarrow> string \<Rightarrow> FileInfo" where
  "dir_info now path = zero_FileInfo\<lparr>fi_Path := path, fi_IsDir := True, fi_Mode := 493,
     fi_CreatedAt := now, fi_UpdatedAt := now\<rparr>"

definition ns_CreateDir :: "('db, 'txn) badger \<Rightarrow> json_codec \<Rightarrow> gtime \<Rightarrow> string \<Rightarrow> 'db \<Rightarrow> 'db \<times> meta_error option" where
  "ns_CreateDir B J now path db =
     (case ns_Stat B J db path of
        Inr _ \<Rightarrow> (db, Some (ErrAlreadyExists path))
      | Inl _ \<Rightarrow> ns_write B J (dir_info now path) db)"

definition ns_UpdateFile :: "('db, 'txn) badger \<Rightarrow> json_codec \<Rightarrow> gtime \<Rightarrow> FileInfo \<Rightarrow> 'db \<Rightarrow> 'db \<times> meta_error option" where
  "ns_UpdateFile B J now info db =
     (case ns_Stat B J db (fi_Path info) of
        Inl err \<Rightarrow> (db, Some err)
      | Inr _ \<Rightarrow> ns_write B J (info\<lparr>fi_UpdatedAt := now\<rparr>) db)"

definition ns_DeleteFile :: "('db, 'txn) badger \<Rightarrow> json_codec \<Rightarrow> string \<Rightarrow> 'db \<Rightarrow> 'db \<times> meta_error option" where
  "ns_DeleteFile B J path db =
     (case ns_Stat B J db path of
        Inl err \<Rightarrow> (db, Some err)
      | Inr _ \<Rightarrow> store_Delete B db (nsPrefix @ path))"

definition list_callback :: "json_codec \<Rightarrow> string \<Rightarrow> FileInfo list \<Rightarrow> string \<Rightarrow> bytes \<Rightarrow> FileInfo list \<times> meta_error option" where
  "list_callback J scanPrefix results key val =
     (let rest = drop (length scanPrefix) key
      in if CHR ''/'' \<in> set rest then (results, None)
         else case js_Unmarshal J val of
           None \<Rightarrow> (results, Some (UnmarshalFailed key))
         | Some fi \<Rightarrow> (results @ [fi], None))"

definition ns_ListDir :: "('db, 'txn) badger \<Rightarrow> json_codec \<Rightarrow> string \<Rightarrow> 'db \<Rightarrow> FileInfo list \<times> meta_error option" where
  "ns_ListDir B J dir db =
     (let scan = (let scanPrefix = nsPrefix @ TrimSuffix dir ''/'' @ ''/''
                  in store_Scan B db scanPrefix (list_callback J scanPrefix) [])
      in if dir \<noteq> ''/''
         then (case ns_Stat B J db dir of
                 Inl err \<Rightarrow> ([], Some err)
               | Inr fi \<Rightarrow> if \<not> fi_IsDir fi then ([], Some (NotADirectory dir)) else scan)
         else scan)"

fun see_loop :: "string list \<Rightarrow> (string, unit) gomap \<Rightarrow> (string, unit) gomap" where
  "see_loop [] seen = seen"
| "see_loop (chunkID # ids) seen = see_loop ids (gm_set chunkID () seen)"

definition stats_callback :: "json_codec \<Rightarrow> nat \<times> (string, unit) gomap \<Rightarrow> string \<Rightarrow> bytes \<Rightarrow>
    (nat \<times> (string, unit) gomap) \<times> meta_error option" where
  "stats_callback J st key val =
     (case js_Unmarshal J val of
        None \<Rightarrow> (st, Some (UnmarshalFailed key))
      | Some fi \<Rightarrow> if fi_IsDir fi then (st, None)
          else (case st of (files, seen) \<Rightarrow> ((files + 1, see_loop (fi_ChunkIDs fi) seen), None)))"

definition ns_Stats :: "('db, 'txn) badger \<Rightarrow> json_codec \<Rightarrow> 'db \<Rightarrow> nat \<times> nat \<times> meta_error option" where
  "ns_Stats B J db =
     (case store_Scan B db nsPrefix (stats_callback J) (0, []) of
        ((files, seen), err) \<Rightarrow> (files, length seen, err))"

definition ns_Rename :: "('db, 'txn) badger \<Rightarrow> json_codec \<Rightarrow> gtime \<Rightarrow> string \<Rightarrow> string \<Rightarrow> 'db \<Rightarrow> 'db \<times> meta_error option" where
  "ns_Rename B J now src dst db =
     (case ns_Stat B J db src of
        Inl err \<Rightarrow> (db, Some err)
      | Inr fi \<Rightarrow> (case ns_Stat B J db dst of
          Inr _ \<Rightarrow> (db, Some (ErrAlreadyExists dst))
        | Inl _ \<Rightarrow>
            (let txn = NewTxn B db; fi' = fi\<lparr>fi_Path := dst, fi_UpdatedAt := now\<rparr>
             in case js_Marshal J fi' of
                  None \<Rightarrow> (db, Some (MarshalFailed dst))
                | Some newVal \<Rightarrow> (case txn_Set B txn (nsPrefix @ dst) newVal of
                    (_, Some err) \<Rightarrow> (db, Some err)
                  | (txn1, None) \<Rightarrow> (case txn_Delete B txn1 (nsPrefix @ src) of
                      (_, Some err) \<Rightarrow> (db, Some err)
                    | (txn2, None) \<Rightarrow> txn_Commit B db txn2)))))"

section \<open>The abstract tree\<close>

definition ns_view :: "('db, 'txn) badger \<Rightarrow> json_codec \<Rightarrow> 'db \<Rightarrow> string \<Rightarrow> FileInfo option" where
  "ns_view B J db path = Option.bind (db_map B db (nsPrefix @ path)) (js_Unmarshal J)"

text \<open>Every value in the namespace is an inode that carries its own path.\<close>

definition ns_ok :: "('db, 'txn) badger \<Rightarrow> json_codec \<Rightarrow> 'db \<Rightarrow> bool" where
  "ns_ok B J db \<longleftrightarrow> badger_ok B \<and> json_ok J \<and>
     (\<forall>path val. db_map B db (nsPrefix @ path) = Some val \<longrightarrow>
        (\<exists>fi. js_Unmarshal J val = Some fi \<and> json_exact fi \<and> fi_Path fi = path))"

definition not_lookup_error :: "meta_error option \<Rightarrow> bool" where
  "not_lookup_error err \<longleftrightarrow> (\<forall>path. err \<noteq> Some (ErrNotFound path) \<and> err \<noteq> Some (ErrAlreadyExists path))"

lemma ns_Stat_view:
  assumes "ns_ok B J db"
  shows "ns_Stat B J db path = (case ns_view B J db path of None \<Rightarrow> Inl (ErrNotFound path) | Some fi \<Rightarrow> Inr fi)"
proof (cases "db_map B db (nsPrefix @ path)")
  case (Some val)
  then obtain fi where "js_Unmarshal J val = Some fi" using assms by (auto simp: ns_ok_def)
  with Some assms show ?thesis by (simp add: ns_Stat_def ns_view_def store_Get_map ns_ok_def)
qed (use assms in \<open>simp add: ns_Stat_def ns_view_def store_Get_map ns_ok_def\<close>)

lemma ns_view_exact: "ns_ok B J db \<Longrightarrow> ns_view B J db path = Some fi \<Longrightarrow> json_exact fi \<and> fi_Path fi = path"
  by (fastforce simp: ns_ok_def ns_view_def bind_eq_Some_conv)

lemma ns_view_cong: "db_map B db' = db_map B db \<Longrightarrow> ns_view B J db' = ns_view B J db"
  by (simp add: ns_view_def fun_eq_iff)

lemma ns_ok_cong: "ns_ok B J db \<Longrightarrow> db_map B db' = db_map B db \<Longrightarrow> ns_ok B J db'"
  by (simp add: ns_ok_def)

lemma ns_put:
  assumes "ns_ok B J db" and "json_exact fi" and "js_Marshal J fi = Some val"
    and "db_map B db' = (db_map B db)(nsPrefix @ fi_Path fi \<mapsto> val)"
  shows "ns_ok B J db' \<and> ns_view B J db' = (ns_view B J db)(fi_Path fi \<mapsto> fi)"
proof -
  have "js_Unmarshal J val = Some fi"
    using assms by (fastforce simp: ns_ok_def json_ok_def)
  with assms show ?thesis
    by (auto simp: ns_ok_def ns_view_def fun_eq_iff)
qed

lemma ns_remove:
  assumes "ns_ok B J db" and "db_map B db' = (db_map B db)(nsPrefix @ path := None)"
  shows "ns_ok B J db' \<and> ns_view B J db' = (ns_view B J db)(path := None)"
  using assms by (auto simp: ns_ok_def ns_view_def fun_eq_iff)

lemma store_error_not_lookup:
  "store_Put B db key v = (db', Some err) \<Longrightarrow> not_lookup_error (Some err)"
  "store_Delete B db key = (db', Some err) \<Longrightarrow> not_lookup_error (Some err)"
  "txn_Commit B db txn = (db', Some err) \<Longrightarrow> not_lookup_error (Some err)"
  by (auto simp: store_Put_def store_Delete_def txn_Commit_def not_lookup_error_def map_prod_def split: prod.splits)

text \<open>A write of an inode that JSON represents takes effect or is reported and leaves the tree.\<close>

lemma ns_write_view:
  assumes "ns_ok B J db" and "json_exact fi" and "ns_write B J fi db = (db', err)"
  shows "ns_ok B J db' \<and> not_lookup_error err \<and>
    ns_view B J db' = (if err = None then (ns_view B J db)(fi_Path fi \<mapsto> fi) else ns_view B J db)"
proof -
  have B: "badger_ok B" using assms(1) by (simp add: ns_ok_def)
  obtain val where val: "js_Marshal J fi = Some val"
    using assms(1,2) by (fastforce simp: ns_ok_def json_ok_def)
  then have put: "store_Put B db (nsPrefix @ fi_Path fi) val = (db', err)"
    using assms(3) by (simp add: ns_write_def)
  note m = store_Put_map [OF B put]
  show ?thesis
  proof (cases err)
    case None
    with m ns_put [OF assms(1,2) val, of db'] show ?thesis by (simp add: not_lookup_error_def)
  next
    case (Some e)
    with m put assms(1) show ?thesis
      by (auto simp: store_error_not_lookup intro: ns_ok_cong ns_view_cong)
  qed
qed

section \<open>The contract of a namespace\<close>

text \<open>The methods of a namespace that the master calls.\<close>

record 's namespace_ops =
  nso_Stat :: "'s \<Rightarrow> string \<Rightarrow> meta_error + FileInfo"
  nso_CreateFile :: "gtime \<Rightarrow> FileInfo \<Rightarrow> 's \<Rightarrow> 's \<times> meta_error option"
  nso_CreateDir :: "gtime \<Rightarrow> string \<Rightarrow> 's \<Rightarrow> 's \<times> meta_error option"
  nso_UpdateFile :: "gtime \<Rightarrow> FileInfo \<Rightarrow> 's \<Rightarrow> 's \<times> meta_error option"
  nso_DeleteFile :: "string \<Rightarrow> 's \<Rightarrow> 's \<times> meta_error option"
  nso_ListDir :: "string \<Rightarrow> 's \<Rightarrow> FileInfo list \<times> meta_error option"
  nso_Stats :: "'s \<Rightarrow> nat \<times> nat \<times> meta_error option"

definition NewNamespace :: "('db, 'txn) badger \<Rightarrow> json_codec \<Rightarrow> 'db namespace_ops" where
  "NewNamespace B J = \<lparr>nso_Stat = ns_Stat B J, nso_CreateFile = ns_CreateFile B J, nso_CreateDir = ns_CreateDir B J,
     nso_UpdateFile = ns_UpdateFile B J, nso_DeleteFile = ns_DeleteFile B J, nso_ListDir = ns_ListDir B J,
     nso_Stats = ns_Stats B J\<rparr>"

text \<open>
  \<open>wrote view fi view' err\<close>: a write of the inode \<open>fi\<close> took effect, or was reported and had none.
\<close>

definition wrote :: "(string \<Rightarrow> FileInfo option) \<Rightarrow> FileInfo \<Rightarrow> (string \<Rightarrow> FileInfo option) \<Rightarrow> meta_error option \<Rightarrow> bool" where
  "wrote view fi view' err \<longleftrightarrow> not_lookup_error err \<and> view' = (if err = None then view(fi_Path fi \<mapsto> fi) else view)"

locale namespace_api =
  fixes N :: "'s namespace_ops"
    and view :: "'s \<Rightarrow> string \<Rightarrow> FileInfo option"
    and invar :: "'s \<Rightarrow> bool"
  assumes stat_law: "invar s \<Longrightarrow>
      nso_Stat N s path = (case view s path of None \<Rightarrow> Inl (ErrNotFound path) | Some fi \<Rightarrow> Inr fi)"
    and view_law: "invar s \<Longrightarrow> view s path = Some fi \<Longrightarrow> json_exact fi \<and> fi_Path fi = path"
    and create_file_law: "invar s \<Longrightarrow> json_exact (fi\<lparr>fi_CreatedAt := now, fi_UpdatedAt := now\<rparr>) \<Longrightarrow>
      nso_CreateFile N now fi s = (s', err) \<Longrightarrow> invar s' \<and>
        (if view s (fi_Path fi) \<noteq> None then s' = s \<and> err = Some (ErrAlreadyExists (fi_Path fi))
         else wrote (view s) (fi\<lparr>fi_CreatedAt := now, fi_UpdatedAt := now\<rparr>) (view s') err)"
    and create_dir_law: "invar s \<Longrightarrow> json_exact (dir_info now path) \<Longrightarrow>
      nso_CreateDir N now path s = (s', err) \<Longrightarrow> invar s' \<and>
        (if view s path \<noteq> None then s' = s \<and> err = Some (ErrAlreadyExists path)
         else wrote (view s) (dir_info now path) (view s') err)"
    and update_law: "invar s \<Longrightarrow> json_exact (fi\<lparr>fi_UpdatedAt := now\<rparr>) \<Longrightarrow>
      nso_UpdateFile N now fi s = (s', err) \<Longrightarrow> invar s' \<and>
        (if view s (fi_Path fi) = None then s' = s \<and> err = Some (ErrNotFound (fi_Path fi))
         else wrote (view s) (fi\<lparr>fi_UpdatedAt := now\<rparr>) (view s') err)"
    and delete_law: "invar s \<Longrightarrow> nso_DeleteFile N path s = (s', err) \<Longrightarrow> invar s' \<and>
        (if view s path = None then s' = s \<and> err = Some (ErrNotFound path)
         else not_lookup_error err \<and> view s' = (if err = None then (view s)(path := None) else view s))"

lemma json_exact_dir: "json_exact (dir_info now path) \<longleftrightarrow> ascii path \<and> json_time now"
  by (auto simp: json_exact_def dir_info_def zero_FileInfo_def)

lemma dir_info_Path [simp]: "fi_Path (dir_info now path) = path"
  by (simp add: dir_info_def)

interpretation nsi: namespace_api "NewNamespace B J" "ns_view B J" "ns_ok B J"
  for B :: "('db, 'txn) badger" and J :: json_codec
proof unfold_locales
  fix s s' :: 'db and fi :: FileInfo and path now err
  assume ok: "ns_ok B J s"
  note stat = ns_Stat_view [OF ok] and write_view = ns_write_view [OF ok]
  show "nso_Stat (NewNamespace B J) s path = (case ns_view B J s path of None \<Rightarrow> Inl (ErrNotFound path) | Some fi \<Rightarrow> Inr fi)"
    by (simp add: NewNamespace_def stat)
  show "json_exact fi \<and> fi_Path fi = path" if "ns_view B J s path = Some fi"
    by (rule ns_view_exact [OF ok that])
  show "ns_ok B J s' \<and>
        (if ns_view B J s (fi_Path fi) \<noteq> None then s' = s \<and> err = Some (ErrAlreadyExists (fi_Path fi))
         else wrote (ns_view B J s) (fi\<lparr>fi_CreatedAt := now, fi_UpdatedAt := now\<rparr>) (ns_view B J s') err)"
    if "json_exact (fi\<lparr>fi_CreatedAt := now, fi_UpdatedAt := now\<rparr>)" "nso_CreateFile (NewNamespace B J) now fi s = (s', err)"
    using that ok write_view [OF that(1), of s' err]
    by (auto simp: NewNamespace_def ns_CreateFile_def stat wrote_def split: option.splits)
  show "ns_ok B J s' \<and>
        (if ns_view B J s path \<noteq> None then s' = s \<and> err = Some (ErrAlreadyExists path)
         else wrote (ns_view B J s) (dir_info now path) (ns_view B J s') err)"
    if "json_exact (dir_info now path)" "nso_CreateDir (NewNamespace B J) now path s = (s', err)"
    using that ok write_view [OF that(1), of s' err]
    by (auto simp: NewNamespace_def ns_CreateDir_def stat wrote_def split: option.splits)
  show "ns_ok B J s' \<and>
        (if ns_view B J s (fi_Path fi) = None then s' = s \<and> err = Some (ErrNotFound (fi_Path fi))
         else wrote (ns_view B J s) (fi\<lparr>fi_UpdatedAt := now\<rparr>) (ns_view B J s') err)"
    if "json_exact (fi\<lparr>fi_UpdatedAt := now\<rparr>)" "nso_UpdateFile (NewNamespace B J) now fi s = (s', err)"
    using that ok write_view [OF that(1), of s' err]
    by (auto simp: NewNamespace_def ns_UpdateFile_def stat wrote_def split: option.splits)
  show "ns_ok B J s' \<and>
        (if ns_view B J s path = None then s' = s \<and> err = Some (ErrNotFound path)
         else not_lookup_error err \<and> ns_view B J s' = (if err = None then (ns_view B J s)(path := None) else ns_view B J s))"
    if "nso_DeleteFile (NewNamespace B J) path s = (s', err)"
  proof (cases "ns_view B J s path")
    case (Some fi)
    then have del: "store_Delete B s (nsPrefix @ path) = (s', err)"
      using that by (simp add: NewNamespace_def ns_DeleteFile_def stat)
    from store_Delete_map [OF _ this] ok Some ns_remove [OF ok, of s' path] ns_ok_cong [OF ok, of s'] ns_view_cong [of B s' s J]
    show ?thesis
      using store_error_not_lookup(2) [of B s "nsPrefix @ path" s'] del
      by (cases err) (auto simp: ns_ok_def not_lookup_error_def)
  qed (use that ok in \<open>simp add: NewNamespace_def ns_DeleteFile_def stat\<close>)
qed

section \<open>Renaming, listing and counting\<close>

lemma ns_Rename_view:
  assumes ok: "ns_ok B J db" and "ascii dst" and "json_time now" and "ns_Rename B J now src dst db = (db', err)"
  shows "ns_ok B J db' \<and>
    (case ns_view B J db src of
       None \<Rightarrow> db' = db \<and> err = Some (ErrNotFound src)
     | Some fi \<Rightarrow>
         if ns_view B J db dst \<noteq> None then db' = db \<and> err = Some (ErrAlreadyExists dst)
         else not_lookup_error err \<and> ns_view B J db' =
           (if err = None then (ns_view B J db)(dst \<mapsto> fi\<lparr>fi_Path := dst, fi_UpdatedAt := now\<rparr>, src := None) else ns_view B J db))"
proof (cases "ns_view B J db src")
  case (Some fi)
  note stat = ns_Stat_view [OF ok]
  have B: "badger_ok B" using ok by (simp add: ns_ok_def)
  let ?fi = "fi\<lparr>fi_Path := dst, fi_UpdatedAt := now\<rparr>"
  have exact: "json_exact ?fi"
    using ns_view_exact [OF ok Some] assms(2,3) by (simp add: json_exact_def)
  then obtain val where val: "js_Marshal J ?fi = Some val" "js_Unmarshal J val = Some ?fi"
    using ok by (fastforce simp: ns_ok_def json_ok_def)
  show ?thesis
  proof (cases "ns_view B J db dst")
    case None
    obtain t1 e1 where set: "bg_Set B (bg_NewTransaction B True db) (nsPrefix @ dst) val = (t1, e1)" by fastforce
    obtain t2 e2 where del: "bg_Delete B t1 (nsPrefix @ src) = (t2, e2)" by fastforce
    obtain db1 e3 where com: "bg_Commit B db t2 = (db1, e3)" by fastforce
    have run: "(db', err) = (if e1 \<noteq> None then (db, map_option StoreFailed e1) else if e2 \<noteq> None then (db, map_option StoreFailed e2)
        else (db1, map_option StoreFailed e3))"
      using assms(4) Some None val(1) set del com
      by (auto simp: ns_Rename_def stat NewTxn_def txn_Set_def txn_Delete_def txn_Commit_def Let_def split: option.splits)
    have nle: "not_lookup_error err" using run by (auto simp: not_lookup_error_def split: if_splits)
    show ?thesis
    proof (cases err)
      case None
      then have "e1 = None" "e2 = None" "e3 = None" "db' = db1" using run by (auto split: if_splits)
      then have "txn_map B t1 = (db_map B db)(nsPrefix @ dst \<mapsto> val)" and "txn_map B t2 = (txn_map B t1)(nsPrefix @ src := None)"
          and "db_map B db' = txn_map B t2"
        using badger_set [OF B] badger_delete [OF B] badger_commit [OF B] badger_new [OF B] set del com by simp_all
      then have "db_map B db' = ((db_map B db)(nsPrefix @ dst \<mapsto> val))(nsPrefix @ src := None)" by simp
      then show ?thesis
        using ok exact val(2) Some None nle \<open>ns_view B J db dst = None\<close>
        by (auto simp: ns_ok_def ns_view_def fun_eq_iff)
    next
      case (Some e)
      then have "db_map B db' = db_map B db"
        using run com badger_abort [OF B, of db t2 db1] by (cases e3) (auto split: if_splits)
      with nle \<open>ns_view B J db src = Some fi\<close> None Some show ?thesis
        by (simp add: ns_ok_cong [OF ok] ns_view_cong [of B db' db])
    qed
  qed (use Some assms(4) ok stat in \<open>simp add: ns_Rename_def\<close>)
qed (use assms(4) ok ns_Stat_view [OF ok] in \<open>simp add: ns_Rename_def\<close>)

lemma ns_pairs:
  assumes "ns_ok B J db" and "(key, val) \<in> set (filter (\<lambda>(key, _). prefix (nsPrefix @ p) key) (db_pairs B db))"
  shows "\<exists>path fi. key = nsPrefix @ p @ path \<and> js_Unmarshal J val = Some fi \<and> ns_view B J db (p @ path) = Some fi"
proof -
  have B: "badger_ok B" using assms(1) by (simp add: ns_ok_def)
  from assms(2) obtain path where key: "key = nsPrefix @ p @ path" and "db_map B db key = Some val"
    by (auto simp: prefix_def db_pairs_map [OF B])
  with assms(1) show ?thesis
    by (fastforce simp: ns_ok_def ns_view_def)
qed

lemma view_pairs:
  assumes "ns_ok B J db" and "ns_view B J db (p @ path) = Some fi"
  shows "\<exists>val. (nsPrefix @ p @ path, val) \<in> set (filter (\<lambda>(key, _). prefix (nsPrefix @ p) key) (db_pairs B db)) \<and>
    js_Unmarshal J val = Some fi"
  using assms by (auto simp: ns_view_def ns_ok_def db_pairs_map bind_eq_Some_conv)

lemma list_callback_fold:
  assumes "\<forall>(key, val) \<in> set kvs. js_Unmarshal J val \<noteq> None"
  shows "scan_fold (list_callback J p) kvs results =
    (results @ map (\<lambda>(key, val). the (js_Unmarshal J val)) (filter (\<lambda>(key, _). CHR ''/'' \<notin> set (drop (length p) key)) kvs), None)"
  using assms
  by (induction kvs arbitrary: results) (auto simp: list_callback_def split: option.splits)

lemma append_less_append: "p @ xs < p @ ys \<longleftrightarrow> xs < (ys :: string)"
  by (induction p) auto

lemma ns_ListDir_scan:
  assumes ok: "ns_ok B J db" and p: "p = TrimSuffix dir ''/'' @ ''/''"
    and dir: "dir = ''/'' \<or> (\<exists>fi. ns_view B J db dir = Some fi \<and> fi_IsDir fi)"
  shows "\<exists>fis. ns_ListDir B J dir db = (fis, None) \<and> sorted_wrt (<) (map fi_Path fis) \<and>
      set fis = {fi. \<exists>name. CHR ''/'' \<notin> set name \<and> ns_view B J db (p @ name) = Some fi}"
proof -
  have B: "badger_ok B" using ok by (simp add: ns_ok_def)
  let ?kvs = "filter (\<lambda>(key, _). prefix (nsPrefix @ p) key) (db_pairs B db)"
  let ?sel = "filter (\<lambda>(key, _). CHR ''/'' \<notin> set (drop (length (nsPrefix @ p)) key)) ?kvs"
  let ?fis = "map (\<lambda>(key, val). the (js_Unmarshal J val)) ?sel"
  have parse: "\<forall>(key, val) \<in> set ?kvs. js_Unmarshal J val \<noteq> None"
    using ns_pairs [OF ok, of _ _ p] by fast
  have "ns_ListDir B J dir db = (?fis, None)"
    using dir list_callback_fold [OF parse, of "nsPrefix @ p" "[]"]
    by (auto simp: ns_ListDir_def Let_def ns_Stat_view [OF ok] store_Scan_fold [OF B] p)
  moreover have "set ?fis = {fi. \<exists>name. CHR ''/'' \<notin> set name \<and> ns_view B J db (p @ name) = Some fi}"
  proof (intro set_eqI iffI)
    fix fi assume "fi \<in> set ?fis"
    then obtain key val where kv: "(key, val) \<in> set ?kvs" "CHR ''/'' \<notin> set (drop (length (nsPrefix @ p)) key)"
        "fi = the (js_Unmarshal J val)" by auto
    from ns_pairs [OF ok kv(1)] kv(2,3) show "fi \<in> {fi. \<exists>name. CHR ''/'' \<notin> set name \<and> ns_view B J db (p @ name) = Some fi}"
      by auto
  next
    fix fi assume "fi \<in> {fi. \<exists>name. CHR ''/'' \<notin> set name \<and> ns_view B J db (p @ name) = Some fi}"
    then obtain name where n: "CHR ''/'' \<notin> set name" "ns_view B J db (p @ name) = Some fi" by blast
    from view_pairs [OF ok n(2)] n(1) show "fi \<in> set ?fis" by (force simp: image_iff)
  qed
  moreover have "sorted_wrt (<) (map fi_Path ?fis)"
  proof -
    have "map fst ?sel = map (\<lambda>fi. nsPrefix @ fi_Path fi) ?fis"
    proof (simp, intro allI impI, elim conjE)
      fix key val assume "(key, val) \<in> set (db_pairs B db)" and "prefix (nsPrefix @ p) key"
      then obtain path fi where "key = nsPrefix @ p @ path" "js_Unmarshal J val = Some fi" "ns_view B J db (p @ path) = Some fi"
        using ns_pairs [OF ok, of key val p] by auto
      then show "key = nsPrefix @ fi_Path (the (js_Unmarshal J val))"
        using ns_view_exact [OF ok] by auto
    qed
    moreover have "sorted_wrt (<) (map fst ?sel)"
      using db_pairs_map(2) [OF B] by (simp only: sorted_wrt_map sorted_wrt_filter)
    ultimately have "sorted_wrt (<) (map (\<lambda>fi. nsPrefix @ fi_Path fi) ?fis)" by (simp only:)
    then show ?thesis
      by (simp only: sorted_wrt_map append_less_append)
  qed
  ultimately show ?thesis by blast
qed

lemma see_loop_lookup: "gm_lookup (see_loop ids seen) chunkID = (if chunkID \<in> set ids then Some () else gm_lookup seen chunkID)"
  by (induction ids seen rule: see_loop.induct) (auto simp: gomap_simps)

lemma see_loop_wf: "gm_wf seen \<Longrightarrow> gm_wf (see_loop ids seen)"
  by (induction ids seen rule: see_loop.induct) (auto simp: gm.invar_update)

lemma see_loop_append: "see_loop (ids @ ids') seen = see_loop ids' (see_loop ids seen)"
  by (induction ids seen rule: see_loop.induct) auto

lemma length_see_loop: "length (see_loop ids []) = card (set ids)"
proof -
  have "fst ` set (see_loop ids []) = set ids"
    using see_loop_lookup [of ids "[]"] by (simp add: set_eq_iff flip: domIff dom_map_of_conv_image_fst)
      (simp add: domIff)
  then show ?thesis
    using see_loop_wf [of "[]" ids] by (metis distinct_card gm_wf_def gm_wf_empty length_map set_map)
qed

lemma stats_callback_fold:
  assumes "\<forall>(key, val) \<in> set kvs. js_Unmarshal J val \<noteq> None"
  shows "scan_fold (stats_callback J) kvs (files, seen) =
    (let fis = filter (\<lambda>fi. \<not> fi_IsDir fi) (map (\<lambda>(key, val). the (js_Unmarshal J val)) kvs)
     in ((files + length fis, see_loop (concat (map fi_ChunkIDs fis)) seen), None))"
  using assms
  by (induction kvs arbitrary: files seen) (auto simp: stats_callback_def Let_def see_loop_append)

lemma inode_counts:
  assumes "\<And>fi. fi \<in> set fis \<longleftrightarrow> view (fi_Path fi) = Some fi \<and> \<not> fi_IsDir fi"
    and "\<And>path fi. view path = Some fi \<Longrightarrow> fi_Path fi = path" and "distinct (map fi_Path fis)"
  shows "length fis = card {path. \<exists>fi. view path = Some fi \<and> \<not> fi_IsDir fi}"
    and "set (concat (map fi_ChunkIDs fis)) = {chunkID. \<exists>path fi. view path = Some fi \<and> \<not> fi_IsDir fi \<and> chunkID \<in> set (fi_ChunkIDs fi)}"
proof -
  have "path \<in> fi_Path ` set fis \<longleftrightarrow> (\<exists>fi. view path = Some fi \<and> \<not> fi_IsDir fi)" for path
    using assms(1,2) by (metis (no_types, lifting) imageE image_eqI)
  then have "set (map fi_Path fis) = {path. \<exists>fi. view path = Some fi \<and> \<not> fi_IsDir fi}" by auto
  then show "length fis = card {path. \<exists>fi. view path = Some fi \<and> \<not> fi_IsDir fi}"
    using distinct_card [OF assms(3)] by simp
  show "set (concat (map fi_ChunkIDs fis)) = {chunkID. \<exists>path fi. view path = Some fi \<and> \<not> fi_IsDir fi \<and> chunkID \<in> set (fi_ChunkIDs fi)}"
    using assms(1,2) by fastforce
qed

lemma ns_Stats_view:
  assumes ok: "ns_ok B J db"
  shows "ns_Stats B J db = (card {path. \<exists>fi. ns_view B J db path = Some fi \<and> \<not> fi_IsDir fi},
      card {chunkID. \<exists>path fi. ns_view B J db path = Some fi \<and> \<not> fi_IsDir fi \<and> chunkID \<in> set (fi_ChunkIDs fi)}, None)"
proof -
  have B: "badger_ok B" using ok by (simp add: ns_ok_def)
  let ?kvs = "filter (\<lambda>(key, _). prefix (nsPrefix @ []) key) (db_pairs B db)"
  let ?fis = "filter (\<lambda>fi. \<not> fi_IsDir fi) (map (\<lambda>(key, val). the (js_Unmarshal J val)) ?kvs)"
  have parse: "\<forall>(key, val) \<in> set ?kvs. js_Unmarshal J val \<noteq> None"
    using ns_pairs [OF ok, of _ _ "[]"] by fast
  have view: "fi \<in> set ?fis \<longleftrightarrow> ns_view B J db (fi_Path fi) = Some fi \<and> \<not> fi_IsDir fi" for fi
  proof
    assume "fi \<in> set ?fis"
    then obtain key val where kv: "(key, val) \<in> set ?kvs" "fi = the (js_Unmarshal J val)" "\<not> fi_IsDir fi" by auto
    from ns_pairs [OF ok kv(1)] ns_view_exact [OF ok] kv(2,3) show "ns_view B J db (fi_Path fi) = Some fi \<and> \<not> fi_IsDir fi"
      by auto
  next
    assume "ns_view B J db (fi_Path fi) = Some fi \<and> \<not> fi_IsDir fi"
    with view_pairs [OF ok, of "[]" "fi_Path fi" fi] show "fi \<in> set ?fis" by (force simp: image_iff)
  qed
  have keys: "map (\<lambda>(key, val). nsPrefix @ fi_Path (the (js_Unmarshal J val))) ?kvs = map fst ?kvs"
  proof (rule map_cong [OF refl])
    fix kv assume "kv \<in> set ?kvs"
    then obtain path fi where "fst kv = nsPrefix @ path" "js_Unmarshal J (snd kv) = Some fi" "ns_view B J db path = Some fi"
      using ns_pairs [OF ok, of "fst kv" "snd kv" "[]"] by (auto simp del: set_filter)
    then show "(case kv of (key, val) \<Rightarrow> nsPrefix @ fi_Path (the (js_Unmarshal J val))) = fst kv"
      using ns_view_exact [OF ok] by (auto simp: case_prod_unfold)
  qed
  have "sorted_wrt (<) (map fst ?kvs)"
    using db_pairs_map(2) [OF B] by (simp only: sorted_wrt_map sorted_wrt_filter)
  then have "distinct (map (\<lambda>fi. nsPrefix @ fi_Path fi) (map (\<lambda>(key, val). the (js_Unmarshal J val)) ?kvs))"
    unfolding keys [symmetric] by (simp add: strict_sorted_iff comp_def case_prod_unfold)
  then have "distinct (map ((@) nsPrefix) (map fi_Path (map (\<lambda>(key, val). the (js_Unmarshal J val)) ?kvs)))"
    by (simp only: map_map comp_def)
  then have "distinct (map fi_Path ?fis)"
    using distinct_map distinct_map_filter by blast
  note counts = inode_counts [OF view _ this]
  show ?thesis
    using stats_callback_fold [OF parse, of 0 "[]"] counts ns_view_exact [OF ok, THEN conjunct2]
    by (simp add: ns_Stats_def store_Scan_fold [OF B] Let_def length_see_loop del: set_concat)
qed

end
