(* ===== verification/Namespace_Memory.thy ===== *)
theory Namespace_Memory
  imports Namespace
begin

text \<open>
  A concrete database and a concrete codec that satisfy the hypotheses on BadgerDB and on the JSON
  encoder: pairs kept in memory, and fields written one after the other with numbers in unary. They
  show that the hypotheses can hold together and give the witnesses their inputs.
\<close>

section \<open>A database in memory\<close>

type_synonym mem_db = "(string, bytes) gomap"

definition mem_badger :: "(mem_db, mem_db) badger" where
  "mem_badger = \<lparr>
     bg_NewTransaction = \<lambda>_ db. db,
     bg_Get = \<lambda>txn key. case gm_lookup txn key of None \<Rightarrow> Inl BadgerKeyNotFound | Some v \<Rightarrow> Inr (Inr v),
     bg_Set = \<lambda>txn key v. (gm_set key v txn, None),
     bg_Delete = \<lambda>txn key. (gm_delete key txn, None),
     bg_Commit = \<lambda>_ txn. (txn, None),
     bg_items = \<lambda>txn. map (\<lambda>key. (key, Inr (the (gm_lookup txn key)))) (sort (remdups (map fst txn)))\<rparr>"

lemma mem_map [simp]: "txn_map mem_badger txn = gm_lookup txn" "db_map mem_badger db = gm_lookup db"
  by (auto simp: txn_map_def db_map_def mem_badger_def fun_eq_iff split: option.split)

lemma mem_badger_ok: "badger_ok mem_badger"
proof -
  have "(key, item) \<in> set (bg_items mem_badger txn) \<longleftrightarrow> (\<exists>v. item = Inr v \<and> gm_lookup txn key = Some v)" for key item txn
    using map_of_eq_None_iff [of txn key] by (auto simp: mem_badger_def image_iff)
  moreover have "sorted_wrt (<) (map fst (bg_items mem_badger txn))" for txn
    by (simp add: mem_badger_def comp_def strict_sorted_iff)
  moreover have "bg_Get mem_badger txn key = Inl BadgerKeyNotFound \<or> (\<exists>v. bg_Get mem_badger txn key = Inr (Inr v))" for txn key
    by (simp add: mem_badger_def split: option.split)
  ultimately show ?thesis
    unfolding badger_ok_def mem_map by (auto simp: gomap_simps mem_badger_def)
qed

section \<open>A codec\<close>

definition enc_nat :: "nat \<Rightarrow> bytes" where
  "enc_nat n = replicate n 1 @ [0]"

fun dec_nat :: "bytes \<Rightarrow> (nat \<times> bytes) option" where
  "dec_nat [] = None"
| "dec_nat (b # bs) = (if b = 0 then Some (0, bs) else map_option (\<lambda>(n, r). (Suc n, r)) (dec_nat bs))"

lemma dec_enc_nat [simp]: "dec_nat (enc_nat n @ bs) = Some (n, bs)"
  by (induction n) (auto simp: enc_nat_def)

definition enc_int :: "int \<Rightarrow> bytes" where
  "enc_int i = enc_nat (nat i) @ enc_nat (nat (- i))"

definition dec_int :: "bytes \<Rightarrow> (int \<times> bytes) option" where
  "dec_int bs = Option.bind (dec_nat bs) (\<lambda>(n, r). Option.bind (dec_nat r) (\<lambda>(m, r'). Some (int n - int m, r')))"

lemma dec_enc_int [simp]: "dec_int (enc_int i @ bs) = Some (i, bs)"
  by (simp add: enc_int_def dec_int_def)

definition enc_list :: "('a \<Rightarrow> bytes) \<Rightarrow> 'a list \<Rightarrow> bytes" where
  "enc_list enc xs = enc_nat (length xs) @ concat (map enc xs)"

fun dec_items :: "(bytes \<Rightarrow> ('a \<times> bytes) option) \<Rightarrow> nat \<Rightarrow> bytes \<Rightarrow> ('a list \<times> bytes) option" where
  "dec_items dec 0 bs = Some ([], bs)"
| "dec_items dec (Suc n) bs =
     Option.bind (dec bs) (\<lambda>(x, r). Option.bind (dec_items dec n r) (\<lambda>(xs, r'). Some (x # xs, r')))"

definition dec_list :: "(bytes \<Rightarrow> ('a \<times> bytes) option) \<Rightarrow> bytes \<Rightarrow> ('a list \<times> bytes) option" where
  "dec_list dec bs = Option.bind (dec_nat bs) (\<lambda>(n, r). dec_items dec n r)"

lemma dec_enc_list:
  assumes "\<And>x bs. dec (enc x @ bs) = Some (x, bs)"
  shows "dec_list dec (enc_list enc xs @ bs) = Some (xs, bs)"
proof -
  have "dec_items dec (length xs) (concat (map enc xs) @ bs) = Some (xs, bs)"
    by (induction xs) (auto simp: assms)
  then show ?thesis by (simp add: enc_list_def dec_list_def)
qed

definition enc_char :: "char \<Rightarrow> bytes" where
  "enc_char c = enc_nat (of_char c)"

definition dec_char :: "bytes \<Rightarrow> (char \<times> bytes) option" where
  "dec_char bs = map_option (\<lambda>(n, r). (char_of n, r)) (dec_nat bs)"

lemma dec_enc_char [simp]: "dec_char (enc_char c @ bs) = Some (c, bs)"
  by (simp add: enc_char_def dec_char_def)

abbreviation enc_string :: "string \<Rightarrow> bytes" where
  "enc_string \<equiv> enc_list enc_char"

abbreviation dec_string :: "bytes \<Rightarrow> (string \<times> bytes) option" where
  "dec_string \<equiv> dec_list dec_char"

lemma dec_enc_string [simp]: "dec_string (enc_string s @ bs) = Some (s, bs)"
  by (rule dec_enc_list) simp

lemma dec_enc_strings [simp]: "dec_list dec_string (enc_list enc_string ss @ bs) = Some (ss, bs)"
  by (rule dec_enc_list) simp

definition mem_Marshal :: "FileInfo \<Rightarrow> bytes" where
  "mem_Marshal fi = enc_string (fi_Path fi) @ enc_nat (if fi_IsDir fi then 1 else 0) @ enc_int (fi_Size fi) @
     enc_list enc_string (fi_ChunkIDs fi) @ enc_nat (unat (fi_Mode fi)) @ enc_int (fi_CreatedAt fi) @ enc_int (fi_UpdatedAt fi)"

definition mem_Unmarshal :: "bytes \<Rightarrow> FileInfo option" where
  "mem_Unmarshal b =
     Option.bind (dec_string b) (\<lambda>(path, r1). Option.bind (dec_nat r1) (\<lambda>(isdir, r2).
     Option.bind (dec_int r2) (\<lambda>(size, r3). Option.bind (dec_list dec_string r3) (\<lambda>(ids, r4).
     Option.bind (dec_nat r4) (\<lambda>(mode, r5). Option.bind (dec_int r5) (\<lambda>(created, r6).
     Option.bind (dec_int r6) (\<lambda>(updated, _).
       Some \<lparr>fi_Path = path, fi_IsDir = (isdir = 1), fi_Size = size, fi_ChunkIDs = ids, fi_Mode = of_nat mode,
         fi_CreatedAt = created, fi_UpdatedAt = updated\<rparr>)))))))"

definition mem_json :: json_codec where
  "mem_json = \<lparr>js_Marshal = \<lambda>fi. Some (mem_Marshal fi), js_Unmarshal = mem_Unmarshal\<rparr>"

lemma mem_json_ok: "json_ok mem_json"
proof -
  have "mem_Unmarshal (mem_Marshal fi) = Some fi" for fi
    using dec_enc_int [of "fi_UpdatedAt fi" "[]"] by (simp add: mem_Marshal_def mem_Unmarshal_def)
  then show ?thesis by (simp add: json_ok_def mem_json_def)
qed

text \<open>An empty database is a namespace without inodes.\<close>

lemma mem_ns_ok: "ns_ok mem_badger mem_json []" and mem_ns_view: "ns_view mem_badger mem_json [] = Map.empty"
  by (auto simp: ns_ok_def mem_badger_ok mem_json_ok ns_view_def)

end
