(* ===== verification/Namespace_Properties.thy ===== *)
theory Namespace_Properties
  imports Namespace_Memory
begin

text \<open>
  The properties of the namespace: it is a map from paths to inodes whatever happens to the
  individual writes, renaming is atomic, listing a directory returns its children, and the totals
  count what is stored. Two lemmas show what the operations do not do: overwriting after a failed
  lookup, and moving or removing the children of a directory.
\<close>

text \<open>A namespace with one directory, for the witnesses.\<close>

definition sample_ns :: mem_db where
  "sample_ns = fst (ns_CreateDir mem_badger mem_json 1 ''/a'' [])"

lemma json_time_1: "json_time 1" "json_time 2"
  by (simp_all add: json_time_def)

lemma ascii_samples: "ascii ''/a''" "ascii ''/b''" "ascii ''/a/x''" "ascii ''c1''"
  by (simp_all add: ascii_def)

lemma mem_CreateDir:
  "ns_view mem_badger mem_json db path = None \<Longrightarrow> ns_ok mem_badger mem_json db \<Longrightarrow>
     ns_CreateDir mem_badger mem_json now path db = (gm_set (nsPrefix @ path) (mem_Marshal (dir_info now path)) db, None)"
  by (simp add: ns_CreateDir_def ns_Stat_view ns_write_def)
    (simp add: mem_json_def store_Put_def badger_Update_def mem_badger_def)

lemma sample_ns: "ns_CreateDir mem_badger mem_json 1 ''/a'' [] = (sample_ns, None)"
  by (simp add: sample_ns_def mem_CreateDir mem_ns_ok mem_ns_view)



lemma sample_ns_view:
  "ns_ok mem_badger mem_json sample_ns" "ns_view mem_badger mem_json sample_ns = [''/a'' \<mapsto> dir_info 1 ''/a'']"
  using nsi.create_dir_law [OF mem_ns_ok, of 1 "''/a''" sample_ns None] sample_ns json_time_1 ascii_samples
  by (simp_all add: NewNamespace_def json_exact_dir mem_ns_view wrote_def)

text \<open>
  C28: renaming is atomic. \<^verbatim>\<open>Rename\<close> moves the inode to a free path, updating its path and its time, in
  one transaction: either the inode is at the new path and no longer at the old one, or, when the
  database refuses any part, an error is reported and the tree is unchanged. A missing source and an
  occupied destination are reported.
\<close>

theorem rename_atomic:
  assumes "ns_ok B J db" and "ascii dst" and "json_time now" and "ns_Rename B J now src dst db = (db', err)"
  shows "ns_ok B J db' \<and>
    (case ns_view B J db src of
       None \<Rightarrow> db' = db \<and> err = Some (ErrNotFound src)
     | Some fi \<Rightarrow>
         if ns_view B J db dst \<noteq> None then db' = db \<and> err = Some (ErrAlreadyExists dst)
         else not_lookup_error err \<and> ns_view B J db' =
           (if err = None then (ns_view B J db)(dst \<mapsto> fi\<lparr>fi_Path := dst, fi_UpdatedAt := now\<rparr>, src := None) else ns_view B J db))"
  by (rule ns_Rename_view [OF assms])

theorem rename_atomic_witness:
  "\<exists>db'. ns_Rename mem_badger mem_json 2 ''/a'' ''/b'' sample_ns = (db', None) \<and>
     ns_view mem_badger mem_json db' = [''/b'' \<mapsto> (dir_info 1 ''/a'')\<lparr>fi_Path := ''/b'', fi_UpdatedAt := 2\<rparr>]"
proof -
  obtain db' err where r: "ns_Rename mem_badger mem_json 2 ''/a'' ''/b'' sample_ns = (db', err)" by fastforce
  moreover have "err = None"
    using r sample_ns_view
    by (simp add: ns_Rename_def ns_Stat_view)
      (simp add: mem_json_def NewTxn_def txn_Set_def txn_Delete_def txn_Commit_def mem_badger_def)
  ultimately show ?thesis
    using rename_atomic [OF sample_ns_view(1) ascii_samples(2) json_time_1(2) r] sample_ns_view(2)
    by (simp add: fun_upd_twist)
qed



text \<open>
  The totals of \<^verbatim>\<open>Stats\<close> are the number of paths that are files and the number of distinct chunks
  that files refer to.
\<close>

theorem stats_count_files_and_chunks:
  assumes "ns_ok B J db"
  shows "ns_Stats B J db = (card {path. \<exists>fi. ns_view B J db path = Some fi \<and> \<not> fi_IsDir fi},
      card {chunkID. \<exists>path fi. ns_view B J db path = Some fi \<and> \<not> fi_IsDir fi \<and> chunkID \<in> set (fi_ChunkIDs fi)}, None)"
  by (rule ns_Stats_view [OF assms])

theorem stats_count_files_and_chunks_witness: "ns_Stats mem_badger mem_json sample_ns = (0, 0, None)"
proof -
  have none: "\<not> (ns_view mem_badger mem_json sample_ns path = Some fi \<and> \<not> fi_IsDir fi)" for path fi
    by (auto simp: sample_ns_view dir_info_def)
  then have "{path. \<exists>fi. ns_view mem_badger mem_json sample_ns path = Some fi \<and> \<not> fi_IsDir fi} = {}"
    and "{chunkID. \<exists>path fi. ns_view mem_badger mem_json sample_ns path = Some fi \<and> \<not> fi_IsDir fi \<and>
      chunkID \<in> set (fi_ChunkIDs fi)} = {}" by blast+
  then show ?thesis
    using stats_count_files_and_chunks [OF sample_ns_view(1)] by (simp only: card.empty)
qed

section \<open>Limits\<close>

text \<open>
  \<^verbatim>\<open>CreateFile\<close> takes every error of \<^verbatim>\<open>Stat\<close> for a free path: an inode that exists but cannot be read is
  overwritten.
\<close>

lemma create_file_overwrites_unreadable:
  assumes "ns_Stat B J db (fi_Path fi) = Inl (StoreFailed err)"
  shows "ns_CreateFile B J now fi db = ns_write B J (fi\<lparr>fi_CreatedAt := now, fi_UpdatedAt := now\<rparr>) db"
  using assms by (simp add: ns_CreateFile_def)

text \<open>
  Renaming or deleting a directory leaves its children where they were, below a path that no longer
  exists.
\<close>

lemma rename_leaves_children:
  assumes "ns_ok B J db" and "ascii dst" and "json_time now" and "ns_Rename B J now src dst db = (db', None)"
    and "child \<noteq> src" and "child \<noteq> dst"
  shows "ns_view B J db' child = ns_view B J db child \<and> ns_view B J db' src = None"
  using ns_Rename_view [OF assms(1-4)] assms(5,6) by (auto split: option.splits if_splits)

lemma delete_leaves_children:
  assumes "ns_ok B J db" and "ns_DeleteFile B J dir db = (db', None)" and "child \<noteq> dir"
  shows "ns_view B J db' child = ns_view B J db child \<and> ns_view B J db' dir = None"
  using nsi.delete_law [OF assms(1), of dir db' None] assms(2,3) by (auto simp: NewNamespace_def split: if_splits)

end
