(* ===== verification/Chunk_Hash.thy ===== *)
theory Chunk_Hash
  imports VaultFS_Prelude Go_Strings
begin

unbundle bit_operations_syntax

text \<open>
  Content addresses (\<^verbatim>\<open>internal/chunk/hasher.go\<close>): SHA-256 of \<^verbatim>\<open>crypto/sha256\<close>, the hexadecimal
  encoding of \<^verbatim>\<open>encoding/hex\<close>, and \<^verbatim>\<open>Hash\<close>, \<^verbatim>\<open>Verify\<close> and \<^verbatim>\<open>Valid\<close> over them. The same functions serve
  the client, which has copies of \<^verbatim>\<open>Hash\<close> and \<^verbatim>\<open>Verify\<close> of its own.
\<close>

section \<open>SHA-256\<close>

definition rotr32 :: "nat \<Rightarrow> u32 \<Rightarrow> u32" where
  "rotr32 n x = drop_bit n x OR push_bit (32 - n) x"

definition sha256_K :: "u32 list" where
  "sha256_K =
    [1116352408, 1899447441, 3049323471, 3921009573, 961987163, 1508970993, 2453635748, 2870763221,
     3624381080, 310598401, 607225278, 1426881987, 1925078388, 2162078206, 2614888103, 3248222580,
     3835390401, 4022224774, 264347078, 604807628, 770255983, 1249150122, 1555081692, 1996064986,
     2554220882, 2821834349, 2952996808, 3210313671, 3336571891, 3584528711, 113926993, 338241895,
     666307205, 773529912, 1294757372, 1396182291, 1695183700, 1986661051, 2177026350, 2456956037,
     2730485921, 2820302411, 3259730800, 3345764771, 3516065817, 3600352804, 4094571909, 275423344,
     430227734, 506948616, 659060556, 883997877, 958139571, 1322822218, 1537002063, 1747873779,
     1955562222, 2024104815, 2227730452, 2361852424, 2428436474, 2756734187, 3204031479, 3329325298]"

record sha_state =
  sh_a :: u32
  sh_b :: u32
  sh_c :: u32
  sh_d :: u32
  sh_e :: u32
  sh_f :: u32
  sh_g :: u32
  sh_h :: u32

definition sha256_init :: sha_state where
  "sha256_init = \<lparr>sh_a = 1779033703, sh_b = 3144134277, sh_c = 1013904242, sh_d = 2773480762,
     sh_e = 1359893119, sh_f = 2600822924, sh_g = 528734635, sh_h = 1541459225\<rparr>"

definition sha256_round :: "u32 \<Rightarrow> u32 \<Rightarrow> sha_state \<Rightarrow> sha_state" where
  "sha256_round k w s =
     (let t1 = sh_h s + (rotr32 6 (sh_e s) XOR rotr32 11 (sh_e s) XOR rotr32 25 (sh_e s)) +
            ((sh_e s AND sh_f s) XOR (NOT (sh_e s) AND sh_g s)) + k + w;
          t2 = (rotr32 2 (sh_a s) XOR rotr32 13 (sh_a s) XOR rotr32 22 (sh_a s)) +
            ((sh_a s AND sh_b s) XOR (sh_a s AND sh_c s) XOR (sh_b s AND sh_c s))
      in \<lparr>sh_a = t1 + t2, sh_b = sh_a s, sh_c = sh_b s, sh_d = sh_c s,
          sh_e = sh_d s + t1, sh_f = sh_e s, sh_g = sh_f s, sh_h = sh_g s\<rparr>)"

text \<open>
  The message schedule, computed along with the rounds: the window holds the next 16 words.
\<close>

definition sha256_next :: "u32 list \<Rightarrow> u32" where
  "sha256_next ws =
     (let w15 = ws ! 1; w2 = ws ! 14
      in ws ! 0 + (rotr32 7 w15 XOR rotr32 18 w15 XOR drop_bit 3 w15) + ws ! 9 +
         (rotr32 17 w2 XOR rotr32 19 w2 XOR drop_bit 10 w2))"

fun sha256_rounds :: "u32 list \<Rightarrow> u32 list \<Rightarrow> sha_state \<Rightarrow> sha_state" where
  "sha256_rounds [] ws s = s"
| "sha256_rounds (k # ks) ws s = sha256_rounds ks (tl ws @ [sha256_next ws]) (sha256_round k (hd ws) s)"

definition be_word :: "bytes \<Rightarrow> u32" where
  "be_word bs = foldl (\<lambda>x b. push_bit 8 x OR ucast b) 0 bs"

fun be_words :: "bytes \<Rightarrow> u32 list" where
  "be_words (b0 # b1 # b2 # b3 # bs) = be_word [b0, b1, b2, b3] # be_words bs"
| "be_words _ = []"

definition sha256_block :: "bytes \<Rightarrow> sha_state \<Rightarrow> sha_state" where
  "sha256_block block s =
     (let s' = sha256_rounds sha256_K (be_words block) s
      in \<lparr>sh_a = sh_a s + sh_a s', sh_b = sh_b s + sh_b s', sh_c = sh_c s + sh_c s', sh_d = sh_d s + sh_d s',
          sh_e = sh_e s + sh_e s', sh_f = sh_f s + sh_f s', sh_g = sh_g s + sh_g s', sh_h = sh_h s + sh_h s'\<rparr>)"

definition be_bytes :: "nat \<Rightarrow> 'a::len word \<Rightarrow> bytes" where
  "be_bytes n x = map (\<lambda>i. ucast (drop_bit (8 * i) x)) (rev [0..<n])"

definition sha256_pad :: "bytes \<Rightarrow> bytes" where
  "sha256_pad data = data @ 0x80 # replicate ((119 - length data mod 64) mod 64) 0 @
     be_bytes 8 (of_nat (8 * length data) :: u64)"

function sha256_blocks :: "bytes \<Rightarrow> sha_state \<Rightarrow> sha_state" where
  "sha256_blocks bs s = (if bs = [] then s else sha256_blocks (drop 64 bs) (sha256_block (take 64 bs) s))"
  by pat_completeness auto
termination
  by (relation "measure (\<lambda>(bs, s). length bs)") auto

declare sha256_blocks.simps [simp del]

definition Sum256 :: "bytes \<Rightarrow> bytes" where
  "Sum256 data =
     (let s = sha256_blocks (sha256_pad data) sha256_init
      in concat (map (be_bytes 4) [sh_a s, sh_b s, sh_c s, sh_d s, sh_e s, sh_f s, sh_g s, sh_h s]))"

section \<open>Hexadecimal\<close>

definition hex_digit :: "nat \<Rightarrow> char" where
  "hex_digit n = (if n < 10 then char_of (48 + n) else char_of (87 + n))"

definition hex_byte :: "byte \<Rightarrow> string" where
  "hex_byte b = [hex_digit (unat b div 16), hex_digit (unat b mod 16)]"

definition hex_EncodeToString :: "bytes \<Rightarrow> string" where
  "hex_EncodeToString bs = concat (map hex_byte bs)"

section \<open>hasher.go\<close>

type_synonym ChunkID = string

definition idLen :: nat where
  "idLen = 32 * 2"

definition Hash :: "bytes \<Rightarrow> ChunkID" where
  "Hash data = hex_EncodeToString (Sum256 data)"

text \<open>\<^verbatim>\<open>Verify\<close> returns \<^verbatim>\<open>nil\<close> (\<open>True\<close>) or \<^verbatim>\<open>ErrChecksumFailed\<close> (\<open>False\<close>).\<close>

definition Verify :: "ChunkID \<Rightarrow> bytes \<Rightarrow> bool" where
  "Verify chunkID data \<longleftrightarrow> Hash data = chunkID"

fun valid_loop :: "string \<Rightarrow> bool" where
  "valid_loop [] = True"
| "valid_loop (c # cs) =
     (let isDigit = CHR ''0'' \<le> c \<and> c \<le> CHR ''9''; isLowerHex = CHR ''a'' \<le> c \<and> c \<le> CHR ''f''
      in if \<not> isDigit \<and> \<not> isLowerHex then False else valid_loop cs)"

definition Valid :: "ChunkID \<Rightarrow> bool" where
  "Valid chunkID \<longleftrightarrow> (if length chunkID \<noteq> idLen then False else valid_loop chunkID)"

section \<open>Lemmas\<close>

lemma length_Sum256 [simp]: "length (Sum256 data) = 32"
  by (simp add: Sum256_def Let_def be_bytes_def)

lemma length_hex [simp]: "length (hex_EncodeToString bs) = 2 * length bs"
  by (induction bs) (simp_all add: hex_EncodeToString_def hex_byte_def)

lemma valid_loop_all: "valid_loop s \<longleftrightarrow> (\<forall>c \<in> set s. CHR ''0'' \<le> c \<and> c \<le> CHR ''9'' \<or> CHR ''a'' \<le> c \<and> c \<le> CHR ''f'')"
  by (induction s) (auto simp: Let_def)

lemma hex_digit_valid: "n < 16 \<Longrightarrow>
    CHR ''0'' \<le> hex_digit n \<and> hex_digit n \<le> CHR ''9'' \<or> CHR ''a'' \<le> hex_digit n \<and> hex_digit n \<le> CHR ''f''"
  by (auto simp: hex_digit_def less_eq_char_def)

lemma valid_hex: "valid_loop (hex_EncodeToString bs)"
proof -
  have "unat b < 256" for b :: byte
    using unsigned_less [of b] by simp
  then have "unat b div 16 < 16" "unat b mod 16 < 16" for b :: byte
    by (simp_all add: less_mult_imp_div_less)
  then show ?thesis
    using hex_digit_valid by (auto simp: valid_loop_all hex_EncodeToString_def hex_byte_def)
qed

lemma Valid_Hash [simp]: "Valid (Hash data)"
  by (simp add: Valid_def Hash_def idLen_def valid_hex)

lemma length_Hash [simp]: "length (Hash data) = 64"
  by (simp add: Hash_def)

end
