(* ===== verification/Go_Paths.thy ===== *)
theory Go_Paths
  imports Go_Strings
begin

text \<open>
  \<^verbatim>\<open>strings.Split\<close>, \<^verbatim>\<open>strings.Trim\<close> and the lexical path operations of \<^verbatim>\<open>path/filepath\<close>. An absolute
  path is the list of its components.
\<close>

text \<open>\<^verbatim>\<open>strings.Split(s, sep)\<close> for a separator of one byte.\<close>

fun split_char :: "char \<Rightarrow> string \<Rightarrow> string list" where
  "split_char c [] = [[]]"
| "split_char c (x # xs) =
     (if x = c then [] # split_char c xs
      else (x # hd (split_char c xs)) # tl (split_char c xs))"

text \<open>\<^verbatim>\<open>strings.Trim(s, cutset)\<close> for a cutset of one byte.\<close>

definition trim_char :: "char \<Rightarrow> string \<Rightarrow> string" where
  "trim_char c s = rev (dropWhile ((=) c) (rev (dropWhile ((=) c) s)))"

text \<open>
  \<^verbatim>\<open>filepath.Join(root, elem...)\<close>, which cleans the result: empty and dot components vanish, and
  \<^verbatim>\<open>..\<close> removes the component before it, at most up to the root of the file system.
\<close>

fun clean_loop :: "string list \<Rightarrow> string list \<Rightarrow> string list" where
  "clean_loop out [] = out"
| "clean_loop out (c # cs) =
     (if c = '''' \<or> c = ''.'' then clean_loop out cs
      else if c = ''..'' then clean_loop (butlast out) cs
      else clean_loop (out @ [c]) cs)"

definition path_Join :: "string list \<Rightarrow> string list \<Rightarrow> string list" where
  "path_Join root elems = clean_loop [] (root @ concat (map (split_char CHR ''/'') elems))"

definition plain_component :: "string \<Rightarrow> bool" where
  "plain_component c \<longleftrightarrow> c \<noteq> '''' \<and> c \<noteq> ''.'' \<and> c \<noteq> ''..'' \<and> CHR ''/'' \<notin> set c"

lemma split_char_nonempty [simp]: "split_char c s \<noteq> []"
  by (cases s) auto

lemma split_char_none: "c \<notin> set s \<Longrightarrow> split_char c s = [s]"
  by (induction c s rule: split_char.induct) auto

lemma split_char_append: "c \<notin> set s \<Longrightarrow> split_char c (s @ c # t) = s # split_char c t"
  by (induction s) auto

lemma clean_loop_plain: "(\<forall>c \<in> set cs. plain_component c) \<Longrightarrow> clean_loop out cs = out @ cs"
  by (induction out cs rule: clean_loop.induct) (auto simp: plain_component_def)

lemma path_Join_plain:
  assumes "\<forall>c \<in> set root. plain_component c" and "\<forall>c \<in> set elems. plain_component c"
  shows "path_Join root elems = root @ elems"
proof -
  have "concat (map (split_char CHR ''/'') elems) = elems"
    using assms(2) by (induction elems) (auto simp: plain_component_def split_char_none)
  then show ?thesis
    using assms by (simp add: path_Join_def clean_loop_plain ball_Un)
qed

end
