(* ===== verification/Chunk_Store.thy ===== *)
theory Chunk_Store
  imports Chunk_Hash Go_Files Go_Paths
begin

text \<open>
  The disk-backed chunk store (\<^verbatim>\<open>internal/chunk/store.go\<close>). A path is the list of its components
  below the root of the file system, and the store lives in the directory \<open>root\<close>. Directories are
  implicit: \<^verbatim>\<open>MkdirAll\<close> only matters by failing. Which system calls fail, whether the context is
  cancelled and the random suffix of the temporary file are arguments, so every error return is a
  branch, and stopping at a crash is covered by the failure at that point with a failed cleanup.
\<close>

section \<open>Model\<close>

record store_faults =
  sf_cancelled :: bool
  sf_stat :: bool
  sf_mkdir :: bool
  sf_create :: bool
  sf_write :: "nat option"
  sf_sync :: bool
  sf_close :: bool
  sf_rename :: bool
  sf_remove :: bool
  sf_read :: bool
  sf_walk :: bool

definition no_store_faults :: store_faults where
  "no_store_faults = \<lparr>sf_cancelled = False, sf_stat = False, sf_mkdir = False, sf_create = False, sf_write = None,
     sf_sync = False, sf_close = False, sf_rename = False, sf_remove = False, sf_read = False, sf_walk = False\<rparr>"

text \<open>\<open>Panicked\<close> is the run-time panic of slicing an ID that is shorter than the fan-out prefix.\<close>

datatype chunk_error = WriteCancelled | FanoutFailed | CreateTempFailed | WriteDataFailed | FsyncFailed | CloseTempFailed
  | CommitFailed | ReadCancelled | ErrChunkNotFound ChunkID | ReadFailed ChunkID | ErrChecksumFailed ChunkID
  | DeleteCancelled | DeleteFailed ChunkID | ListFailed | Panicked

type_synonym chunk_disk = "string list files"

record chunk_Store =
  cs_root :: "string list"
  cs_writing :: "(ChunkID, unit) gomap"

definition fanoutLen :: nat where
  "fanoutLen = 2"

definition NewStore :: "bool \<Rightarrow> string list \<Rightarrow> chunk_Store option" where
  "NewStore mkdirFails dir = (if mkdirFails then None else Some \<lparr>cs_root = dir, cs_writing = []\<rparr>)"

definition chunk_path :: "string list \<Rightarrow> ChunkID \<Rightarrow> string list option" where
  "chunk_path root chunkID =
     (if length chunkID < fanoutLen then None else Some (path_Join root [take fanoutLen chunkID, chunkID]))"

definition temp_path :: "string list \<Rightarrow> ChunkID \<Rightarrow> string \<Rightarrow> string list" where
  "temp_path dest chunkID rnd = butlast dest @ [''.'' @ chunkID @ ''.tmp-'' @ rnd]"

text \<open>
  The part of \<^verbatim>\<open>WriteChunk\<close> between the two critical sections, from the test whether the chunk is
  present to the rename. The deferred \<^verbatim>\<open>os.Remove(tmpName)\<close> runs on every return.
\<close>

definition write_chunk_file :: "store_faults \<Rightarrow> string \<Rightarrow> string list \<Rightarrow> ChunkID \<Rightarrow> bytes \<Rightarrow> chunk_disk \<Rightarrow>
    chunk_disk \<times> (chunk_error + ChunkID)" where
  "write_chunk_file ft rnd dest chunkID data d =
     (if \<not> sf_stat ft \<and> gm_lookup d dest \<noteq> None then (d, Inr chunkID)
      else if sf_mkdir ft then (d, Inl FanoutFailed)
      else let tmpName = temp_path dest chunkID rnd;
               cleanup = (\<lambda>d. if sf_remove ft then d else gm_delete tmpName d)
        in if sf_create ft \<or> gm_lookup d tmpName \<noteq> None then (d, Inl CreateTempFailed)
           else let d1 = gm_set tmpName \<lparr>wf_synced = [], wf_pending = []\<rparr> d
             in case sf_write ft of
               Some k \<Rightarrow> (cleanup (on_file tmpName (append_pending (take k data)) d1), Inl WriteDataFailed)
             | None \<Rightarrow>
                 let d2 = on_file tmpName (append_pending data) d1
                 in if sf_sync ft then (cleanup d2, Inl FsyncFailed)
                    else let d3 = on_file tmpName sync_file d2
                      in if sf_close ft then (cleanup d3, Inl CloseTempFailed)
                         else if sf_rename ft then (cleanup d3, Inl CommitFailed)
                         else (case gm_lookup d3 tmpName of
                             None \<Rightarrow> (d3, Inl CommitFailed)
                           | Some f \<Rightarrow> (cleanup (gm_set dest f (gm_delete tmpName d3)), Inr chunkID)))"

definition chunk_WriteChunk :: "store_faults \<Rightarrow> string \<Rightarrow> bytes \<Rightarrow> chunk_Store \<Rightarrow> chunk_disk \<Rightarrow>
    chunk_Store \<times> chunk_disk \<times> (chunk_error + ChunkID)" where
  "chunk_WriteChunk ft rnd data s d =
     (if sf_cancelled ft then (s, d, Inl WriteCancelled)
      else let chunkID = Hash data
        in case chunk_path (cs_root s) chunkID of
             None \<Rightarrow> (s, d, Inl Panicked)
           | Some dest \<Rightarrow>
               if gm_lookup (cs_writing s) chunkID \<noteq> None then (s, d, Inr chunkID)
               else let s1 = s\<lparr>cs_writing := gm_set chunkID () (cs_writing s)\<rparr>;
                        (d', r) = write_chunk_file ft rnd dest chunkID data d
                 in (s1\<lparr>cs_writing := gm_delete chunkID (cs_writing s1)\<rparr>, d', r))"

definition chunk_ReadChunk :: "store_faults \<Rightarrow> ChunkID \<Rightarrow> chunk_Store \<Rightarrow> chunk_disk \<Rightarrow> chunk_error + bytes" where
  "chunk_ReadChunk ft chunkID s d =
     (if sf_cancelled ft then Inl ReadCancelled
      else case chunk_path (cs_root s) chunkID of
        None \<Rightarrow> Inl Panicked
      | Some path \<Rightarrow> (case gm_lookup d path of
          None \<Rightarrow> Inl (ErrChunkNotFound chunkID)
        | Some f \<Rightarrow> if sf_read ft then Inl (ReadFailed chunkID)
            else let data = file_bytes f
              in if \<not> Verify chunkID data then Inl (ErrChecksumFailed chunkID) else Inr data))"

definition chunk_DeleteChunk :: "store_faults \<Rightarrow> ChunkID \<Rightarrow> chunk_Store \<Rightarrow> chunk_disk \<Rightarrow> chunk_disk \<times> chunk_error option" where
  "chunk_DeleteChunk ft chunkID s d =
     (if sf_cancelled ft then (d, Some DeleteCancelled)
      else case chunk_path (cs_root s) chunkID of
        None \<Rightarrow> (d, Some Panicked)
      | Some path \<Rightarrow>
          if gm_lookup d path \<noteq> None \<and> sf_remove ft then (d, Some (DeleteFailed chunkID))
          else (gm_delete path d, None))"

definition chunk_Has :: "store_faults \<Rightarrow> ChunkID \<Rightarrow> chunk_Store \<Rightarrow> chunk_disk \<Rightarrow> bool option" where
  "chunk_Has ft chunkID s d =
     map_option (\<lambda>path. gm_lookup d path \<noteq> None \<and> \<not> sf_stat ft) (chunk_path (cs_root s) chunkID)"

text \<open>
  \<^verbatim>\<open>filepath.WalkDir\<close> visits the entries of every directory in the order of their names, so the files
  in the order of their component lists. The callback appends the valid names.
\<close>

definition walk_files :: "string list \<Rightarrow> chunk_disk \<Rightarrow> string list list" where
  "walk_files root d = sort (filter (strict_prefix root) (map fst d))"

fun list_chunks_loop :: "string list list \<Rightarrow> ChunkID list \<Rightarrow> ChunkID list" where
  "list_chunks_loop [] ids = ids"
| "list_chunks_loop (path # paths) ids =
     list_chunks_loop paths (let chunkID = last path in if Valid chunkID then ids @ [chunkID] else ids)"

definition ListChunks :: "store_faults \<Rightarrow> chunk_Store \<Rightarrow> chunk_disk \<Rightarrow> chunk_error + ChunkID list" where
  "ListChunks ft s d = (if sf_walk ft then Inl ListFailed else Inr (list_chunks_loop (walk_files (cs_root s) d) []))"

definition chunk_Count :: "store_faults \<Rightarrow> chunk_Store \<Rightarrow> chunk_disk \<Rightarrow> chunk_error + nat" where
  "chunk_Count ft s d = (case ListChunks ft s d of Inl err \<Rightarrow> Inl err | Inr ids \<Rightarrow> Inr (length ids))"

section \<open>Paths of valid chunks\<close>

definition root_ok :: "string list \<Rightarrow> bool" where
  "root_ok root \<longleftrightarrow> (\<forall>c \<in> set root. plain_component c)"

lemma valid_char: "Valid chunkID \<Longrightarrow> c \<in> set chunkID \<Longrightarrow> CHR ''0'' \<le> c"
  by (fastforce simp: Valid_def valid_loop_all less_eq_char_def split: if_splits)

lemma valid_plain:
  assumes "Valid chunkID"
  shows "plain_component chunkID" and "plain_component (take 2 chunkID)" and "length chunkID = 64"
proof -
  show len: "length chunkID = 64" using assms by (simp add: Valid_def idLen_def split: if_splits)
  have no: "CHR ''/'' \<notin> set chunkID" "CHR ''.'' \<notin> set chunkID"
    using valid_char [OF assms] by (fastforce simp: less_eq_char_def)+
  have hd: "hd (take 2 chunkID) \<in> set chunkID" "take 2 chunkID \<noteq> []"
    using len by (auto simp: hd_take) (metis hd_in_set list.size(3) zero_neq_numeral)
  show "plain_component chunkID" "plain_component (take 2 chunkID)"
    using no len hd set_take_subset [of 2 chunkID] by (auto simp: plain_component_def)
qed

definition chunk_file :: "string list \<Rightarrow> ChunkID \<Rightarrow> string list" where
  "chunk_file root chunkID = root @ [take 2 chunkID, chunkID]"

lemma chunk_path_valid: "root_ok root \<Longrightarrow> Valid chunkID \<Longrightarrow> chunk_path root chunkID = Some (chunk_file root chunkID)"
  using valid_plain [of chunkID] by (simp add: chunk_path_def fanoutLen_def root_ok_def path_Join_plain chunk_file_def)

lemma chunk_file_inj [simp]: "chunk_file root a = chunk_file root b \<longleftrightarrow> a = b"
  by (auto simp: chunk_file_def)

lemma temp_path_chunk: "temp_path (chunk_file root chunkID) chunkID rnd = root @ [take 2 chunkID, ''.'' @ chunkID @ ''.tmp-'' @ rnd]"
  by (simp add: temp_path_def chunk_file_def butlast_append)

lemma temp_last [simp]: "last (temp_path dest chunkID rnd) = ''.'' @ chunkID @ ''.tmp-'' @ rnd"
  by (simp add: temp_path_def)

lemma temp_not_valid: "\<not> Valid (''.'' @ s)"
  by (auto simp: Valid_def valid_loop_all less_eq_char_def)

section \<open>Integrity\<close>

text \<open>
  Every file whose name is a chunk ID lies where the store looks for it, is on stable storage and
  hashes to its name.
\<close>

definition store_ok :: "string list \<Rightarrow> chunk_disk \<Rightarrow> bool" where
  "store_ok root d \<longleftrightarrow> root_ok root \<and> gm_wf d \<and>
     (\<forall>path f. gm_lookup d path = Some f \<and> strict_prefix root path \<and> Valid (last path) \<longrightarrow>
        path = chunk_file root (last path) \<and> wf_pending f = [] \<and> Hash (wf_synced f) = last path)"

text \<open>The chunks of the store.\<close>

definition stored :: "string list \<Rightarrow> chunk_disk \<Rightarrow> ChunkID \<Rightarrow> bytes option" where
  "stored root d chunkID = (if Valid chunkID then map_option file_bytes (gm_lookup d (chunk_file root chunkID)) else None)"

lemma last_chunk_file [simp]: "last (chunk_file root chunkID) = chunkID" "strict_prefix root (chunk_file root chunkID)"
  by (auto simp: chunk_file_def strict_prefix_def)

lemma stored_Hash: "store_ok root d \<Longrightarrow> stored root d chunkID = Some data \<Longrightarrow> Hash data = chunkID"
  by (fastforce simp: store_ok_def stored_def file_bytes_def split: if_splits)

lemma store_ok_temp:
  assumes "store_ok root d" and "\<not> Valid (last tmp)"
    and "gm_lookup d' = (gm_lookup d)(tmp := x)" and "gm_wf d'"
  shows "store_ok root d' \<and> stored root d' = stored root d"
proof -
  have "tmp \<noteq> chunk_file root chunkID" if "Valid chunkID" for chunkID
    using assms(2) that by auto
  then have "stored root d' = stored root d"
    using assms(3) by (auto simp: stored_def fun_eq_iff)
  moreover have "store_ok root d'"
    using assms by (auto simp: store_ok_def split: if_splits)
  ultimately show ?thesis by simp
qed

lemma disk_crash_store_ok:
  assumes "store_ok root d"
  shows "store_ok root (disk_crash keep d) \<and> stored root (disk_crash keep d) = stored root d"
proof -
  have "stored root (disk_crash keep d) chunkID = stored root d chunkID" for chunkID
  proof (cases "Valid chunkID \<and> gm_lookup d (chunk_file root chunkID) \<noteq> None")
    case True
    then obtain f where "gm_lookup d (chunk_file root chunkID) = Some f" "wf_pending f = []"
      using assms by (force simp: store_ok_def)
    then show ?thesis by (simp add: stored_def disk_crash_lookup file_bytes_def)
  qed (auto simp: stored_def disk_crash_lookup)
  with assms show ?thesis
    by (auto simp: store_ok_def disk_crash_lookup disk_crash_wf fun_eq_iff)
qed

lemma write_chunk_file_result:
  assumes ok: "store_ok root d" and dest: "dest = chunk_file root (Hash data)"
    and run: "write_chunk_file ft rnd dest (Hash data) data d = (d', r)"
  shows "store_ok root d' \<and>
    (case r of
       Inl err \<Rightarrow> stored root d' = stored root d
     | Inr chunkID \<Rightarrow> chunkID = Hash data \<and> stored root d' =
         (if \<not> sf_stat ft \<and> stored root d (Hash data) \<noteq> None then stored root d else (stored root d)(Hash data \<mapsto> data)))"
proof -
  let ?tmp = "temp_path dest (Hash data) rnd"
  let ?d1 = "gm_set ?tmp \<lparr>wf_synced = [], wf_pending = []\<rparr> d"
  have wf: "gm_wf d" using ok by (simp add: store_ok_def)
  have bad: "\<not> Valid (last ?tmp)" using temp_not_valid by simp
  have pending: "gm_lookup (on_file ?tmp (append_pending p) ?d1) = (gm_lookup d)(?tmp \<mapsto> \<lparr>wf_synced = [], wf_pending = p\<rparr>)" for p
    by (simp add: on_file_lookup gomap_simps append_pending_def)
  let ?d3 = "on_file ?tmp sync_file (on_file ?tmp (append_pending data) ?d1)"
  have synced: "gm_lookup ?d3 = (gm_lookup d)(?tmp \<mapsto> \<lparr>wf_synced = data, wf_pending = []\<rparr>)"
    by (subst on_file_lookup) (simp add: pending sync_file_def file_bytes_def)
  have temp: "store_ok root x' \<and> stored root x' = stored root d"
    if "gm_lookup x = (gm_lookup d)(?tmp \<mapsto> f)" "gm_wf x" "x' = (if sf_remove ft then x else gm_delete ?tmp x)" for x x' f
    using store_ok_temp [OF ok bad, of x' "if sf_remove ft then Some f else None"] that
    by (cases "sf_remove ft") (auto simp: gomap_simps gm.invar_delete)
  have wf3: "gm_wf (on_file ?tmp (append_pending p) ?d1)" "gm_wf ?d3" for p
    using wf by (simp_all add: on_file_wf gm.invar_update)
  show ?thesis
  proof (cases r)
    case (Inl err)
    have "d' = d \<or> (\<exists>x f. gm_lookup x = (gm_lookup d)(?tmp \<mapsto> f) \<and> gm_wf x \<and> d' = (if sf_remove ft then x else gm_delete ?tmp x))"
      using run Inl pending synced wf3
      by (simp add: write_chunk_file_def Let_def split: if_splits option.splits) blast+
    then show ?thesis using temp ok Inl by auto
  next
    case (Inr chunkID)
    show ?thesis
    proof (cases "\<not> sf_stat ft \<and> gm_lookup d dest \<noteq> None")
      case True
      then show ?thesis using run Inr ok by (auto simp: write_chunk_file_def stored_def dest)
    next
      case False
      let ?x = "gm_set dest \<lparr>wf_synced = data, wf_pending = []\<rparr> (gm_delete ?tmp ?d3)"
      have fin: "chunkID = Hash data" "d' = (if sf_remove ft then ?x else gm_delete ?tmp ?x)"
        using run Inr False synced by (auto simp: write_chunk_file_def Let_def split: if_splits option.splits)
      have neqs: "?tmp \<noteq> chunk_file root x" if "Valid x" for x using bad that by (metis last_chunk_file(1))
      have neq: "?tmp \<noteq> dest" using bad by (metis Valid_Hash dest last_chunk_file(1))
      have look: "gm_lookup d' = (gm_lookup d)(?tmp := None, dest \<mapsto> \<lparr>wf_synced = data, wf_pending = []\<rparr>)"
        using neq by (auto simp: fin gomap_simps synced fun_eq_iff)
      have wf': "gm_wf d'" using wf3 by (simp add: fin gm.invar_update gm.invar_delete)
      have d0: "store_ok root (gm_delete ?tmp d) \<and> stored root (gm_delete ?tmp d) = stored root d"
        using wf by (intro store_ok_temp [OF ok bad]) (auto simp: gomap_simps)
      have "store_ok root d'"
        using conjunct1 [OF d0] look wf' dest by (auto simp: store_ok_def gomap_simps split: if_splits)
      moreover have "stored root d' = (stored root d)(Hash data \<mapsto> data)"
        by (simp add: stored_def fun_eq_iff look file_bytes_def neqs [symmetric]) (simp add: dest)
      ultimately show ?thesis
        using False Inr fin(1) by (auto simp: stored_def dest)
    qed
  qed
qed

lemma chunk_WriteChunk_result:
  assumes ok: "store_ok (cs_root s) d" and run: "chunk_WriteChunk ft rnd data s d = (s', d', r)"
  shows "store_ok (cs_root s') d' \<and> cs_root s' = cs_root s \<and>
    (case r of
       Inl err \<Rightarrow> stored (cs_root s) d' = stored (cs_root s) d
     | Inr chunkID \<Rightarrow> chunkID = Hash data \<and>
         (gm_lookup (cs_writing s) chunkID = None \<longrightarrow> stored (cs_root s) d' =
            (if \<not> sf_stat ft \<and> stored (cs_root s) d chunkID \<noteq> None then stored (cs_root s) d
             else (stored (cs_root s) d)(chunkID \<mapsto> data))) \<and>
         (gm_lookup (cs_writing s) chunkID \<noteq> None \<longrightarrow> d' = d))"
proof -
  have path: "chunk_path (cs_root s) (Hash data) = Some (chunk_file (cs_root s) (Hash data))"
    using ok by (simp add: chunk_path_valid store_ok_def)
  obtain d1 r1 where w: "write_chunk_file ft rnd (chunk_file (cs_root s) (Hash data)) (Hash data) data d = (d1, r1)" by fastforce
  from write_chunk_file_result [OF ok refl this] show ?thesis
    using run ok w by (auto simp: chunk_WriteChunk_def path Let_def split: if_splits sum.splits)
qed

lemma chunk_ReadChunk_stored:
  assumes "store_ok (cs_root s) d" and "Valid chunkID"
  shows "chunk_ReadChunk no_store_faults chunkID s d =
    (case stored (cs_root s) d chunkID of None \<Rightarrow> Inl (ErrChunkNotFound chunkID) | Some data \<Rightarrow> Inr data)"
  using assms stored_Hash [OF assms(1), of chunkID]
  by (auto simp: chunk_ReadChunk_def no_store_faults_def chunk_path_valid store_ok_def stored_def Verify_def Let_def split: option.splits)

lemma chunk_DeleteChunk_result:
  assumes ok: "store_ok (cs_root s) d" and "Valid chunkID" and run: "chunk_DeleteChunk ft chunkID s d = (d', err)"
  shows "store_ok (cs_root s) d' \<and>
    stored (cs_root s) d' = (if err = None then (stored (cs_root s) d)(chunkID := None) else stored (cs_root s) d)"
proof -
  have "chunk_path (cs_root s) chunkID = Some (chunk_file (cs_root s) chunkID)"
    using assms by (simp add: chunk_path_valid store_ok_def)
  with run have "d' = d \<and> err \<noteq> None \<or> d' = gm_delete (chunk_file (cs_root s) chunkID) d \<and> err = None"
    by (auto simp: chunk_DeleteChunk_def split: if_splits)
  with ok assms(2) show ?thesis
    by (auto simp: store_ok_def stored_def fun_eq_iff gomap_simps gm.invar_delete split: if_splits)
qed

section \<open>Listing\<close>

lemma list_chunks_loop_eq: "list_chunks_loop paths ids = ids @ filter Valid (map last paths)"
  by (induction paths ids rule: list_chunks_loop.induct) (auto simp: Let_def)

lemma ListChunks_eq:
  "ListChunks ft s d = (if sf_walk ft then Inl ListFailed
     else Inr (filter Valid (map last (sort (filter (strict_prefix (cs_root s)) (map fst d))))))"
  by (simp add: ListChunks_def walk_files_def list_chunks_loop_eq)

lemma chunk_names_sorted:
  assumes "Valid a" and "Valid b"
  shows "chunk_file root a \<le> chunk_file root b \<longleftrightarrow> a \<le> b"
proof -
  have len: "length a = 64" "length b = 64" using assms valid_plain(3) by auto
  have split: "x = take 2 x @ drop 2 x" for x :: string by simp
  have "root @ [take 2 a, a] \<le> root @ [take 2 b, b] \<longleftrightarrow> [take 2 a, a] \<le> [take 2 b, b]"
    by (induction root) auto
  moreover have "take 2 a < take 2 b \<Longrightarrow> a < b"
  proof -
    obtain a1 a2 ar where a: "a = a1 # a2 # ar" using len by (cases a; cases "tl a") auto
    obtain b1 b2 br where b: "b = b1 # b2 # br" using len by (cases b; cases "tl b") auto
    assume "take 2 a < take 2 b"
    then show "a < b" unfolding a b by (auto simp: numeral_2_eq_2)
  qed
  moreover have "take 2 b < take 2 a \<Longrightarrow> b < a"
  proof -
    obtain a1 a2 ar where a: "a = a1 # a2 # ar" using len by (cases a; cases "tl a") auto
    obtain b1 b2 br where b: "b = b1 # b2 # br" using len by (cases b; cases "tl b") auto
    assume "take 2 b < take 2 a"
    then show "b < a" unfolding a b by (auto simp: numeral_2_eq_2)
  qed
  ultimately show ?thesis
    by (cases "take 2 a" "take 2 b" rule: linorder_cases) (auto simp: chunk_file_def not_le)
qed

lemma ListChunks_stored:
  assumes ok: "store_ok (cs_root s) d" and run: "ListChunks ft s d = Inr ids"
  shows "set ids = {chunkID. stored (cs_root s) d chunkID \<noteq> None} \<and> distinct ids \<and> sorted ids"
proof -
  let ?root = "cs_root s"
  let ?paths = "filter (\<lambda>path. Valid (last path)) (sort (filter (strict_prefix ?root) (map fst d)))"
  have wf: "gm_wf d" using ok by (simp add: store_ok_def)
  have ids: "ids = map last ?paths"
    using run by (simp add: ListChunks_eq filter_map comp_def split: if_splits)
  have is_file: "chunk_file ?root (last path) = path" "Valid (last path)" if path: "path \<in> set ?paths" for path
  proof -
    obtain f where "gm_lookup d path = Some f"
      using path wf by (auto simp: gm_entries_iff)
    moreover have "strict_prefix ?root path" and "Valid (last path)" using path by simp_all
    ultimately show "chunk_file ?root (last path) = path" "Valid (last path)"
      using ok unfolding store_ok_def by metis+
  qed
  have "inj_on last (set ?paths)"
  proof (rule inj_onI)
    fix x y assume "x \<in> set ?paths" and "y \<in> set ?paths" and "last x = last y"
    then show "x = y" using is_file(1) [of x] is_file(1) [of y] by argo
  qed
  then have "distinct ids"
    using wf by (simp only: ids distinct_map) (simp add: gm_wf_def)
  moreover have "sorted ids"
  proof -
    have "sorted ?paths" by (simp add: sorted_wrt_filter)
    then show ?thesis
      unfolding ids sorted_map
    proof (rule sorted_wrt_mono_rel [rotated])
      fix x y assume "x \<in> set ?paths" and "y \<in> set ?paths" and "x \<le> y"
      then show "last x \<le> last y"
        using is_file [of x] is_file [of y] chunk_names_sorted [of "last x" "last y" ?root] by simp
    qed
  qed
  moreover have "set ids = {chunkID. stored ?root d chunkID \<noteq> None}"
  proof (intro set_eqI iffI)
    fix chunkID assume "chunkID \<in> set ids"
    then obtain path where path: "path \<in> set ?paths" "chunkID = last path" unfolding ids by auto
    then obtain f where "gm_lookup d path = Some f" using wf by (auto simp: gm_entries_iff)
    with is_file [OF path(1)] path(2) show "chunkID \<in> {chunkID. stored ?root d chunkID \<noteq> None}"
      by (auto simp: stored_def)
  next
    fix chunkID assume "chunkID \<in> {chunkID. stored ?root d chunkID \<noteq> None}"
    then obtain f where f: "Valid chunkID" "gm_lookup d (chunk_file ?root chunkID) = Some f"
      by (auto simp: stored_def split: if_splits)
    then have "chunk_file ?root chunkID \<in> fst ` set d" by (metis image_eqI fst_conv map_of_SomeD)
    then have "chunk_file ?root chunkID \<in> set ?paths" using f(1) by simp
    from imageI [OF this, of last] show "chunkID \<in> set ids"
      by (simp only: ids set_map last_chunk_file)
  qed
  ultimately show ?thesis by simp
qed

section \<open>Properties\<close>

text \<open>
  Content addresses. \<^verbatim>\<open>Hash\<close> always yields a well-formed ID of 64 lowercase hexadecimal digits, and
  \<^verbatim>\<open>Verify\<close> accepts data for exactly the ID that \<^verbatim>\<open>Hash\<close> gives it.
\<close>

theorem chunk_ids_valid:
  "Valid (Hash data) \<and> length (Hash data) = idLen \<and> {chunkID. Verify chunkID data} = {Hash data}"
  by (auto simp: idLen_def Verify_def)

text \<open>
  C17: chunk integrity. Whatever system calls fail and whatever part of unsynced data a crash right
  after the operation keeps, writing and deleting leave a store in which every visible chunk is
  complete and hashes to its ID; a failed write changes no chunk, a deletion no other chunk; and
  \<^verbatim>\<open>ReadChunk\<close> never returns bytes that do not hash to the requested ID.
\<close>

theorem chunk_store_integrity:
  assumes "store_ok (cs_root s) d" and "Valid chunkID"
  shows "(case chunk_WriteChunk ft rnd data s d of (s', d', r) \<Rightarrow>
       store_ok (cs_root s') (disk_crash keep d') \<and>
       (case r of Inl err \<Rightarrow> stored (cs_root s') (disk_crash keep d') = stored (cs_root s) d | Inr chunkID' \<Rightarrow> chunkID' = Hash data)) \<and>
     (case chunk_DeleteChunk ft chunkID s d of (d', err) \<Rightarrow>
       store_ok (cs_root s) (disk_crash keep d') \<and> stored (cs_root s) (disk_crash keep d') =
         (if err = None then (stored (cs_root s) d)(chunkID := None) else stored (cs_root s) d)) \<and>
     (case chunk_ReadChunk ft chunkID s d of Inl err \<Rightarrow> True | Inr bytes \<Rightarrow> Hash bytes = chunkID)"
proof (intro conjI)
  obtain s' d' r where w: "chunk_WriteChunk ft rnd data s d = (s', d', r)" by (metis prod_cases3)
  from chunk_WriteChunk_result [OF assms(1) w] disk_crash_store_ok [of "cs_root s'" d' keep]
  show "case chunk_WriteChunk ft rnd data s d of (s', d', r) \<Rightarrow>
       store_ok (cs_root s') (disk_crash keep d') \<and>
       (case r of Inl err \<Rightarrow> stored (cs_root s') (disk_crash keep d') = stored (cs_root s) d | Inr chunkID' \<Rightarrow> chunkID' = Hash data)"
    by (auto simp: w split: sum.splits)
  obtain d2 err where del: "chunk_DeleteChunk ft chunkID s d = (d2, err)" by fastforce
  from chunk_DeleteChunk_result [OF assms del] disk_crash_store_ok [of "cs_root s" d2 keep]
  show "case chunk_DeleteChunk ft chunkID s d of (d', err) \<Rightarrow>
       store_ok (cs_root s) (disk_crash keep d') \<and> stored (cs_root s) (disk_crash keep d') =
         (if err = None then (stored (cs_root s) d)(chunkID := None) else stored (cs_root s) d)"
    by (simp add: del)
  show "case chunk_ReadChunk ft chunkID s d of Inl err \<Rightarrow> True | Inr bytes \<Rightarrow> Hash bytes = chunkID"
    by (simp add: chunk_ReadChunk_def Verify_def Let_def split: option.splits)
qed

definition sample_store :: chunk_Store where
  "sample_store = \<lparr>cs_root = [''data''], cs_writing = []\<rparr>"

lemma sample_store_ok: "store_ok (cs_root sample_store) []"
  by (simp add: sample_store_def store_ok_def root_ok_def plain_component_def)

theorem chunk_store_integrity_witness:
  "case chunk_WriteChunk (no_store_faults\<lparr>sf_sync := True, sf_remove := True\<rparr>) ''1'' [1, 2, 3] sample_store [] of (s', d', r) \<Rightarrow>
     store_ok (cs_root s') (disk_crash (\<lambda>_. 2) d')"
  using chunk_store_integrity [OF sample_store_ok Valid_Hash [of "[]"],
      where ft = "no_store_faults\<lparr>sf_sync := True, sf_remove := True\<rparr>" and rnd = "''1''" and data = "[1, 2, 3]" and keep = "\<lambda>_. 2"]
  by (auto split: prod.splits)


lemma temp_neq_Hash: "temp_path dest chunkID rnd \<noteq> chunk_file root (Hash data)"
  by (metis Valid_Hash last_chunk_file(1) temp_last temp_not_valid)

lemma sample_write:
  "chunk_WriteChunk no_store_faults rnd data sample_store [] =
     (sample_store, [(chunk_file [''data''] (Hash data), \<lparr>wf_synced = data, wf_pending = []\<rparr>)], Inr (Hash data))"
proof -
  have "chunk_path [''data''] (Hash data) = Some (chunk_file [''data''] (Hash data))"
    by (simp add: chunk_path_valid root_ok_def plain_component_def)
  then show ?thesis
    by (simp add: chunk_WriteChunk_def sample_store_def no_store_faults_def write_chunk_file_def on_file_def append_pending_def
        sync_file_def file_bytes_def Let_def temp_neq_Hash [symmetric])
qed


text \<open>
  C37: \<^verbatim>\<open>ListChunks\<close> returns the IDs of exactly the chunks that are stored, each once and in order;
  temporary files of failed writes are never listed. \<^verbatim>\<open>Count\<close> is their number.
\<close>

theorem list_chunks_exact:
  assumes "store_ok (cs_root s) d" and "ListChunks ft s d = Inr ids"
  shows "set ids = {chunkID. stored (cs_root s) d chunkID \<noteq> None} \<and> distinct ids \<and> sorted ids \<and>
    chunk_Count ft s d = Inr (card {chunkID. stored (cs_root s) d chunkID \<noteq> None})"
  using ListChunks_stored [OF assms] assms(2) by (auto simp: chunk_Count_def distinct_card [symmetric])

theorem list_chunks_exact_witness:
  "\<exists>s d. chunk_WriteChunk no_store_faults ''1'' [1] sample_store [] = (s, d, Inr (Hash [1])) \<and>
     chunk_Count no_store_faults s d = Inr 1"
proof -
  let ?d = "[(chunk_file [''data''] (Hash [1]), \<lparr>wf_synced = [1], wf_pending = []\<rparr>)]"
  have ok: "store_ok (cs_root sample_store) ?d"
    using chunk_WriteChunk_result [OF sample_store_ok sample_write [of "''1''" "[1]"]] by simp
  have "{chunkID. stored (cs_root sample_store) ?d chunkID \<noteq> None} = {Hash [1]}"
    by (auto simp: stored_def sample_store_def)
  then show ?thesis
    using list_chunks_exact [OF ok, of no_store_faults] sample_write [of "''1''" "[1]"]
    by (simp add: ListChunks_def no_store_faults_def)
qed

section \<open>Limits\<close>

text \<open>A second writer of the same bytes is told success while nothing is stored yet.\<close>

lemma inflight_write_reports_unstored:
  assumes "gm_lookup (cs_writing s) (Hash data) \<noteq> None" and "root_ok (cs_root s)"
  shows "chunk_WriteChunk no_store_faults rnd data s [] = (s, [], Inr (Hash data))"
  using assms by (simp add: chunk_WriteChunk_def no_store_faults_def chunk_path_valid Let_def)

text \<open>
  IDs from requests are not checked with \<^verbatim>\<open>Valid\<close>: an ID with parent components addresses files
  outside the store, and an ID of one character panics.
\<close>

lemma delete_chunk_outside_store:
  "chunk_DeleteChunk no_store_faults ''../../etc/passwd'' \<lparr>cs_root = [''data''], cs_writing = []\<rparr>
     [([''etc'', ''passwd''], f)] = ([], None)"
  by (simp add: chunk_DeleteChunk_def no_store_faults_def chunk_path_def fanoutLen_def path_Join_def)

lemma short_chunk_id_panics: "chunk_ReadChunk no_store_faults ''a'' s d = Inl Panicked"
  by (simp add: chunk_ReadChunk_def no_store_faults_def chunk_path_def fanoutLen_def)

end
