(* ===== verification/Chunk_GC.thy ===== *)
theory Chunk_GC
  imports Chunk_Store
begin

text \<open>
  Garbage collection (\<^verbatim>\<open>internal/chunk/gc.go\<close>), heartbeats (\<^verbatim>\<open>heartbeat.go\<close>) and pipeline replication
  (\<^verbatim>\<open>replication.go\<close>) of a chunk server. The interfaces \<^verbatim>\<open>ReferenceChecker\<close>, \<^verbatim>\<open>HeartbeatReporter\<close> and
  \<^verbatim>\<open>ChunkSender\<close> are arguments: the answers of the checker, and functions on a state of the rest of
  the world.
\<close>

section \<open>gc.go\<close>

record GC =
  gc_grace :: duration
  gc_orphanedAt :: "(ChunkID, gtime) gomap"

definition NewGC :: "duration \<Rightarrow> GC" where
  "NewGC grace = \<lparr>gc_grace = grace, gc_orphanedAt = []\<rparr>"

text \<open>
  One pass over the listed chunks. The context is found cancelled before the chunk number \<open>cancel\<close>;
  \<open>del\<close> gives the failures of the deletion of a chunk. The mutex is held around the accesses to
  \<^verbatim>\<open>orphanedAt\<close> only, and nothing else accesses that map.
\<close>

fun gc_loop :: "(ChunkID \<Rightarrow> bool) \<Rightarrow> (ChunkID \<Rightarrow> store_faults) \<Rightarrow> gtime \<Rightarrow> duration \<Rightarrow> chunk_Store \<Rightarrow> nat option \<Rightarrow>
    ChunkID list \<Rightarrow> (ChunkID, unit) gomap \<Rightarrow> (ChunkID, gtime) gomap \<Rightarrow> chunk_disk \<Rightarrow>
    (ChunkID, unit) gomap \<times> (ChunkID, gtime) gomap \<times> chunk_disk \<times> bool" where
  "gc_loop refs del now grace s cancel [] live orphanedAt d = (live, orphanedAt, d, False)"
| "gc_loop refs del now grace s cancel (chunkID # ids) live orphanedAt d =
     (if cancel = Some 0 then (live, orphanedAt, d, True)
      else let cancel' = map_option (\<lambda>n. n - 1) cancel;
               live' = gm_set chunkID () live
        in if refs chunkID
           then gc_loop refs del now grace s cancel' ids live' (gm_delete chunkID orphanedAt) d
           else let first = (case gm_lookup orphanedAt chunkID of None \<Rightarrow> now | Some t \<Rightarrow> t);
                    orphanedAt' = (case gm_lookup orphanedAt chunkID of
                      None \<Rightarrow> gm_set chunkID now orphanedAt | Some _ \<Rightarrow> orphanedAt)
             in if \<not> now - first \<ge> grace
                then gc_loop refs del now grace s cancel' ids live' orphanedAt' d
                else case chunk_DeleteChunk (del chunkID) chunkID s d of
                  (d', Some _) \<Rightarrow> gc_loop refs del now grace s cancel' ids live' orphanedAt' d'
                | (d', None) \<Rightarrow> gc_loop refs del now grace s cancel' ids live' (gm_delete chunkID orphanedAt') d')"

datatype gc_error = GcList chunk_error | GcCancelled

definition gc_Sweep :: "store_faults \<Rightarrow> nat option \<Rightarrow> (ChunkID \<Rightarrow> bool) \<Rightarrow> (ChunkID \<Rightarrow> store_faults) \<Rightarrow> gtime \<Rightarrow> GC \<Rightarrow>
    chunk_Store \<Rightarrow> chunk_disk \<Rightarrow> GC \<times> chunk_disk \<times> gc_error option" where
  "gc_Sweep ft cancel refs del now g s d =
     (case ListChunks ft s d of
        Inl err \<Rightarrow> (g, d, Some (GcList err))
      | Inr ids \<Rightarrow>
          (case gc_loop refs del now (gc_grace g) s cancel ids [] (gc_orphanedAt g) d of
             (live, orphanedAt, d', cancelled) \<Rightarrow>
               if cancelled then (g\<lparr>gc_orphanedAt := orphanedAt\<rparr>, d', Some GcCancelled)
               else (g\<lparr>gc_orphanedAt := gm_sweep (\<lambda>chunkID _. gm_lookup live chunkID = None) orphanedAt\<rparr>, d', None)))"

section \<open>heartbeat.go\<close>

definition DefaultHeartbeatInterval :: duration where
  "DefaultHeartbeatInterval = 5 * 10 ^ 9"

record HeartbeatSender =
  hb_nodeID :: string
  hb_interval :: duration

definition NewHeartbeatSender :: "string \<Rightarrow> duration \<Rightarrow> HeartbeatSender" where
  "NewHeartbeatSender nodeID interval =
     \<lparr>hb_nodeID = nodeID, hb_interval = (if interval \<le> 0 then DefaultHeartbeatInterval else interval)\<rparr>"

definition hb_beat :: "(string \<Rightarrow> ChunkID list \<Rightarrow> 'w \<Rightarrow> 'w \<times> 'e option) \<Rightarrow> store_faults \<Rightarrow> HeartbeatSender \<Rightarrow>
    chunk_Store \<Rightarrow> chunk_disk \<Rightarrow> 'w \<Rightarrow> 'w \<times> (chunk_error + 'e) option" where
  "hb_beat report ft h s d w =
     (case ListChunks ft s d of
        Inl err \<Rightarrow> (w, Some (Inl err))
      | Inr chunks \<Rightarrow> (case report (hb_nodeID h) chunks w of (w', err) \<Rightarrow> (w', map_option Inr err)))"

text \<open>
  \<^verbatim>\<open>Run\<close> beats at once and then at every tick until the context is cancelled; a failed beat is only
  logged. The list gives the listing failures and the disk at each tick.
\<close>

fun hb_Run :: "(string \<Rightarrow> ChunkID list \<Rightarrow> 'w \<Rightarrow> 'w \<times> 'e option) \<Rightarrow> HeartbeatSender \<Rightarrow> chunk_Store \<Rightarrow>
    (store_faults \<times> chunk_disk) list \<Rightarrow> 'w \<Rightarrow> 'w" where
  "hb_Run report h s [] w = w"
| "hb_Run report h s ((ft, d) # ticks) w = hb_Run report h s ticks (fst (hb_beat report ft h s d w))"

section \<open>replication.go\<close>

datatype 'e replicate_error = LocalWriteFailed chunk_error | ForwardFailed ChunkID string 'e

text \<open>\<^verbatim>\<open>SendChunk\<close> acts on the state of the other servers \<open>'w\<close>.\<close>

definition Replicate :: "(string \<Rightarrow> ChunkID \<Rightarrow> bytes \<Rightarrow> string list \<Rightarrow> 'w \<Rightarrow> 'w \<times> 'e option) \<Rightarrow> store_faults \<Rightarrow> string \<Rightarrow>
    bytes \<Rightarrow> string list \<Rightarrow> chunk_Store \<Rightarrow> chunk_disk \<Rightarrow> 'w \<Rightarrow>
    chunk_Store \<times> chunk_disk \<times> 'w \<times> ('e replicate_error + ChunkID)" where
  "Replicate send ft rnd data chain s d w =
     (case chunk_WriteChunk ft rnd data s d of
        (s', d', Inl err) \<Rightarrow> (s', d', w, Inl (LocalWriteFailed err))
      | (s', d', Inr chunkID) \<Rightarrow>
          (case chain of
             [] \<Rightarrow> (s', d', w, Inr chunkID)
           | next_ # downstream \<Rightarrow>
               (case send next_ chunkID data downstream w of
                  (w', Some err) \<Rightarrow> (s', d', w', Inl (ForwardFailed chunkID next_ err))
                | (w', None) \<Rightarrow> (s', d', w', Inr chunkID))))"

section \<open>One sweep, chunk by chunk\<close>

text \<open>When a chunk is deleted, and since when it is known to be orphaned, for a sweep that is not cancelled.\<close>

definition first_orphaned :: "gtime \<Rightarrow> (ChunkID, gtime) gomap \<Rightarrow> ChunkID \<Rightarrow> gtime" where
  "first_orphaned now orphanedAt chunkID = (case gm_lookup orphanedAt chunkID of None \<Rightarrow> now | Some t \<Rightarrow> t)"

definition gc_deletes :: "(ChunkID \<Rightarrow> bool) \<Rightarrow> (ChunkID \<Rightarrow> store_faults) \<Rightarrow> gtime \<Rightarrow> duration \<Rightarrow> (ChunkID, gtime) gomap \<Rightarrow> ChunkID \<Rightarrow> bool" where
  "gc_deletes refs del now grace orphanedAt chunkID \<longleftrightarrow> \<not> refs chunkID \<and>
     now - first_orphaned now orphanedAt chunkID \<ge> grace \<and> \<not> sf_cancelled (del chunkID) \<and> \<not> sf_remove (del chunkID)"

lemma DeleteChunk_ok_iff:
  assumes "store_ok (cs_root s) d" and "stored (cs_root s) d chunkID \<noteq> None"
  shows "snd (chunk_DeleteChunk ft chunkID s d) = None \<longleftrightarrow> \<not> sf_cancelled ft \<and> \<not> sf_remove ft"
proof -
  have "Valid chunkID" and "gm_lookup d (chunk_file (cs_root s) chunkID) \<noteq> None"
    using assms(2) by (auto simp: stored_def split: if_splits)
  then show ?thesis
    using assms(1) by (auto simp: chunk_DeleteChunk_def chunk_path_valid store_ok_def)
qed

lemma gc_loop_effect:
  assumes "store_ok (cs_root s) d" and "distinct ids" and "\<forall>chunkID \<in> set ids. stored (cs_root s) d chunkID \<noteq> None"
  shows "\<exists>live' orphanedAt' d'. gc_loop refs del now grace s None ids live orphanedAt d = (live', orphanedAt', d', False) \<and>
    store_ok (cs_root s) d' \<and>
    (\<forall>chunkID. gm_lookup live' chunkID = (if chunkID \<in> set ids then Some () else gm_lookup live chunkID)) \<and>
    (\<forall>chunkID. gm_lookup orphanedAt' chunkID = (if chunkID \<notin> set ids then gm_lookup orphanedAt chunkID
       else if refs chunkID \<or> gc_deletes refs del now grace orphanedAt chunkID then None
       else Some (first_orphaned now orphanedAt chunkID))) \<and>
    (\<forall>chunkID. stored (cs_root s) d' chunkID = (if chunkID \<in> set ids \<and> gc_deletes refs del now grace orphanedAt chunkID
       then None else stored (cs_root s) d chunkID)) \<and>
    (gm_wf orphanedAt \<longrightarrow> gm_wf orphanedAt')"
  using assms
proof (induction ids arbitrary: live orphanedAt d)
  case (Cons c ids)
  let ?root = "cs_root s" and ?live = "gm_set c () live"
  let ?first = "first_orphaned now orphanedAt c"
  let ?orph = "case gm_lookup orphanedAt c of None \<Rightarrow> gm_set c now orphanedAt | Some _ \<Rightarrow> orphanedAt"
  have orph: "gm_lookup ?orph = (gm_lookup orphanedAt)(c \<mapsto> ?first)" "gm_wf orphanedAt \<longrightarrow> gm_wf ?orph"
    by (auto simp: first_orphaned_def gomap_simps fun_eq_iff gm.invar_update split: option.split)
  obtain d1 e1 where del: "chunk_DeleteChunk (del c) c s d = (d1, e1)" by fastforce
  have c: "stored ?root d c \<noteq> None" "c \<notin> set ids" using Cons.prems by auto
  then have "Valid c" by (auto simp: stored_def split: if_splits)
  note d1 = chunk_DeleteChunk_result [OF Cons.prems(1) this del]
  have e1: "e1 = None \<longleftrightarrow> \<not> sf_cancelled (del c) \<and> \<not> sf_remove (del c)"
    using DeleteChunk_ok_iff [OF Cons.prems(1) c(1), of "del c"] del by simp
  define m where "m = (if refs c then gm_delete c orphanedAt else if now - ?first \<ge> grace \<and> e1 = None then gm_delete c ?orph else ?orph)"
  define d2 where "d2 = (if \<not> refs c \<and> now - ?first \<ge> grace then d1 else d)"
  have step: "gc_loop refs del now grace s None (c # ids) live orphanedAt d = gc_loop refs del now grace s None ids ?live m d2"
    by (auto simp: m_def d2_def Let_def del first_orphaned_def split: option.split)
  have m: "gm_lookup m = (gm_lookup orphanedAt)(c := if refs c \<or> gc_deletes refs del now grace orphanedAt c then None else Some ?first)"
    "gm_wf orphanedAt \<longrightarrow> gm_wf m"
    using orph e1 by (auto simp: m_def gc_deletes_def gomap_simps gm.invar_delete fun_eq_iff)
  have d2: "store_ok ?root d2" "stored ?root d2 =
      (if gc_deletes refs del now grace orphanedAt c then (stored ?root d)(c := None) else stored ?root d)"
    using d1 Cons.prems(1) e1 by (auto simp: d2_def gc_deletes_def)
  have "\<forall>x \<in> set ids. stored ?root d2 x \<noteq> None" using Cons.prems(3) c(2) by (auto simp: d2(2))
  from Cons.IH [OF d2(1) _ this, of ?live m] Cons.prems(2) obtain live' orphanedAt' d' where
    r: "gc_loop refs del now grace s None ids ?live m d2 = (live', orphanedAt', d', False)" "store_ok ?root d'"
      "\<And>x. gm_lookup live' x = (if x \<in> set ids then Some () else gm_lookup ?live x)"
      "\<And>x. gm_lookup orphanedAt' x = (if x \<notin> set ids then gm_lookup m x
         else if refs x \<or> gc_deletes refs del now grace m x then None else Some (first_orphaned now m x))"
      "\<And>x. stored ?root d' x = (if x \<in> set ids \<and> gc_deletes refs del now grace m x then None else stored ?root d2 x)"
      "gm_wf m \<longrightarrow> gm_wf orphanedAt'" by auto
  have same: "first_orphaned now m x = first_orphaned now orphanedAt x"
    "gc_deletes refs del now grace m x \<longleftrightarrow> gc_deletes refs del now grace orphanedAt x" if "x \<noteq> c" for x
    using that by (simp_all add: first_orphaned_def gc_deletes_def m)
  show ?case
  proof (intro exI conjI allI)
    show "gc_loop refs del now grace s None (c # ids) live orphanedAt d = (live', orphanedAt', d', False)" using step r(1) by simp
    fix x
    show "gm_lookup live' x = (if x \<in> set (c # ids) then Some () else gm_lookup live x)"
      using r(3) [of x] by (auto simp: gomap_simps)
    show "gm_lookup orphanedAt' x = (if x \<notin> set (c # ids) then gm_lookup orphanedAt x
         else if refs x \<or> gc_deletes refs del now grace orphanedAt x then None else Some (first_orphaned now orphanedAt x))"
      by (cases "x = c") (use r(4) [of x] m(1) same [of x] c(2) in simp_all)
    show "stored ?root d' x = (if x \<in> set (c # ids) \<and> gc_deletes refs del now grace orphanedAt x then None else stored ?root d x)"
      by (cases "x = c") (use r(5) [of x] d2(2) same [of x] c(2) in simp_all)
  qed (use r(2,6) m(2) in simp_all)
qed auto

lemma gc_Sweep_effect:
  assumes ok: "store_ok (cs_root s) d" and wf: "gm_wf (gc_orphanedAt g)" and walk: "\<not> sf_walk ft"
  shows "\<exists>g' d'. gc_Sweep ft None refs del now g s d = (g', d', None) \<and> store_ok (cs_root s) d' \<and>
    gm_wf (gc_orphanedAt g') \<and> gc_grace g' = gc_grace g \<and>
    (\<forall>c. gm_lookup (gc_orphanedAt g') c =
       (if stored (cs_root s) d c = None \<or> refs c \<or> gc_deletes refs del now (gc_grace g) (gc_orphanedAt g) c then None
        else Some (first_orphaned now (gc_orphanedAt g) c))) \<and>
    (\<forall>c. stored (cs_root s) d' c = (if gc_deletes refs del now (gc_grace g) (gc_orphanedAt g) c then None else stored (cs_root s) d c))"
proof -
  obtain ids where ids: "ListChunks ft s d = Inr ids" using walk by (simp add: ListChunks_def)
  note l = ListChunks_stored [OF ok ids]
  then obtain live m d' where r: "gc_loop refs del now (gc_grace g) s None ids [] (gc_orphanedAt g) d = (live, m, d', False)"
      "store_ok (cs_root s) d'"
      "\<And>c. gm_lookup live c = (if c \<in> set ids then Some () else None)"
      "\<And>c. gm_lookup m c = (if c \<notin> set ids then gm_lookup (gc_orphanedAt g) c
         else if refs c \<or> gc_deletes refs del now (gc_grace g) (gc_orphanedAt g) c then None
         else Some (first_orphaned now (gc_orphanedAt g) c))"
      "\<And>c. stored (cs_root s) d' c = (if c \<in> set ids \<and> gc_deletes refs del now (gc_grace g) (gc_orphanedAt g) c
         then None else stored (cs_root s) d c)" "gm_wf m"
    using gc_loop_effect [OF ok, of ids refs del now "gc_grace g" "[]" "gc_orphanedAt g"] wf by auto
  let ?m = "gm_sweep (\<lambda>chunkID _. gm_lookup live chunkID = None) m"
  have sweep: "gc_Sweep ft None refs del now g s d = (g\<lparr>gc_orphanedAt := ?m\<rparr>, d', None)"
    by (simp add: gc_Sweep_def ids r(1))
  have listed: "c \<in> set ids \<longleftrightarrow> stored (cs_root s) d c \<noteq> None" for c using l by auto
  have "gm_lookup ?m c = (if stored (cs_root s) d c = None \<or> refs c \<or> gc_deletes refs del now (gc_grace g) (gc_orphanedAt g) c then None
        else Some (first_orphaned now (gc_orphanedAt g) c))" for c
    using r(3) [of c] r(4) [of c] listed [of c] by (simp add: gm_sweep_lookup [OF r(6)] split: option.split)
  moreover have "stored (cs_root s) d' c = (if gc_deletes refs del now (gc_grace g) (gc_orphanedAt g) c then None else stored (cs_root s) d c)" for c
    using r(5) [of c] listed [of c] by simp
  ultimately show ?thesis
    using sweep r(2) gm_sweep_wf [OF r(6)] by simp
qed

section \<open>Sweeps over time\<close>

text \<open>
  A completed sweep: its time, the answers of the reference checker, the failures of deletions, and
  the disk it found, which writes and deletions since the last sweep may have changed in any way.
\<close>

record sweep =
  sw_now :: gtime
  sw_refs :: "ChunkID \<Rightarrow> bool"
  sw_del :: "ChunkID \<Rightarrow> store_faults"
  sw_disk :: chunk_disk

abbreviation run_sweep :: "chunk_Store \<Rightarrow> GC \<Rightarrow> sweep \<Rightarrow> GC \<times> chunk_disk \<times> gc_error option" where
  "run_sweep s g sw \<equiv> gc_Sweep no_store_faults None (sw_refs sw) (sw_del sw) (sw_now sw) g s (sw_disk sw)"

definition gc_after :: "chunk_Store \<Rightarrow> GC \<Rightarrow> sweep list \<Rightarrow> GC" where
  "gc_after s g sws = foldl (\<lambda>g sw. fst (run_sweep s g sw)) g sws"

definition orphan_since :: "string list \<Rightarrow> sweep list \<Rightarrow> ChunkID \<Rightarrow> nat \<Rightarrow> bool" where
  "orphan_since root sws c i \<longleftrightarrow> i < length sws \<and>
     (\<forall>sw \<in> set (drop i sws). \<not> sw_refs sw c \<and> stored root (sw_disk sw) c \<noteq> None)"

lemma no_store_faults_walk [simp]: "\<not> sf_walk no_store_faults"
  by (simp add: no_store_faults_def)

lemma gc_after_invariant:
  assumes "\<forall>sw \<in> set sws. store_ok (cs_root s) (sw_disk sw)"
  shows "gm_wf (gc_orphanedAt (gc_after s (NewGC grace) sws)) \<and> gc_grace (gc_after s (NewGC grace) sws) = grace \<and>
    (\<forall>c t. gm_lookup (gc_orphanedAt (gc_after s (NewGC grace) sws)) c = Some t \<longrightarrow>
       (\<exists>i. orphan_since (cs_root s) sws c i \<and> sw_now (sws ! i) = t))"
  using assms
proof (induction sws rule: rev_induct)
  case (snoc sw sws)
  let ?g = "gc_after s (NewGC grace) sws" and ?root = "cs_root s"
  have IH: "gm_wf (gc_orphanedAt ?g)" "gc_grace ?g = grace"
    "\<And>c t. gm_lookup (gc_orphanedAt ?g) c = Some t \<Longrightarrow> \<exists>i. orphan_since ?root sws c i \<and> sw_now (sws ! i) = t"
    using snoc by auto
  have ok: "store_ok ?root (sw_disk sw)" using snoc.prems by simp
  have after: "gc_after s (NewGC grace) (sws @ [sw]) = fst (run_sweep s ?g sw)" by (simp add: gc_after_def)
  from gc_Sweep_effect [OF ok IH(1) no_store_faults_walk, of "sw_refs sw" "sw_del sw" "sw_now sw"] obtain g' d' where
    g': "run_sweep s ?g sw = (g', d', None)" "gm_wf (gc_orphanedAt g')" "gc_grace g' = gc_grace ?g"
      "\<And>c. gm_lookup (gc_orphanedAt g') c =
       (if stored ?root (sw_disk sw) c = None \<or> sw_refs sw c \<or>
           gc_deletes (sw_refs sw) (sw_del sw) (sw_now sw) (gc_grace ?g) (gc_orphanedAt ?g) c then None
        else Some (first_orphaned (sw_now sw) (gc_orphanedAt ?g) c))" by blast
  have "\<exists>i. orphan_since ?root (sws @ [sw]) c i \<and> sw_now ((sws @ [sw]) ! i) = t"
    if "gm_lookup (gc_orphanedAt g') c = Some t" for c t
  proof -
    have here: "stored ?root (sw_disk sw) c \<noteq> None" "\<not> sw_refs sw c" "t = first_orphaned (sw_now sw) (gc_orphanedAt ?g) c"
      using that g'(4) [of c] by (auto split: if_splits)
    show ?thesis
    proof (cases "gm_lookup (gc_orphanedAt ?g) c")
      case None
      then show ?thesis
        using here by (intro exI [of _ "length sws"]) (simp add: orphan_since_def first_orphaned_def)
    next
      case (Some t')
      from IH(3) [OF this] obtain i where i: "orphan_since ?root sws c i" "sw_now (sws ! i) = t'" by blast
      with here Some show ?thesis
        by (intro exI [of _ i]) (auto simp: orphan_since_def first_orphaned_def nth_append)
    qed
  qed
  then show ?case using after g'(1-3) IH(2) by simp
qed (simp add: gc_after_def NewGC_def)

text \<open>
  C36: the grace period. A chunk that a sweep removes was referenced at none of an unbroken run of
  sweeps that reaches back at least the grace period: from the sweep that first saw it orphaned up
  to the one that removes it, every sweep found it stored and unreferenced, and the first of them was
  at least the grace period ago. So a chunk that was written or referenced within the grace period
  survives.
\<close>

theorem gc_grace_period:
  assumes "\<forall>sw' \<in> set (sws @ [sw]). store_ok (cs_root s) (sw_disk sw')"
    and "run_sweep s (gc_after s (NewGC grace) sws) sw = (g', d', err)"
    and "stored (cs_root s) (sw_disk sw) c \<noteq> None" and "stored (cs_root s) d' c = None"
  shows "\<exists>i. orphan_since (cs_root s) (sws @ [sw]) c i \<and> sw_now sw - sw_now ((sws @ [sw]) ! i) \<ge> grace"
proof -
  let ?g = "gc_after s (NewGC grace) sws" and ?root = "cs_root s"
  have ok: "store_ok ?root (sw_disk sw)" "\<forall>sw' \<in> set sws. store_ok ?root (sw_disk sw')" using assms(1) by auto
  note inv = gc_after_invariant [OF ok(2), of grace]
  have "gc_deletes (sw_refs sw) (sw_del sw) (sw_now sw) grace (gc_orphanedAt ?g) c"
    using gc_Sweep_effect [OF ok(1) conjunct1 [OF inv] no_store_faults_walk, of "sw_refs sw" "sw_del sw" "sw_now sw"] assms(2-4) inv
    by (auto split: if_splits)
  then have del: "\<not> sw_refs sw c" "sw_now sw - first_orphaned (sw_now sw) (gc_orphanedAt ?g) c \<ge> grace"
    by (auto simp: gc_deletes_def)
  show ?thesis
  proof (cases "gm_lookup (gc_orphanedAt ?g) c")
    case None
    with del assms(3) show ?thesis
      by (intro exI [of _ "length sws"]) (simp add: orphan_since_def first_orphaned_def)
  next
    case (Some t)
    then obtain i where "orphan_since ?root sws c i" "sw_now (sws ! i) = t" using inv by blast
    with del assms(3) Some show ?thesis
      by (intro exI [of _ i]) (auto simp: orphan_since_def first_orphaned_def nth_append)
  qed
qed

definition sample_disk :: chunk_disk where
  "sample_disk = [(chunk_file [''data''] (Hash [1]), \<lparr>wf_synced = [1], wf_pending = []\<rparr>)]"

lemma sample_disk: "store_ok (cs_root sample_store) sample_disk" "stored (cs_root sample_store) sample_disk (Hash [1]) = Some [1]"
proof -
  show "store_ok (cs_root sample_store) sample_disk"
    using chunk_WriteChunk_result [OF sample_store_ok sample_write [of "''1''" "[1]"]] by (simp add: sample_disk_def)
qed (simp add: stored_def sample_disk_def sample_store_def file_bytes_def)

definition sample_sweep :: "gtime \<Rightarrow> sweep" where
  "sample_sweep t = \<lparr>sw_now = t, sw_refs = \<lambda>_. False, sw_del = \<lambda>_. no_store_faults, sw_disk = sample_disk\<rparr>"

theorem gc_grace_period_witness:
  "\<exists>g' d'. run_sweep sample_store (gc_after sample_store (NewGC 10) [sample_sweep 5]) (sample_sweep 15) = (g', d', None) \<and>
     stored (cs_root sample_store) d' (Hash [1]) = None \<and>
     (\<exists>i. orphan_since (cs_root sample_store) [sample_sweep 5, sample_sweep 15] (Hash [1]) i)"
proof -
  let ?s = sample_store and ?c = "Hash [1]" and ?root = "cs_root sample_store"
  let ?g = "gc_after ?s (NewGC 10) [sample_sweep 5]"
  have first: "gm_lookup (gc_orphanedAt ?g) ?c = Some 5" "gm_wf (gc_orphanedAt ?g)" "gc_grace ?g = 10"
    using gc_Sweep_effect [OF sample_disk(1), of "NewGC 10" no_store_faults "\<lambda>_. False" "\<lambda>_. no_store_faults" 5] sample_disk(2)
    by (auto simp: gc_after_def sample_sweep_def NewGC_def gc_deletes_def first_orphaned_def)
  then have "gc_deletes (\<lambda>_. False) (\<lambda>_. no_store_faults) 15 10 (gc_orphanedAt ?g) ?c"
    by (simp add: gc_deletes_def first_orphaned_def no_store_faults_def)
  with gc_Sweep_effect [OF sample_disk(1) first(2) no_store_faults_walk, of "\<lambda>_. False" "\<lambda>_. no_store_faults" 15] first(3)
  obtain g' d' where r: "run_sweep ?s ?g (sample_sweep 15) = (g', d', None)" "stored ?root d' ?c = None"
    by (auto simp: sample_sweep_def)
  then show ?thesis
    using gc_grace_period [of "[sample_sweep 5]" "sample_sweep 15" ?s 10 g' d' None ?c] sample_disk
    by (auto simp: sample_sweep_def)
qed

end
