(* ===== verification/Rpc_Base.thy ===== *)
theory Rpc_Base
  imports VaultFS_Prelude
begin

text \<open>
  What the servers and the client share: the gRPC status codes of their errors, the messages of the protocol
  (\<^verbatim>\<open>proto/vaultfs/v1\<close>), and the recording of
  metrics (\<^verbatim>\<open>internal/metrics/metrics.go\<close>), as the sequence of updates of the Prometheus collectors.
\<close>

text \<open>
  The code of an error, as \<^verbatim>\<open>status.Code\<close> reports it; errors that carry no status, among them those of
  a cancelled context, are \<open>Unknown\<close>. \<open>Panic\<close> is no code: the handler panicked and the process died.
\<close>

datatype error_code = Unknown | InvalidArgument | NotFound | FailedPrecondition | Aborted | DeadlineExceeded | Canceled
  | Unavailable | Unimplemented | Internal | DataLoss | Panic

section \<open>Messages\<close>

text \<open>The messages of \<^verbatim>\<open>proto/vaultfs/v1\<close> that carry more than one field.\<close>

record NodeInfo =
  ni_NodeId :: string
  ni_Address :: string

record ProtoFileInfo =
  pf_Path :: string
  pf_IsDir :: bool
  pf_Size :: int
  pf_ChunkIds :: "string list"
  pf_Mode :: u32
  pf_CreatedAtUnix :: int
  pf_UpdatedAtUnix :: int

record ChunkLocation =
  lc_ChunkId :: string
  lc_Nodes :: "NodeInfo list"

record OpenForReadResponse =
  or_File :: ProtoFileInfo
  or_Locations :: "ChunkLocation list"

record ProtoLease =
  pl_ChunkId :: string
  pl_Holder :: string
  pl_ExpiryUnix :: int

datatype ProtoNodeState = NODE_STATE_UNSPECIFIED | NODE_STATE_ALIVE | NODE_STATE_DEAD

record NodeStatus =
  st_Node :: NodeInfo
  st_State :: ProtoNodeState
  st_ChunkCount :: int
  st_LastHeartbeatUnix :: int

record ClusterStatusResponse =
  sr_LeaderId :: string
  sr_Term :: u64
  sr_FileCount :: int
  sr_ChunkCount :: int
  sr_Nodes :: "NodeStatus list"

record WriteChunkRequest =
  wr_ChunkId :: string
  wr_Data :: bytes
  wr_Downstream :: "string list"

text \<open>\<^verbatim>\<open>Time.Unix\<close>: times count nanoseconds from the Unix epoch.\<close>

definition time_Unix :: "gtime \<Rightarrow> int" where
  "time_Unix t = t div 10 ^ 9"

text \<open>Wrap-around of \<^verbatim>\<open>int64\<close>.\<close>

definition int64 :: "int \<Rightarrow> int" where
  "int64 x = signed_take_bit 63 x"

lemma int64_id: "- (2 ^ 63) \<le> x \<Longrightarrow> x < 2 ^ 63 \<Longrightarrow> int64 x = x"
  by (simp add: int64_def signed_take_bit_int_eq_self)

section \<open>metrics.go\<close>

datatype metric_update =
    OpsInc string string
  | WalWriteObserve duration
  | ElectionsInc
  | ReplicationLagSet string duration
  | HeartbeatMissInc string
  | ActiveLeasesSet nat

text \<open>A nil \<^verbatim>\<open>*Metrics\<close> is \<open>None\<close>; its methods do nothing.\<close>

type_synonym Metrics = "metric_update list option"

definition StatusOK :: string where
  "StatusOK = ''ok''"

definition StatusError :: string where
  "StatusError = ''error''"

definition RecordOp :: "string \<Rightarrow> string \<Rightarrow> Metrics \<Rightarrow> Metrics" where
  "RecordOp opType status m = (case m of None \<Rightarrow> None | Some us \<Rightarrow> Some (us @ [OpsInc opType status]))"

definition RecordWALWrite :: "duration \<Rightarrow> Metrics \<Rightarrow> Metrics" where
  "RecordWALWrite dur m = (case m of None \<Rightarrow> None | Some us \<Rightarrow> Some (us @ [WalWriteObserve dur]))"

definition RecordElection :: "Metrics \<Rightarrow> Metrics" where
  "RecordElection m = (case m of None \<Rightarrow> None | Some us \<Rightarrow> Some (us @ [ElectionsInc]))"

definition SetReplicationLag :: "string \<Rightarrow> duration \<Rightarrow> Metrics \<Rightarrow> Metrics" where
  "SetReplicationLag nodeID dur m = (case m of None \<Rightarrow> None | Some us \<Rightarrow> Some (us @ [ReplicationLagSet nodeID dur]))"

definition RecordMissedHeartbeat :: "string \<Rightarrow> Metrics \<Rightarrow> Metrics" where
  "RecordMissedHeartbeat nodeID m = (case m of None \<Rightarrow> None | Some us \<Rightarrow> Some (us @ [HeartbeatMissInc nodeID]))"

definition SetActiveLeases :: "nat \<Rightarrow> Metrics \<Rightarrow> Metrics" where
  "SetActiveLeases n m = (case m of None \<Rightarrow> None | Some us \<Rightarrow> Some (us @ [ActiveLeasesSet n]))"

end
