(* ===== verification/Chunk_Server.thy ===== *)
theory Chunk_Server
  imports Chunk_GC Rpc_Base
begin

text \<open>
  The gRPC server of a chunk server (\<^verbatim>\<open>internal/chunkserver/server.go\<close>) and a cluster of them. Each
  server has its own store and disk; the cluster maps addresses to servers. gRPC is a parameter: the
  record \<open>rpc_env\<close> says which dials succeed, which requests and replies arrive, and also which
  system calls fail at each server. The chain of a replicated write is the recursion over the
  downstream list that the requests carry.
\<close>

section \<open>Servers\<close>

record chunk_node =
  cn_nodeID :: string
  cn_store :: chunk_Store
  cn_disk :: chunk_disk
  cn_dial :: bool
  cn_metrics :: Metrics

definition chunkserver_New :: "string \<Rightarrow> chunk_Store \<Rightarrow> chunk_disk \<Rightarrow> bool \<Rightarrow> Metrics \<Rightarrow> chunk_node" where
  "chunkserver_New nodeID store disk dial metrics =
     \<lparr>cn_nodeID = nodeID, cn_store = store, cn_disk = disk, cn_dial = dial, cn_metrics = metrics\<rparr>"

type_synonym chunk_cluster = "(string, chunk_node) gomap"

record rpc_env =
  env_ft :: "string \<Rightarrow> store_faults"
  env_rnd :: "string \<Rightarrow> string"
  env_dial :: "string \<Rightarrow> string \<Rightarrow> bool"
  env_request :: "string \<Rightarrow> string \<Rightarrow> bool"
  env_reply :: "string \<Rightarrow> string \<Rightarrow> bool"
  env_latency :: "string \<Rightarrow> string \<Rightarrow> duration"

definition update_node :: "string \<Rightarrow> (chunk_node \<Rightarrow> chunk_node) \<Rightarrow> chunk_cluster \<Rightarrow> chunk_cluster" where
  "update_node addr f cl = (case gm_lookup cl addr of None \<Rightarrow> cl | Some n \<Rightarrow> gm_set addr (f n) cl)"

definition record_op :: "string \<Rightarrow> string \<Rightarrow> string \<Rightarrow> chunk_cluster \<Rightarrow> chunk_cluster" where
  "record_op addr opType status = update_node addr (\<lambda>n. n\<lparr>cn_metrics := RecordOp opType status (cn_metrics n)\<rparr>)"

text \<open>
  \<^verbatim>\<open>forward\<close>: \<open>call\<close> is the write at the dialled server.
\<close>

definition srv_forward :: "rpc_env \<Rightarrow> (WriteChunkRequest \<Rightarrow> chunk_cluster \<Rightarrow> chunk_cluster \<times> (error_code + string)) \<Rightarrow>
    string \<Rightarrow> string \<Rightarrow> string list \<Rightarrow> WriteChunkRequest \<Rightarrow> chunk_cluster \<Rightarrow> chunk_cluster \<times> error_code option" where
  "srv_forward env call addr nxt rest req cl =
     (if \<not> env_dial env addr nxt then (cl, Some Unavailable)
      else if \<not> env_request env addr nxt then (cl, Some Unavailable)
      else case call (req\<lparr>wr_Downstream := rest\<rparr>) cl of
        (cl', Inl _) \<Rightarrow> (cl', Some Unavailable)
      | (cl', Inr _) \<Rightarrow>
          if \<not> env_reply env addr nxt then (cl', Some Unavailable)
          else (update_node addr (\<lambda>n. n\<lparr>cn_metrics := SetReplicationLag nxt (env_latency env addr nxt) (cn_metrics n)\<rparr>) cl', None))"

definition srv_WriteChunk :: "rpc_env \<Rightarrow> (WriteChunkRequest \<Rightarrow> chunk_cluster \<Rightarrow> chunk_cluster \<times> (error_code + string)) \<Rightarrow>
    string \<Rightarrow> WriteChunkRequest \<Rightarrow> chunk_node \<Rightarrow> chunk_cluster \<Rightarrow> chunk_cluster \<times> (error_code + string)" where
  "srv_WriteChunk env call addr req n cl =
     (if \<not> Verify (wr_ChunkId req) (wr_Data req)
      then (record_op addr ''chunk_write'' StatusError cl, Inl InvalidArgument)
      else case chunk_WriteChunk (env_ft env addr) (env_rnd env addr) (wr_Data req) (cn_store n) (cn_disk n) of
        (s', d', r) \<Rightarrow>
          let cl1 = gm_set addr (n\<lparr>cn_store := s', cn_disk := d'\<rparr>) cl
          in (case r of
                Inl err \<Rightarrow> (record_op addr ''chunk_write'' StatusError cl1, Inl (if err = Panicked then Panic else Internal))
              | Inr chunkID \<Rightarrow>
                  (case wr_Downstream req of
                     nxt # rest \<Rightarrow>
                       if cn_dial n
                       then (case srv_forward env call addr nxt rest req cl1 of
                               (cl2, Some code) \<Rightarrow> (record_op addr ''chunk_write'' StatusError cl2, Inl code)
                             | (cl2, None) \<Rightarrow> (record_op addr ''chunk_write'' StatusOK cl2, Inr chunkID))
                       else (record_op addr ''chunk_write'' StatusOK cl1, Inr chunkID)
                   | [] \<Rightarrow> (record_op addr ''chunk_write'' StatusOK cl1, Inr chunkID))))"

text \<open>The server at an address handles a write; nobody listens at an address without a server.\<close>

primrec serve_write :: "rpc_env \<Rightarrow> string list \<Rightarrow> string \<Rightarrow> WriteChunkRequest \<Rightarrow> chunk_cluster \<Rightarrow>
    chunk_cluster \<times> (error_code + string)" where
  "serve_write env [] = (\<lambda>addr req cl. case gm_lookup cl addr of
      None \<Rightarrow> (cl, Inl Unavailable)
    | Some n \<Rightarrow> srv_WriteChunk env (\<lambda>_ cl. (cl, Inl Unavailable)) addr req n cl)"
| "serve_write env (nxt # ds) = (\<lambda>addr req cl. case gm_lookup cl addr of
      None \<Rightarrow> (cl, Inl Unavailable)
    | Some n \<Rightarrow> srv_WriteChunk env (serve_write env ds nxt) addr req n cl)"

definition srv_ReadChunk :: "store_faults \<Rightarrow> string \<Rightarrow> chunk_node \<Rightarrow> chunk_node \<times> (error_code + bytes)" where
  "srv_ReadChunk ft chunkID n =
     (let failed = n\<lparr>cn_metrics := RecordOp ''chunk_read'' StatusError (cn_metrics n)\<rparr>
      in case chunk_ReadChunk ft chunkID (cn_store n) (cn_disk n) of
           Inl (ErrChunkNotFound _) \<Rightarrow> (failed, Inl NotFound)
         | Inl Panicked \<Rightarrow> (n, Inl Panic)
         | Inl _ \<Rightarrow> (failed, Inl DataLoss)
         | Inr data \<Rightarrow> (n\<lparr>cn_metrics := RecordOp ''chunk_read'' StatusOK (cn_metrics n)\<rparr>, Inr data))"

definition serve_read :: "rpc_env \<Rightarrow> string \<Rightarrow> string \<Rightarrow> chunk_cluster \<Rightarrow> chunk_cluster \<times> (error_code + bytes)" where
  "serve_read env addr chunkID cl =
     (case gm_lookup cl addr of
        None \<Rightarrow> (cl, Inl Unavailable)
      | Some n \<Rightarrow> (case srv_ReadChunk (env_ft env addr) chunkID n of (n', r) \<Rightarrow> (gm_set addr n' cl, r)))"

definition srv_DeleteChunk :: "store_faults \<Rightarrow> string \<Rightarrow> chunk_node \<Rightarrow> chunk_node \<times> error_code option" where
  "srv_DeleteChunk ft chunkID n =
     (case chunk_DeleteChunk ft chunkID (cn_store n) (cn_disk n) of
        (d', None) \<Rightarrow> (n\<lparr>cn_disk := d'\<rparr>, None)
      | (d', Some err) \<Rightarrow> (n\<lparr>cn_disk := d'\<rparr>, Some (if err = Panicked then Panic else Internal)))"

definition srv_ReplicateChunk :: "rpc_env \<Rightarrow> string \<Rightarrow> string \<Rightarrow> string \<Rightarrow> chunk_cluster \<Rightarrow> chunk_cluster \<times> (error_code + string)" where
  "srv_ReplicateChunk env addr chunkID source cl =
     (case gm_lookup cl addr of
        None \<Rightarrow> (cl, Inl Unavailable)
      | Some n \<Rightarrow>
          if \<not> cn_dial n then (cl, Inl Unimplemented)
          else if \<not> env_dial env addr source \<or> \<not> env_request env addr source then (cl, Inl Unavailable)
          else case serve_read env source chunkID cl of
            (cl1, Inl _) \<Rightarrow> (cl1, Inl Unavailable)
          | (cl1, Inr data) \<Rightarrow>
              if \<not> env_reply env addr source then (cl1, Inl Unavailable)
              else (case gm_lookup cl1 addr of
                None \<Rightarrow> (cl1, Inl Unavailable)
              | Some n1 \<Rightarrow> (case chunk_WriteChunk (env_ft env addr) (env_rnd env addr) data (cn_store n1) (cn_disk n1) of
                  (s', d', r) \<Rightarrow> (gm_set addr (n1\<lparr>cn_store := s', cn_disk := d'\<rparr>) cl1,
                    case r of Inl err \<Rightarrow> Inl (if err = Panicked then Panic else Internal) | Inr stored_id \<Rightarrow> Inr stored_id))))"

section \<open>Chunks of the cluster\<close>

definition node_ok :: "chunk_node \<Rightarrow> bool" where
  "node_ok n \<longleftrightarrow> store_ok (cs_root (cn_store n)) (cn_disk n)"

definition cluster_ok :: "chunk_cluster \<Rightarrow> bool" where
  "cluster_ok cl \<longleftrightarrow> (\<forall>addr n. gm_lookup cl addr = Some n \<longrightarrow> node_ok n)"

definition node_chunks :: "chunk_node \<Rightarrow> ChunkID \<Rightarrow> bytes option" where
  "node_chunks n = stored (cs_root (cn_store n)) (cn_disk n)"

definition cluster_chunks :: "chunk_cluster \<Rightarrow> string \<Rightarrow> ChunkID \<Rightarrow> bytes option" where
  "cluster_chunks cl addr = (case gm_lookup cl addr of None \<Rightarrow> Map.empty | Some n \<Rightarrow> node_chunks n)"

text \<open>A server that is up, can dial others and has no write in flight.\<close>

definition ready :: "chunk_cluster \<Rightarrow> string \<Rightarrow> bool" where
  "ready cl addr \<longleftrightarrow> (\<exists>n. gm_lookup cl addr = Some n \<and> cn_dial n \<and> cs_writing (cn_store n) = [])"

text \<open>What of a server a write must leave as it was: its dialer, and the marks of writes in flight.\<close>

definition idle :: "chunk_cluster \<Rightarrow> string \<Rightarrow> (bool \<times> (ChunkID, unit) gomap) option" where
  "idle cl addr = map_option (\<lambda>n. (cn_dial n, cs_writing (cn_store n))) (gm_lookup cl addr)"

lemma ready_idle: "ready cl addr \<longleftrightarrow> idle cl addr = Some (True, [])"
  by (auto simp: ready_def idle_def)

lemma update_metrics [simp]:
  "cluster_chunks (update_node addr (\<lambda>n. n\<lparr>cn_metrics := f n\<rparr>) cl) = cluster_chunks cl"
  "idle (update_node addr (\<lambda>n. n\<lparr>cn_metrics := f n\<rparr>) cl) = idle cl"
  "cluster_ok (update_node addr (\<lambda>n. n\<lparr>cn_metrics := f n\<rparr>) cl) = cluster_ok cl"
proof -
  let ?cl = "update_node addr (\<lambda>n. n\<lparr>cn_metrics := f n\<rparr>) cl"
  have look: "gm_lookup ?cl = (case gm_lookup cl addr of None \<Rightarrow> gm_lookup cl | Some n \<Rightarrow> (gm_lookup cl)(addr \<mapsto> n\<lparr>cn_metrics := f n\<rparr>))"
    by (simp add: update_node_def gomap_simps split: option.split)
  show "cluster_chunks ?cl = cluster_chunks cl"
    by (auto simp: cluster_chunks_def look node_chunks_def fun_eq_iff split: option.split)
  show "idle ?cl = idle cl"
    by (auto simp: idle_def look fun_eq_iff split: option.split)
  show "cluster_ok ?cl = cluster_ok cl"
    by (auto simp: cluster_ok_def look node_ok_def split: option.splits if_splits)
qed

lemma record_op_chunks [simp]:
  "cluster_chunks (record_op addr opType status cl) = cluster_chunks cl" "idle (record_op addr opType status cl) = idle cl"
  "cluster_ok (record_op addr opType status cl) = cluster_ok cl"
  by (simp_all add: record_op_def)

text \<open>The local part of a write.\<close>

lemma local_write:
  assumes ok: "cluster_ok cl" and n: "gm_lookup cl addr = Some n" "cs_writing (cn_store n) = []"
    and w: "chunk_WriteChunk ft rnd data (cn_store n) (cn_disk n) = (s', d', r)"
  defines "cl' \<equiv> gm_set addr (n\<lparr>cn_store := s', cn_disk := d'\<rparr>) cl"
  shows "cluster_ok cl'" and "idle cl' = idle cl"
    and "\<And>a. a \<noteq> addr \<Longrightarrow> cluster_chunks cl' a = cluster_chunks cl a"
    and "cluster_chunks cl' addr \<in> {cluster_chunks cl addr, (cluster_chunks cl addr)(Hash data \<mapsto> data)}"
    and "\<And>chunkID. r = Inr chunkID \<Longrightarrow> chunkID = Hash data \<and> cluster_chunks cl' addr (Hash data) \<noteq> None"
proof -
  have nok: "store_ok (cs_root (cn_store n)) (cn_disk n)" using ok n(1) by (simp add: cluster_ok_def node_ok_def)
  note res = chunk_WriteChunk_result [OF nok w]
  have root: "cs_root s' = cs_root (cn_store n)" using res by simp
  have writing: "cs_writing s' = []"
    using w n(2) by (auto simp: chunk_WriteChunk_def Let_def split: if_splits option.splits prod.splits)
  have chunks: "cluster_chunks cl' addr = stored (cs_root (cn_store n)) d'" "cluster_chunks cl addr = stored (cs_root (cn_store n)) (cn_disk n)"
    by (simp_all add: cl'_def cluster_chunks_def gomap_simps node_chunks_def root n)
  show "cluster_ok cl'"
    using ok res by (auto simp: cluster_ok_def cl'_def gomap_simps node_ok_def split: if_splits)
  show "idle cl' = idle cl"
    using writing n by (auto simp: idle_def cl'_def gomap_simps fun_eq_iff)
  show "cluster_chunks cl' a = cluster_chunks cl a" if "a \<noteq> addr" for a
    using that by (simp add: cluster_chunks_def cl'_def gomap_simps)
  show "cluster_chunks cl' addr \<in> {cluster_chunks cl addr, (cluster_chunks cl addr)(Hash data \<mapsto> data)}"
    using res n(2) by (auto simp: chunks split: sum.splits if_splits)
  show "chunkID = Hash data \<and> cluster_chunks cl' addr (Hash data) \<noteq> None" if "r = Inr chunkID" for chunkID
    using res n(2) that by (auto simp: chunks split: if_splits)
qed

section \<open>The replication chain\<close>

definition chain_written :: "string set \<Rightarrow> bytes \<Rightarrow> chunk_cluster \<Rightarrow> chunk_cluster \<Rightarrow> bool" where
  "chain_written A data cl cl' \<longleftrightarrow> cluster_ok cl' \<and> idle cl' = idle cl \<and>
     (\<forall>a. cluster_chunks cl' a \<in> {cluster_chunks cl a, (cluster_chunks cl a)(Hash data \<mapsto> data)}) \<and>
     (\<forall>a. a \<notin> A \<longrightarrow> cluster_chunks cl' a = cluster_chunks cl a)"

lemma chain_written_refl: "cluster_ok cl \<Longrightarrow> chain_written A data cl cl"
  by (simp add: chain_written_def)

lemma chain_written_trans:
  assumes "chain_written A data cl cl1" "chain_written B data cl1 cl2"
  shows "chain_written (A \<union> B) data cl cl2"
proof -
  have "cluster_chunks cl2 a \<in> {cluster_chunks cl a, (cluster_chunks cl a)(Hash data \<mapsto> data)}" for a
  proof -
    have "cluster_chunks cl1 a \<in> {cluster_chunks cl a, (cluster_chunks cl a)(Hash data \<mapsto> data)}"
      "cluster_chunks cl2 a \<in> {cluster_chunks cl1 a, (cluster_chunks cl1 a)(Hash data \<mapsto> data)}"
      using assms by (simp_all add: chain_written_def)
    then show ?thesis by auto
  qed
  with assms show ?thesis by (simp add: chain_written_def)
qed

lemma chain_written_record [simp]:
  "chain_written A data cl (record_op addr opType status cl') = chain_written A data cl cl'"
  "chain_written A data cl (update_node addr (\<lambda>n. n\<lparr>cn_metrics := f n\<rparr>) cl') = chain_written A data cl cl'"
  by (simp_all add: chain_written_def)

lemma chain_written_local:
  assumes "cluster_ok cl" "gm_lookup cl addr = Some n" "cs_writing (cn_store n) = []"
    and "chunk_WriteChunk ft rnd data (cn_store n) (cn_disk n) = (s', d', r)"
  shows "chain_written {addr} data cl (gm_set addr (n\<lparr>cn_store := s', cn_disk := d'\<rparr>) cl)"
  using local_write [OF assms] unfolding chain_written_def by (metis insertCI singletonD)

lemma chain_written_keeps:
  "chain_written A data cl cl' \<Longrightarrow> cluster_chunks cl a chunkID \<noteq> None \<Longrightarrow> cluster_chunks cl' a chunkID \<noteq> None"
  unfolding chain_written_def by (metis fun_upd_apply insertE option.distinct(1) singletonD)

lemma serve_write_effect:
  assumes "cluster_ok cl" and "wr_Downstream req = ds" and "\<forall>a \<in> set (addr # ds). ready cl a"
    and "serve_write env ds addr req cl = (cl', r)"
  shows "chain_written (set (addr # ds)) (wr_Data req) cl cl' \<and>
    (\<forall>chunkID. r = Inr chunkID \<longrightarrow> chunkID = wr_ChunkId req \<and> chunkID = Hash (wr_Data req) \<and>
       (\<forall>a \<in> set (addr # ds). cluster_chunks cl' a chunkID \<noteq> None))"
  using assms
proof (induction ds arbitrary: addr req cl cl' r)
  case Nil
  from Nil.prems(3) obtain n where n: "gm_lookup cl addr = Some n" "cn_dial n" "cs_writing (cn_store n) = []" by (auto simp: ready_def)
  obtain s' d' r1 where w: "chunk_WriteChunk (env_ft env addr) (env_rnd env addr) (wr_Data req) (cn_store n) (cn_disk n) = (s', d', r1)"
    using prod_cases3 by blast
  note written = chain_written_local [OF Nil.prems(1) n(1,3) w] and loc = local_write(5) [OF Nil.prems(1) n(1,3) w]
  show ?case
    using Nil.prems n w written loc chain_written_refl [OF Nil.prems(1)]
    by (auto simp: srv_WriteChunk_def Let_def Verify_def split: if_splits sum.splits)
next
  case (Cons nxt ds)
  from Cons.prems(3) obtain n where n: "gm_lookup cl addr = Some n" "cn_dial n" "cs_writing (cn_store n) = []" by (auto simp: ready_def)
  obtain s' d' r1 where w: "chunk_WriteChunk (env_ft env addr) (env_rnd env addr) (wr_Data req) (cn_store n) (cn_disk n) = (s', d', r1)"
    using prod_cases3 by blast
  let ?cl1 = "gm_set addr (n\<lparr>cn_store := s', cn_disk := d'\<rparr>) cl"
  note written = chain_written_local [OF Cons.prems(1) n(1,3) w] and loc = local_write(5) [OF Cons.prems(1) n(1,3) w]
  obtain cl2 r2 where fwd: "serve_write env ds nxt (req\<lparr>wr_Downstream := ds\<rparr>) ?cl1 = (cl2, r2)" by fastforce
  have ok1: "cluster_ok ?cl1" and idle1: "idle ?cl1 = idle cl" using written by (simp_all add: chain_written_def)
  have IH: "chain_written (set (nxt # ds)) (wr_Data req) ?cl1 cl2"
    "\<And>chunkID. r2 = Inr chunkID \<Longrightarrow> chunkID = Hash (wr_Data req) \<and> (\<forall>a \<in> set (nxt # ds). cluster_chunks cl2 a chunkID \<noteq> None)"
    using Cons.IH [OF ok1 _ _ fwd] Cons.prems(3) by (simp_all add: ready_idle idle1)
  have all: "chain_written (set (addr # nxt # ds)) (wr_Data req) cl cl2" using chain_written_trans [OF written IH(1)] by (simp add: insert_commute)
  have weak: "chain_written (set (addr # nxt # ds)) (wr_Data req) cl ?cl1" using written by (auto simp: chain_written_def)
  have kept: "cluster_chunks cl2 addr (Hash (wr_Data req)) \<noteq> None" if "r1 = Inr chunkID" for chunkID
    using chain_written_keeps [OF IH(1)] loc [OF that] by blast
  obtain cl3 c where f: "srv_forward env (serve_write env ds nxt) addr nxt ds req ?cl1 = (cl3, c)" by fastforce
  have cl3: "chain_written (set (addr # nxt # ds)) (wr_Data req) cl cl3"
    using f fwd all weak by (auto simp: srv_forward_def simp del: list.set split: if_splits sum.splits)
  have acked: "(\<exists>chunkID. r2 = Inr chunkID) \<and> cluster_chunks cl3 = cluster_chunks cl2" if "c = None"
    using f fwd that by (auto simp: srv_forward_def split: if_splits sum.splits)
  consider (bad) "\<not> Verify (wr_ChunkId req) (wr_Data req)" | (failed) err where "Verify (wr_ChunkId req) (wr_Data req)" "r1 = Inl err"
    | (stored) chunkID where "Verify (wr_ChunkId req) (wr_Data req)" "r1 = Inr chunkID"
    by (cases r1) blast+
  then show ?case
  proof cases
    case bad
    then show ?thesis using Cons.prems(4) n chain_written_refl [OF Cons.prems(1)] by (auto simp: srv_WriteChunk_def)
  next
    case failed
    then show ?thesis using Cons.prems(4) n w weak by (auto simp: srv_WriteChunk_def simp del: list.set)
  next
    case stored
    have id: "chunkID = wr_ChunkId req" "wr_ChunkId req = Hash (wr_Data req)" using loc [OF stored(2)] stored(1) by (simp_all add: Verify_def)
    show ?thesis
    proof (cases c)
      case (Some code)
      then show ?thesis using Cons.prems(2,4) n w stored f cl3 by (auto simp: srv_WriteChunk_def Let_def simp del: list.set)
    next
      case None
      then have run: "cl' = record_op addr ''chunk_write'' StatusOK cl3" "r = Inr (wr_ChunkId req)"
        using Cons.prems(2,4) n w stored f id by (simp_all add: srv_WriteChunk_def)
      have "cluster_chunks cl2 a (wr_ChunkId req) \<noteq> None" if "a \<in> set (addr # nxt # ds)" for a
      proof -
        obtain x where "r2 = Inr x" using acked [OF None] by blast
        then show ?thesis using that IH(2) [of x] kept [OF stored(2)] id(2) by (metis set_ConsD)
      qed
      then show ?thesis using run cl3 acked [OF None] id(2) by simp
    qed
  qed
qed

text \<open>
  Nothing fails: no system call, no dial, no message; and the random part of each temporary name is unused.
\<close>

definition healthy_env :: "rpc_env \<Rightarrow> bool" where
  "healthy_env env \<longleftrightarrow> (\<forall>a. env_ft env a = no_store_faults) \<and>
     (\<forall>a b. env_dial env a b \<and> env_request env a b \<and> env_reply env a b)"

definition temp_unused :: "rpc_env \<Rightarrow> bytes \<Rightarrow> chunk_cluster \<Rightarrow> string \<Rightarrow> bool" where
  "temp_unused env data cl addr = (case gm_lookup cl addr of None \<Rightarrow> True
     | Some n \<Rightarrow> gm_lookup (cn_disk n) (temp_path (chunk_file (cs_root (cn_store n)) (Hash data)) (Hash data) (env_rnd env addr)) = None)"

lemma chunk_WriteChunk_healthy:
  assumes "store_ok (cs_root s) d" and "gm_lookup d (temp_path (chunk_file (cs_root s) (Hash data)) (Hash data) rnd) = None"
  obtains s' d' where "chunk_WriteChunk no_store_faults rnd data s d = (s', d', Inr (Hash data))"
proof -
  have path: "chunk_path (cs_root s) (Hash data) = Some (chunk_file (cs_root s) (Hash data))"
    using assms by (simp add: chunk_path_valid store_ok_def)
  have "snd (write_chunk_file no_store_faults rnd (chunk_file (cs_root s) (Hash data)) (Hash data) data d) = Inr (Hash data)"
    using assms(2) by (simp add: write_chunk_file_def no_store_faults_def Let_def gomap_simps on_file_lookup)
  then have "snd (snd (chunk_WriteChunk no_store_faults rnd data s d)) = Inr (Hash data)"
    by (simp add: chunk_WriteChunk_def path Let_def no_store_faults_def split: prod.split)
  then show thesis using that by (metis prod.collapse)
qed

lemma node_write_healthy:
  assumes "cluster_ok cl" and "gm_lookup cl addr = Some n" and "temp_unused env data cl addr"
  obtains s' d' where "chunk_WriteChunk no_store_faults (env_rnd env addr) data (cn_store n) (cn_disk n) = (s', d', Inr (Hash data))"
proof (rule chunk_WriteChunk_healthy)
  show "store_ok (cs_root (cn_store n)) (cn_disk n)" using assms by (simp add: cluster_ok_def node_ok_def)
  show "gm_lookup (cn_disk n) (temp_path (chunk_file (cs_root (cn_store n)) (Hash data)) (Hash data) (env_rnd env addr)) = None"
    using assms by (simp add: temp_unused_def)
qed

lemma serve_write_succeeds:
  assumes "healthy_env env" and "cluster_ok cl" and "wr_Downstream req = ds" and "distinct (addr # ds)"
    and "\<forall>a \<in> set (addr # ds). ready cl a \<and> temp_unused env (wr_Data req) cl a" and "Verify (wr_ChunkId req) (wr_Data req)"
  shows "snd (serve_write env ds addr req cl) = Inr (wr_ChunkId req)"
  using assms(2-)
proof (induction ds arbitrary: addr req cl)
  case Nil
  from Nil.prems(4) obtain n where n: "gm_lookup cl addr = Some n" "cs_writing (cn_store n) = []" by (auto simp: ready_def)
  then obtain s' d' where "chunk_WriteChunk no_store_faults (env_rnd env addr) (wr_Data req) (cn_store n) (cn_disk n) = (s', d', Inr (Hash (wr_Data req)))"
    using node_write_healthy [OF Nil.prems(1) n(1), of env "wr_Data req"] Nil.prems(4) by auto
  then show ?case using assms(1) Nil.prems n by (simp add: srv_WriteChunk_def healthy_env_def Verify_def)
next
  case (Cons nxt ds)
  from Cons.prems(4) obtain n where n: "gm_lookup cl addr = Some n" "cn_dial n" "cs_writing (cn_store n) = []" by (auto simp: ready_def)
  then obtain s' d' where w: "chunk_WriteChunk no_store_faults (env_rnd env addr) (wr_Data req) (cn_store n) (cn_disk n) = (s', d', Inr (Hash (wr_Data req)))"
    using node_write_healthy [OF Cons.prems(1) n(1), of env "wr_Data req"] Cons.prems(4) by auto
  let ?cl1 = "gm_set addr (n\<lparr>cn_store := s', cn_disk := d'\<rparr>) cl"
  note loc = local_write(1,2) [OF Cons.prems(1) n(1,3) w]
  have unused: "temp_unused env (wr_Data req) ?cl1 a" if "a \<in> set (nxt # ds)" for a
    using that Cons.prems(3,4) by (auto simp: temp_unused_def gomap_simps)
  obtain cl2 r2 where fwd: "serve_write env ds nxt (req\<lparr>wr_Downstream := ds\<rparr>) ?cl1 = (cl2, r2)" by fastforce
  have "snd (serve_write env ds nxt (req\<lparr>wr_Downstream := ds\<rparr>) ?cl1) = Inr (wr_ChunkId req)"
    using Cons.IH [of ?cl1 "req\<lparr>wr_Downstream := ds\<rparr>" nxt] loc Cons.prems(3,4,5) unused by (simp add: ready_idle)
  then show ?case
    using assms(1) Cons.prems(2,5) n w fwd by (simp add: srv_WriteChunk_def srv_forward_def healthy_env_def Verify_def)
qed

lemma cluster_chunks_Hash: "cluster_ok cl \<Longrightarrow> cluster_chunks cl a chunkID = Some data \<Longrightarrow> Hash data = chunkID"
  by (auto simp: cluster_ok_def cluster_chunks_def node_ok_def node_chunks_def dest: stored_Hash split: option.splits)


text \<open>Three servers with empty disks; nothing fails.\<close>

definition sample_cluster :: chunk_cluster where
  "sample_cluster = map (\<lambda>a. (a, chunkserver_New a sample_store [] True None)) [''cs1'', ''cs2'', ''cs3'']"

definition calm_env :: rpc_env where
  "calm_env = \<lparr>env_ft = (\<lambda>_. no_store_faults), env_rnd = (\<lambda>_. ''1''), env_dial = (\<lambda>_ _. True), env_request = (\<lambda>_ _. True),
     env_reply = (\<lambda>_ _. True), env_latency = (\<lambda>_ _. 0)\<rparr>"

lemma calm_env_healthy: "healthy_env calm_env"
  by (simp add: calm_env_def healthy_env_def)

lemma sample_cluster_lookup:
  "gm_lookup sample_cluster a = (if a \<in> {''cs1'', ''cs2'', ''cs3''} then Some (chunkserver_New a sample_store [] True None) else None)"
  by (simp add: sample_cluster_def gomap_simps)

lemma sample_cluster_ready: "a \<in> {''cs1'', ''cs2'', ''cs3''} \<Longrightarrow> ready sample_cluster a \<and> temp_unused env data sample_cluster a"
  by (simp add: ready_def sample_cluster_lookup temp_unused_def chunkserver_New_def sample_store_def gomap_simps)

lemma sample_cluster_ok: "cluster_ok sample_cluster"
  using sample_store_ok by (simp add: cluster_ok_def sample_cluster_lookup node_ok_def chunkserver_New_def)

lemma sample_cluster_chunks: "cluster_chunks sample_cluster a = Map.empty"
  by (simp add: cluster_chunks_def sample_cluster_lookup node_chunks_def chunkserver_New_def stored_def gomap_simps fun_eq_iff)


lemma chunk_ReadChunk_Inr:
  assumes "store_ok (cs_root s) d" and "chunk_ReadChunk ft chunkID s d = Inr data"
  shows "Hash data = chunkID \<and> stored (cs_root s) d chunkID = Some data"
proof -
  have "Hash data = chunkID" using assms(2) by (auto simp: chunk_ReadChunk_def Verify_def Let_def split: if_splits option.splits)
  then have "Valid chunkID" using Valid_Hash by blast
  then have path: "chunk_path (cs_root s) chunkID = Some (chunk_file (cs_root s) chunkID)"
    using assms(1) by (simp add: chunk_path_valid store_ok_def)
  then show ?thesis
    using assms(2) \<open>Hash data = chunkID\<close> \<open>Valid chunkID\<close>
    by (auto simp: chunk_ReadChunk_def stored_def Let_def split: if_splits option.splits)
qed

lemma serve_read_effect:
  assumes "cluster_ok cl" and "serve_read env addr chunkID cl = (cl', r)"
  shows "cluster_ok cl' \<and> cluster_chunks cl' = cluster_chunks cl \<and> idle cl' = idle cl \<and>
    (\<forall>data. r = Inr data \<longrightarrow> Hash data = chunkID \<and> cluster_chunks cl addr chunkID = Some data)"
proof (cases "gm_lookup cl addr")
  case None
  then show ?thesis using assms by (auto simp: serve_read_def)
next
  case (Some n)
  obtain n' where read: "srv_ReadChunk (env_ft env addr) chunkID n = (n', r)" and cl': "cl' = gm_set addr n' cl"
    using assms(2) Some by (auto simp: serve_read_def split: prod.splits)
  obtain m where n': "n' = n\<lparr>cn_metrics := m\<rparr>"
    using read by (auto simp: srv_ReadChunk_def Let_def split: sum.splits chunk_error.splits) (metis chunk_node.surjective chunk_node.update_convs(5))
  have "cl' = update_node addr (\<lambda>n. n\<lparr>cn_metrics := m\<rparr>) cl" by (simp add: cl' n' update_node_def Some)
  then have same: "cluster_ok cl'" "cluster_chunks cl' = cluster_chunks cl" "idle cl' = idle cl" using assms(1) by simp_all
  have "Hash data = chunkID \<and> cluster_chunks cl addr chunkID = Some data" if "r = Inr data" for data
  proof -
    have "chunk_ReadChunk (env_ft env addr) chunkID (cn_store n) (cn_disk n) = Inr data"
      using read that by (auto simp: srv_ReadChunk_def Let_def split: sum.splits chunk_error.splits)
    moreover have "store_ok (cs_root (cn_store n)) (cn_disk n)" using assms(1) Some by (simp add: cluster_ok_def node_ok_def)
    ultimately show ?thesis using chunk_ReadChunk_Inr by (simp add: Some cluster_chunks_def node_chunks_def)
  qed
  with same show ?thesis by simp
qed



end
