(* ===== verification/Client_Retry.thy ===== *)
theory Client_Retry
  imports Rpc_Base Chunk_Hash
begin

text \<open>
  The helpers of the client: cutting a file into chunks (\<^verbatim>\<open>pkg/client/file.go\<close>), retrying with exponential
  backoff (\<^verbatim>\<open>pkg/client/retry.go\<close>) and the pool of connections (\<^verbatim>\<open>pkg/client/pool.go\<close>). Time, the
  context and the servers are a world of any type; \<open>client_env\<close> says how the context and gRPC behave in it.
\<close>

datatype client_error =
    Rpc error_code
  | CtxErr
  | DialFailed string
  | NoMaster
  | NoMasterAddrs
  | ReadInputFailed
  | IntegrityFailed string
  | OpenFailed
  | CreateFailed
  | WriteFailed
  | PlacementCount nat nat
  | NoChunkServer string
  | MissingLocation nat string
  | NoReplicas string
  | Wrapped string client_error

primrec status_Code :: "client_error \<Rightarrow> error_code" where
  "status_Code (Rpc c) = c"
| "status_Code CtxErr = Unknown"
| "status_Code (DialFailed addr) = Unknown"
| "status_Code NoMaster = Unknown"
| "status_Code NoMasterAddrs = Unknown"
| "status_Code ReadInputFailed = Unknown"
| "status_Code (IntegrityFailed chunkID) = Unknown"
| "status_Code OpenFailed = Unknown"
| "status_Code CreateFailed = Unknown"
| "status_Code WriteFailed = Unknown"
| "status_Code (PlacementCount m n) = Unknown"
| "status_Code (NoChunkServer chunkID) = Unknown"
| "status_Code (MissingLocation i chunkID) = Unknown"
| "status_Code (NoReplicas chunkID) = Unknown"
| "status_Code (Wrapped what err) = status_Code err"

section \<open>file.go\<close>

definition DefaultChunkSize :: int where
  "DefaultChunkSize = 4 * 2 ^ 20"

record chunk =
  ck_id :: string
  ck_data :: bytes

definition hashChunk :: "bytes \<Rightarrow> string" where
  "hashChunk data = hex_EncodeToString (Sum256 data)"

text \<open>
  The input: its bytes, and whether it ends with an I/O error instead of the end of the file. \<^verbatim>\<open>io.ReadFull\<close>
  fails when it cannot fill the buffer; the result is what it read, the error if any, and the input left.
\<close>

record input =
  in_bytes :: bytes
  in_fails :: bool

datatype full_error = FullEOF | FullUnexpectedEOF | FullFailed

definition io_ReadFull :: "nat \<Rightarrow> input \<Rightarrow> bytes \<times> full_error option \<times> input" where
  "io_ReadFull n r =
     (if n \<le> length (in_bytes r) then (take n (in_bytes r), None, r\<lparr>in_bytes := drop n (in_bytes r)\<rparr>)
      else (in_bytes r, Some (if in_fails r then FullFailed else if in_bytes r = [] then FullEOF else FullUnexpectedEOF),
            r\<lparr>in_bytes := []\<rparr>))"

text \<open>The loop of \<^verbatim>\<open>splitChunks\<close>; the buffer of \<open>Suc m\<close> bytes is never empty.\<close>

function (sequential) split_loop :: "nat \<Rightarrow> chunk list \<Rightarrow> input \<Rightarrow> client_error + chunk list" where
  "split_loop m chunks r =
     (case io_ReadFull (Suc m) r of (data, err, r') \<Rightarrow>
        let chunks' = (if data \<noteq> [] then chunks @ [\<lparr>ck_id = hashChunk data, ck_data = data\<rparr>] else chunks)
        in (case err of
              None \<Rightarrow> split_loop m chunks' r'
            | Some FullFailed \<Rightarrow> Inl ReadInputFailed
            | Some _ \<Rightarrow> Inr chunks'))"
  by pat_completeness auto
termination
  by (relation "measure (\<lambda>(m, chunks, r). length (in_bytes r))") (auto simp: io_ReadFull_def split: if_splits)

declare split_loop.simps [simp del]

definition splitChunks :: "input \<Rightarrow> int \<Rightarrow> client_error + chunk list" where
  "splitChunks r sz = split_loop (nat (if sz \<le> 0 then DefaultChunkSize else sz) - 1) [] r"

definition verifyChunk :: "string \<Rightarrow> bytes \<Rightarrow> client_error option" where
  "verifyChunk expectedID data = (if hashChunk data \<noteq> expectedID then Some (IntegrityFailed expectedID) else None)"

lemma hashChunk_Hash: "hashChunk data = Hash data"
  by (simp add: hashChunk_def Hash_def)

section \<open>retry.go\<close>

record retryPolicy =
  rp_maxAttempts :: int
  rp_baseDelay :: duration
  rp_maxDelay :: duration

definition defaultRetryPolicy :: retryPolicy where
  "defaultRetryPolicy = \<lparr>rp_maxAttempts = 4, rp_baseDelay = 50 * 10 ^ 6, rp_maxDelay = 10 ^ 9\<rparr>"

definition isTransient :: "client_error \<Rightarrow> bool" where
  "isTransient err = (case status_Code err of Unavailable \<Rightarrow> True | DeadlineExceeded \<Rightarrow> True | Aborted \<Rightarrow> True | _ \<Rightarrow> False)"

text \<open>
  \<open>ce_ctxErr\<close>: whether the context is done; \<open>ce_sleep\<close>: waits for the duration or, the value being true, until
  the context is done before that; \<open>ce_NewClient\<close>: whether \<^verbatim>\<open>grpc.NewClient\<close> accepts the address.
\<close>

record 'w client_env =
  ce_ctxErr :: "'w \<Rightarrow> bool"
  ce_sleep :: "duration \<Rightarrow> 'w \<Rightarrow> 'w \<times> bool"
  ce_NewClient :: "string \<Rightarrow> bool"

text \<open>
  The loop of \<^verbatim>\<open>do\<close>. The operations of the client store their response in a captured variable: the result
  \<open>Inr None\<close> is a nil error with the variable unset, when the operation was never run.
\<close>

function (sequential) retry_loop :: "'w client_env \<Rightarrow> retryPolicy \<Rightarrow> ('w \<Rightarrow> 'w \<times> (client_error + 'r)) \<Rightarrow> int \<Rightarrow> duration \<Rightarrow>
    client_error option \<Rightarrow> 'w \<Rightarrow> 'w \<times> (client_error + 'r option)" where
  "retry_loop env rp op attempt delay err w =
     (if attempt < rp_maxAttempts rp
      then (case op w of
          (w1, Inr r) \<Rightarrow> (w1, Inr (Some r))
        | (w1, Inl e) \<Rightarrow>
            if \<not> isTransient e then (w1, Inl e)
            else if attempt = rp_maxAttempts rp - 1 then (w1, Inl e)
            else (case ce_sleep env delay w1 of
                (w2, True) \<Rightarrow> (w2, Inl CtxErr)
              | (w2, False) \<Rightarrow>
                  let doubled = int64 (delay * 2)
                  in retry_loop env rp op (attempt + 1) (if doubled > rp_maxDelay rp then rp_maxDelay rp else doubled) (Some e) w2))
      else (w, case err of None \<Rightarrow> Inr None | Some e \<Rightarrow> Inl e))"
  by pat_completeness auto
termination
  by (relation "measure (\<lambda>(env, rp, op, attempt, delay, err, w). nat (rp_maxAttempts rp - attempt))") auto

declare retry_loop.simps [simp del]

definition retry_do :: "'w client_env \<Rightarrow> retryPolicy \<Rightarrow> ('w \<Rightarrow> 'w \<times> (client_error + 'r)) \<Rightarrow> 'w \<Rightarrow> 'w \<times> (client_error + 'r option)" where
  "retry_do env rp op w = retry_loop env rp op 0 (rp_baseDelay rp) None w"

section \<open>pool.go\<close>

record pool =
  pl_masterAddrs :: "string list"
  pl_conns :: "(string, unit) gomap"

definition newPool :: "string list \<Rightarrow> pool" where
  "newPool masterAddrs = \<lparr>pl_masterAddrs = masterAddrs, pl_conns = []\<rparr>"

text \<open>A connection is named by its address.\<close>

definition pool_conn :: "'w client_env \<Rightarrow> string \<Rightarrow> pool \<Rightarrow> pool \<times> (client_error + string)" where
  "pool_conn env addr p =
     (if gm_lookup (pl_conns p) addr \<noteq> None then (p, Inr addr)
      else if \<not> ce_NewClient env addr then (p, Inl (DialFailed addr))
      else (p\<lparr>pl_conns := gm_set addr () (pl_conns p)\<rparr>, Inr addr))"

definition chunkClient :: "'w client_env \<Rightarrow> string \<Rightarrow> pool \<Rightarrow> pool \<times> (client_error + string)" where
  "chunkClient env addr p = pool_conn env addr p"

text \<open>\<^verbatim>\<open>close\<close>: \<open>fails\<close> are the connections whose \<^verbatim>\<open>Close\<close> fails; the result lists their addresses.\<close>

definition pool_close :: "(string \<Rightarrow> bool) \<Rightarrow> pool \<Rightarrow> pool \<times> string list" where
  "pool_close fails p = (p\<lparr>pl_conns := []\<rparr>, filter fails (map fst (pl_conns p)))"

section \<open>Cutting a file\<close>

lemma split_loop_result:
  "if in_fails r then split_loop m chunks r = Inl ReadInputFailed
   else \<exists>cs. split_loop m chunks r = Inr (chunks @ cs) \<and> concat (map ck_data cs) = in_bytes r \<and>
     (\<forall>c \<in> set cs. ck_id c = Hash (ck_data c) \<and> ck_data c \<noteq> [] \<and> length (ck_data c) \<le> Suc m) \<and>
     (\<forall>c \<in> set (butlast cs). length (ck_data c) = Suc m) \<and> length cs = (length (in_bytes r) + m) div Suc m"
proof (induction m chunks r rule: split_loop.induct)
  case (1 m chunks r)
  show ?case
  proof (cases "Suc m \<le> length (in_bytes r)")
    case True
    let ?d = "take (Suc m) (in_bytes r)"
    let ?c = "\<lparr>ck_id = hashChunk ?d, ck_data = ?d\<rparr>" and ?r = "r\<lparr>in_bytes := drop (Suc m) (in_bytes r)\<rparr>"
    have ne: "?d \<noteq> []" using True by auto
    have read: "io_ReadFull (Suc m) r = (?d, None, ?r)" using True by (simp add: io_ReadFull_def)
    have step: "split_loop m chunks r = split_loop m (chunks @ [?c]) ?r"
      by (subst split_loop.simps) (simp only: read prod.case Let_def ne option.case if_True not_False_eq_True)
    note IH = "1.IH" [OF read [symmetric] refl refl refl]
    have count: "(length (in_bytes r) + m) div Suc m = Suc ((length (in_bytes r) - Suc m + m) div Suc m)"
    proof -
      have "length (in_bytes r) + m = Suc m + (length (in_bytes r) - Suc m + m)" using True by simp
      then show ?thesis by (simp only: div_add_self1 nat.distinct(1) not_False_eq_True)
    qed
    show ?thesis
    proof (cases "in_fails r")
      case True
      then show ?thesis using IH ne by (simp only: step) simp
    next
      case False
      with IH ne obtain cs where cs: "split_loop m (chunks @ [?c]) ?r = Inr ((chunks @ [?c]) @ cs)"
        "concat (map ck_data cs) = drop (Suc m) (in_bytes r)"
        "\<forall>c \<in> set cs. ck_id c = Hash (ck_data c) \<and> ck_data c \<noteq> [] \<and> length (ck_data c) \<le> Suc m"
        "\<forall>c \<in> set (butlast cs). length (ck_data c) = Suc m" "length cs = (length (in_bytes r) - Suc m + m) div Suc m"
        by auto
      have "split_loop m chunks r = Inr (chunks @ ?c # cs)" using step cs(1) by simp
      moreover have "concat (map ck_data (?c # cs)) = in_bytes r" using cs(2) by simp
      moreover have "\<forall>c \<in> set (?c # cs). ck_id c = Hash (ck_data c) \<and> ck_data c \<noteq> [] \<and> length (ck_data c) \<le> Suc m"
        using cs(3) ne by (simp add: hashChunk_Hash)
      moreover have "\<forall>c \<in> set (butlast (?c # cs)). length (ck_data c) = Suc m" using cs(4) \<open>Suc m \<le> length (in_bytes r)\<close> by simp
      moreover have "length (?c # cs) = (length (in_bytes r) + m) div Suc m" using cs(5) count by simp
      ultimately show ?thesis using False by (simp only: if_False) blast
    qed
  next
    case False
    then have read: "io_ReadFull (Suc m) r = (in_bytes r,
        Some (if in_fails r then FullFailed else if in_bytes r = [] then FullEOF else FullUnexpectedEOF), r\<lparr>in_bytes := []\<rparr>)"
      by (simp add: io_ReadFull_def)
    have one: "(length (in_bytes r) + m) div Suc m = (if in_bytes r = [] then 0 else 1)"
      using False by (auto simp: div_eq_dividend_iff Suc_le_eq intro!: div_nat_eqI)
    show ?thesis
      using False by (subst (1 2) split_loop.simps) (auto simp: read one hashChunk_Hash intro!: exI [of _ "[\<lparr>ck_id = hashChunk (in_bytes r), ck_data = in_bytes r\<rparr>]"])
  qed
qed

text \<open>
  C25: \<^verbatim>\<open>splitChunks\<close> cuts the whole input into chunks that together are the input, each named by its hash,
  none empty and none above the chunk size; all but the last have exactly that size, so their number is
  the rounded-up quotient. An input that ends with an I/O error gives an error and no chunks.
\<close>

theorem split_chunks_exact:
  fixes sz :: int
  defines "n \<equiv> nat (if sz \<le> 0 then DefaultChunkSize else sz)"
  shows "if in_fails r then splitChunks r sz = Inl ReadInputFailed
   else \<exists>cs. splitChunks r sz = Inr cs \<and> concat (map ck_data cs) = in_bytes r \<and>
     (\<forall>c \<in> set cs. ck_id c = Hash (ck_data c) \<and> ck_data c \<noteq> [] \<and> length (ck_data c) \<le> n) \<and>
     (\<forall>c \<in> set (butlast cs). length (ck_data c) = n) \<and> length cs = (length (in_bytes r) + (n - 1)) div n"
proof -
  have n: "Suc (n - 1) = n" by (simp add: n_def DefaultChunkSize_def)
  have split: "splitChunks r sz = split_loop (n - 1) [] r" by (simp add: splitChunks_def n_def)
  show ?thesis using split_loop_result [of r "n - 1" "[]"] unfolding n by (simp only: split append_Nil)
qed

theorem split_chunks_exact_witness:
  "\<exists>cs. splitChunks \<lparr>in_bytes = [1, 2, 3, 4, 5], in_fails = False\<rparr> 2 = Inr cs \<and> length cs = 3 \<and>
     concat (map ck_data cs) = [1, 2, 3, 4, 5]"
  using split_chunks_exact [of "\<lparr>in_bytes = [1, 2, 3, 4, 5], in_fails = False\<rparr>" 2] by auto

section \<open>Bounds on retries\<close>

text \<open>The world extended with the number of calls of the operation and the delays waited for.\<close>

definition counted :: "('w \<Rightarrow> 'w \<times> (client_error + 'r)) \<Rightarrow> 'w \<times> nat \<times> duration list \<Rightarrow> ('w \<times> nat \<times> duration list) \<times> (client_error + 'r)" where
  "counted op = (\<lambda>(w, n, ds). case op w of (w', r) \<Rightarrow> ((w', Suc n, ds), r))"

definition timed :: "'w client_env \<Rightarrow> ('w \<times> nat \<times> duration list) client_env" where
  "timed env = \<lparr>ce_ctxErr = (\<lambda>(w, n, ds). ce_ctxErr env w),
     ce_sleep = (\<lambda>d (w, n, ds). case ce_sleep env d w of (w', over) \<Rightarrow> ((w', n, ds @ [d]), over)),
     ce_NewClient = ce_NewClient env\<rparr>"

definition backoff :: "retryPolicy \<Rightarrow> nat \<Rightarrow> duration" where
  "backoff rp i = min (rp_maxDelay rp) (rp_baseDelay rp * 2 ^ i)"

definition sane_policy :: "retryPolicy \<Rightarrow> bool" where
  "sane_policy rp \<longleftrightarrow> 0 < rp_maxAttempts rp \<and> 0 \<le> rp_baseDelay rp \<and> rp_baseDelay rp \<le> rp_maxDelay rp \<and> rp_maxDelay rp < 2 ^ 62"

lemma backoff_step:
  assumes "sane_policy rp"
  shows "(if int64 (backoff rp i * 2) > rp_maxDelay rp then rp_maxDelay rp else int64 (backoff rp i * 2)) = backoff rp (Suc i)"
proof -
  have "0 \<le> backoff rp i" "backoff rp i \<le> rp_maxDelay rp" using assms by (simp_all add: backoff_def sane_policy_def)
  then have "int64 (backoff rp i * 2) = backoff rp i * 2" using assms by (intro int64_id) (simp_all add: sane_policy_def)
  then show ?thesis using assms by (auto simp: backoff_def sane_policy_def min_def)
qed

lemma retry_loop_bounded:
  assumes "sane_policy rp" and "k < nat (rp_maxAttempts rp)"
    and "retry_loop (timed env) rp (counted op) (int k) (backoff rp k) err (w, k, map (backoff rp) [0..<k]) = ((w', n, ds), r)"
  shows "retry_loop env rp op (int k) (backoff rp k) err w = (w', r) \<and> k < n \<and> n \<le> nat (rp_maxAttempts rp) \<and>
    (\<exists>m. ds = map (backoff rp) [0..<m] \<and> (m = n \<or> Suc m = n)) \<and> r \<noteq> Inr None \<and>
    (\<forall>e. r = Inl e \<and> isTransient e \<longrightarrow> n = nat (rp_maxAttempts rp))"
  using assms(2,3)
proof (induction "nat (rp_maxAttempts rp) - k" arbitrary: k err w)
  case (Suc x)
  have k: "int k < rp_maxAttempts rp" using Suc.prems(1) by simp
  obtain w1 r1 where op: "op w = (w1, r1)" by fastforce
  have cop: "counted op (w, k, map (backoff rp) [0..<k]) = ((w1, Suc k, map (backoff rp) [0..<k]), r1)" by (simp add: counted_def op)
  note unf = retry_loop.simps [of env rp op "int k"] retry_loop.simps [of "timed env" rp "counted op" "int k"]
  consider (ok) y where "r1 = Inr y" | (fatal) e where "r1 = Inl e" "\<not> isTransient e" | (last) e where "r1 = Inl e" "isTransient e" "rp_maxAttempts rp = int k + 1"
    | (again) e where "r1 = Inl e" "isTransient e" "int k \<noteq> rp_maxAttempts rp - 1"
    by (cases r1) force+
  then show ?case
  proof cases
    case ok
    then show ?thesis using Suc.prems k op cop by (auto simp: unf)
  next
    case fatal
    then show ?thesis using Suc.prems k op cop by (auto simp: unf)
  next
    case last
    then show ?thesis using Suc.prems k op cop by (auto simp: unf)
  next
    case again
    obtain w2 over where sl: "ce_sleep env (backoff rp k) w1 = (w2, over)" by fastforce
    have csl: "ce_sleep (timed env) (backoff rp k) (w1, Suc k, map (backoff rp) [0..<k]) = ((w2, Suc k, map (backoff rp) [0..<Suc k]), over)"
      by (simp add: timed_def sl)
    show ?thesis
    proof (cases over)
      case True
      then show ?thesis using Suc.prems k op cop again sl csl by (auto simp: unf isTransient_def intro!: exI [of _ "Suc k"])
    next
      case False
      have less: "Suc k < nat (rp_maxAttempts rp)" using k again(3) by linarith
      have run: "retry_loop env rp op (int k) (backoff rp k) err w = retry_loop env rp op (int (Suc k)) (backoff rp (Suc k)) (Some e) w2"
        using k op again sl False backoff_step [OF assms(1), of k] by (simp add: unf Let_def add.commute)
      have "retry_loop (timed env) rp (counted op) (int (Suc k)) (backoff rp (Suc k)) (Some e) (w2, Suc k, map (backoff rp) [0..<Suc k]) = ((w', n, ds), r)"
        using Suc.prems(2) k cop again csl False backoff_step [OF assms(1), of k] by (simp add: unf Let_def add.commute)
      moreover have "x = nat (rp_maxAttempts rp) - Suc k" using Suc.hyps(2) by simp
      ultimately show ?thesis using Suc.hyps(1) [OF _ less] run by (metis Suc_lessD)
    qed
  qed
qed simp

text \<open>
  C24: \<^verbatim>\<open>do\<close> ends, with a bounded effort, whatever the operation does. It calls the operation at least once and
  at most \<^verbatim>\<open>maxAttempts\<close> times; the delays between the calls double from \<^verbatim>\<open>baseDelay\<close> up to the cap
  \<^verbatim>\<open>maxDelay\<close>; a nil error always comes with a response of the operation; and a transient error is reported
  only when all attempts were used.
\<close>

theorem retry_bounded:
  assumes "sane_policy rp" and "retry_do (timed env) rp (counted op) (w, 0, []) = ((w', n, ds), r)"
  shows "retry_do env rp op w = (w', r) \<and> 1 \<le> n \<and> n \<le> nat (rp_maxAttempts rp) \<and> length ds \<le> n \<and>
    ds = map (\<lambda>i. min (rp_maxDelay rp) (rp_baseDelay rp * 2 ^ i)) [0..<length ds] \<and>
    sum_list ds \<le> int (length ds) * rp_maxDelay rp \<and> r \<noteq> Inr None \<and>
    (\<forall>e. r = Inl e \<and> isTransient e \<longrightarrow> n = nat (rp_maxAttempts rp))"
proof -
  have base: "backoff rp 0 = rp_baseDelay rp" "0 < nat (rp_maxAttempts rp)" using assms(1) by (simp_all add: backoff_def sane_policy_def)
  have run: "retry_loop (timed env) rp (counted op) (int 0) (backoff rp 0) None (w, 0, map (backoff rp) [0..<0]) = ((w', n, ds), r)"
    using assms(2) by (simp add: retry_do_def base)
  note bounded = retry_loop_bounded [OF assms(1) base(2) run]
  then obtain m where m: "ds = map (backoff rp) [0..<m]" "m = n \<or> Suc m = n" by blast
  have "sum_list ds \<le> int (length ds) * rp_maxDelay rp"
    unfolding m by (induction m) (simp_all add: backoff_def algebra_simps)
  moreover have "ds = map (\<lambda>i. min (rp_maxDelay rp) (rp_baseDelay rp * 2 ^ i)) [0..<length ds]" "length ds \<le> n"
    using m by (auto simp: backoff_def [abs_def])
  ultimately show ?thesis using bounded by (simp add: retry_do_def base)
qed

text \<open>A world that counts down to a success.\<close>

theorem retry_bounded_witness:
  "retry_do (timed \<lparr>ce_ctxErr = (\<lambda>_. False), ce_sleep = (\<lambda>_ w. (w, False)), ce_NewClient = (\<lambda>_. True)\<rparr>) defaultRetryPolicy
      (counted (\<lambda>w :: nat. if w = 0 then (0, Inr ''ok'') else (w - 1, Inl (Rpc Unavailable)))) (2, 0, []) =
     ((0, 3, [50 * 10 ^ 6, 100 * 10 ^ 6]), Inr (Some ''ok'')) \<and>
   retry_do \<lparr>ce_ctxErr = (\<lambda>_. False), ce_sleep = (\<lambda>_ w. (w, False)), ce_NewClient = (\<lambda>_. True)\<rparr> defaultRetryPolicy
      (\<lambda>w :: nat. if w = 0 then (0, Inr ''ok'') else (w - 1, Inl (Rpc Unavailable))) 2 = (0, Inr (Some ''ok''))"
proof -
  let ?env = "\<lparr>ce_ctxErr = (\<lambda>_. False), ce_sleep = (\<lambda>_ w. (w, False)), ce_NewClient = (\<lambda>_. True)\<rparr>"
  let ?op = "\<lambda>w :: nat. if w = 0 then (0, Inr ''ok'') else (w - 1, Inl (Rpc Unavailable))"
  have sane: "sane_policy defaultRetryPolicy" by (simp add: sane_policy_def defaultRetryPolicy_def)
  have run: "retry_do (timed ?env) defaultRetryPolicy (counted ?op) (2, 0, []) = ((0, 3, [50 * 10 ^ 6, 100 * 10 ^ 6]), Inr (Some ''ok''))"
    by (simp add: retry_do_def retry_loop.simps defaultRetryPolicy_def counted_def timed_def isTransient_def int64_id)
  then show ?thesis using retry_bounded [OF sane run] by blast
qed

section \<open>Outcomes of retries\<close>

lemma retry_do_ok: "0 < rp_maxAttempts rp \<Longrightarrow> op w = (w1, Inr r) \<Longrightarrow> retry_do env rp op w = (w1, Inr (Some r))"
  by (simp add: retry_do_def retry_loop.simps)

text \<open>A retried operation ends with a result of one of its calls, or because the context is done.\<close>

lemma retry_loop_result:
  assumes "retry_loop env rp op attempt delay err w = (w', r)" and "err = None \<longrightarrow> attempt < rp_maxAttempts rp"
  shows "case r of Inr None \<Rightarrow> False | Inr (Some x) \<Rightarrow> \<exists>v. op v = (w', Inr x)
     | Inl e \<Rightarrow> (e = CtxErr \<and> (\<exists>d v. ce_sleep env d v = (w', True))) \<or> err = Some e \<or> (\<exists>v v'. op v = (v', Inl e))"
  using assms
proof (induction env rp op attempt delay err w arbitrary: w' r rule: retry_loop.induct)
  case (1 env rp op attempt delay err w)
  obtain w1 r1 where op: "op w = (w1, r1)" by fastforce
  note unf = retry_loop.simps [of env rp op attempt delay err w]
  show ?case
  proof (cases "attempt < rp_maxAttempts rp \<and> (\<exists>e. r1 = Inl e \<and> isTransient e \<and> attempt \<noteq> rp_maxAttempts rp - 1)")
    case True
    then obtain e where e: "r1 = Inl e" "isTransient e" "attempt \<noteq> rp_maxAttempts rp - 1" "attempt < rp_maxAttempts rp" by blast
    obtain w2 over where sl: "ce_sleep env delay w1 = (w2, over)" by fastforce
    show ?thesis
    proof (cases over)
      case True
      then show ?thesis using "1.prems"(1) e op sl by (auto simp: unf)
    next
      case False
      define nextDelay where "nextDelay = (if int64 (delay * 2) > rp_maxDelay rp then rp_maxDelay rp else int64 (delay * 2))"
      have "retry_loop env rp op (attempt + 1) nextDelay (Some e) w2 = (w', r)"
        using "1.prems"(1) e op sl False by (simp add: unf nextDelay_def Let_def)
      from "1.IH" [OF e(4) op [symmetric] e(1) _ e(3) _ _ refl this [unfolded nextDelay_def]] have "case r of Inr None \<Rightarrow> False | Inr (Some x) \<Rightarrow> \<exists>v. op v = (w', Inr x)
         | Inl e' \<Rightarrow> (e' = CtxErr \<and> (\<exists>d v. ce_sleep env d v = (w', True))) \<or> Some e = Some e' \<or> (\<exists>v v'. op v = (v', Inl e'))"
        using e(2) sl False by simp
      then show ?thesis using op e(1) by (auto split: sum.splits option.splits)
    qed
  next
    case False
    then show ?thesis using "1.prems" op by (cases r1) (auto simp: unf split: if_splits option.splits)
  qed
qed

lemma retry_do_result:
  assumes "retry_do env rp op w = (w', r)" and "0 < rp_maxAttempts rp"
  obtains (response) x v where "r = Inr (Some x)" "op v = (w', Inr x)" | (failed) e v v' where "r = Inl e" "op v = (v', Inl e)"
    | (cancelled) d v where "r = Inl CtxErr" "ce_sleep env d v = (w', True)"
  using retry_loop_result [OF assms(1) [unfolded retry_do_def]] assms(2) that
  by (cases r) (auto split: option.splits)

end
