(* ===== verification/Client.thy ===== *)
theory Client
  imports Client_Retry
begin

text \<open>
  The client library (\<^verbatim>\<open>pkg/client/client.go\<close>). The services it calls are the record \<open>services\<close>: one
  function per remote procedure that takes the address called, the request and the world, as gRPC
  delivers it with all failures of the network. The client's own state is its pool of connections.
\<close>

record 'w services =
  sv_OpenForWrite :: "string \<Rightarrow> string \<Rightarrow> string list \<Rightarrow> 'w \<Rightarrow> 'w \<times> (error_code + ChunkLocation list)"
  sv_FinalizeWrite :: "string \<Rightarrow> string \<Rightarrow> string list \<Rightarrow> int \<Rightarrow> 'w \<Rightarrow> 'w \<times> (error_code + ProtoFileInfo)"
  sv_OpenForRead :: "string \<Rightarrow> string \<Rightarrow> 'w \<Rightarrow> 'w \<times> (error_code + OpenForReadResponse)"
  sv_Stat :: "string \<Rightarrow> string \<Rightarrow> 'w \<Rightarrow> 'w \<times> (error_code + ProtoFileInfo)"
  sv_ListDir :: "string \<Rightarrow> string \<Rightarrow> 'w \<Rightarrow> 'w \<times> (error_code + ProtoFileInfo list)"
  sv_DeleteFile :: "string \<Rightarrow> string \<Rightarrow> 'w \<Rightarrow> 'w \<times> (error_code + unit)"
  sv_ClusterStatus :: "string \<Rightarrow> 'w \<Rightarrow> 'w \<times> (error_code + ClusterStatusResponse)"
  sv_WriteChunk :: "string \<Rightarrow> WriteChunkRequest \<Rightarrow> 'w \<Rightarrow> 'w \<times> (error_code + string)"
  sv_ReadChunk :: "string \<Rightarrow> string \<Rightarrow> 'w \<Rightarrow> 'w \<times> (error_code + bytes)"

record Client =
  c_pool :: pool
  c_chunkSize :: int
  c_retry :: retryPolicy

definition client_New :: "string list \<Rightarrow> int \<Rightarrow> client_error + Client" where
  "client_New masterAddrs chunkSize =
     (if masterAddrs = [] then Inl NoMasterAddrs
      else Inr \<lparr>c_pool = newPool masterAddrs, c_chunkSize = (if chunkSize \<le> 0 then DefaultChunkSize else chunkSize),
                c_retry = defaultRetryPolicy\<rparr>)"

definition client_Close :: "(string \<Rightarrow> bool) \<Rightarrow> Client \<Rightarrow> Client \<times> string list" where
  "client_Close fails c = (case pool_close fails (c_pool c) of (p, errs) \<Rightarrow> (c\<lparr>c_pool := p\<rparr>, errs))"

text \<open>An error of a remote procedure as the client sees it.\<close>

definition rpc :: "('w \<Rightarrow> 'w \<times> (error_code + 'r)) \<Rightarrow> 'w \<Rightarrow> 'w \<times> (client_error + 'r)" where
  "rpc f w = (case f w of (w', Inl code) \<Rightarrow> (w', Inl (Rpc code)) | (w', Inr r) \<Rightarrow> (w', Inr r))"

section \<open>Failover between masters\<close>

primrec master_loop :: "'w client_env \<Rightarrow> retryPolicy \<Rightarrow> (string \<Rightarrow> 'w \<Rightarrow> 'w \<times> (error_code + 'r)) \<Rightarrow> string list \<Rightarrow>
    client_error option \<Rightarrow> pool \<Rightarrow> 'w \<Rightarrow> pool \<times> 'w \<times> (client_error + 'r option)" where
  "master_loop env rp fn [] lastErr p w = (p, w, Inl (case lastErr of None \<Rightarrow> NoMaster | Some e \<Rightarrow> e))"
| "master_loop env rp fn (addr # addrs) lastErr p w =
     (if ce_ctxErr env w then (p, w, Inl CtxErr)
      else case pool_conn env addr p of
        (p1, Inl e) \<Rightarrow> master_loop env rp fn addrs (Some e) p1 w
      | (p1, Inr cc) \<Rightarrow>
          (case retry_do env rp (rpc (fn cc)) w of
             (w1, Inr r) \<Rightarrow> (p1, w1, Inr r)
           | (w1, Inl e) \<Rightarrow>
               if \<not> isTransient e then (p1, w1, Inl e)
               else master_loop env rp fn addrs (Some e) p1 w1))"

definition callMaster :: "'w client_env \<Rightarrow> (string \<Rightarrow> 'w \<Rightarrow> 'w \<times> (error_code + 'r)) \<Rightarrow> Client \<Rightarrow> 'w \<Rightarrow>
    Client \<times> 'w \<times> (client_error + 'r option)" where
  "callMaster env fn c w =
     (case master_loop env (c_retry c) fn (pl_masterAddrs (c_pool c)) None (c_pool c) w of
        (p, w', r) \<Rightarrow> (c\<lparr>c_pool := p\<rparr>, w', r))"

definition callAdmin :: "'w client_env \<Rightarrow> (string \<Rightarrow> 'w \<Rightarrow> 'w \<times> (error_code + 'r)) \<Rightarrow> Client \<Rightarrow> 'w \<Rightarrow>
    Client \<times> 'w \<times> (client_error + 'r option)" where
  "callAdmin env fn c w =
     (case master_loop env (c_retry c) fn (pl_masterAddrs (c_pool c)) None (c_pool c) w of
        (p, w', r) \<Rightarrow> (c\<lparr>c_pool := p\<rparr>, w', r))"

section \<open>Put\<close>

definition client_writeChunk :: "'w client_env \<Rightarrow> 'w services \<Rightarrow> ChunkLocation \<Rightarrow> chunk \<Rightarrow> Client \<Rightarrow> 'w \<Rightarrow>
    Client \<times> 'w \<times> client_error option" where
  "client_writeChunk env S placement ch c w =
     (case lc_Nodes placement of
        [] \<Rightarrow> (c, w, Some (NoChunkServer (ck_id ch)))
      | primary # secondaries \<Rightarrow>
          let downstream = map ni_Address secondaries
          in (case chunkClient env (ni_Address primary) (c_pool c) of
                (p1, Inl e) \<Rightarrow> (c\<lparr>c_pool := p1\<rparr>, w, Some e)
              | (p1, Inr cc) \<Rightarrow>
                  (case retry_do env (c_retry c)
                      (rpc (sv_WriteChunk S cc \<lparr>wr_ChunkId = ck_id ch, wr_Data = ck_data ch, wr_Downstream = downstream\<rparr>)) w of
                     (w1, Inl e) \<Rightarrow> (c\<lparr>c_pool := p1\<rparr>, w1, Some e)
                   | (w1, Inr _) \<Rightarrow> (c\<lparr>c_pool := p1\<rparr>, w1, None))))"

primrec write_loop :: "'w client_env \<Rightarrow> 'w services \<Rightarrow> (ChunkLocation \<times> chunk) list \<Rightarrow> Client \<Rightarrow> 'w \<Rightarrow>
    Client \<times> 'w \<times> client_error option" where
  "write_loop env S [] c w = (c, w, None)"
| "write_loop env S (pc # pcs) c w =
     (case client_writeChunk env S (fst pc) (snd pc) c w of
        (c1, w1, Some e) \<Rightarrow> (c1, w1, Some e)
      | (c1, w1, None) \<Rightarrow> write_loop env S pcs c1 w1)"

text \<open>\<open>local\<close> is the local file, \<open>None\<close> if it cannot be opened.\<close>

definition client_Put :: "'w client_env \<Rightarrow> 'w services \<Rightarrow> input option \<Rightarrow> string \<Rightarrow> Client \<Rightarrow> 'w \<Rightarrow>
    Client \<times> 'w \<times> client_error option" where
  "client_Put env S local remotePath c w =
     (case local of
        None \<Rightarrow> (c, w, Some OpenFailed)
      | Some f \<Rightarrow>
          (case splitChunks f (c_chunkSize c) of
             Inl e \<Rightarrow> (c, w, Some e)
           | Inr chunks \<Rightarrow>
               let chunkIDs = map ck_id chunks;
                   total = foldl (\<lambda>t ch. int64 (t + int (length (ck_data ch)))) 0 chunks
               in (case callMaster env (\<lambda>m. sv_OpenForWrite S m remotePath chunkIDs) c w of
                     (c1, w1, Inl e) \<Rightarrow> (c1, w1, Some (Wrapped ''open for write'' e))
                   | (c1, w1, Inr plan) \<Rightarrow>
                       let placements = (case plan of None \<Rightarrow> [] | Some ps \<Rightarrow> ps)
                       in if length placements \<noteq> length chunks
                          then (c1, w1, Some (PlacementCount (length placements) (length chunks)))
                          else (case write_loop env S (zip placements chunks) c1 w1 of
                              (c2, w2, Some e) \<Rightarrow> (c2, w2, Some e)
                            | (c2, w2, None) \<Rightarrow>
                                (case callMaster env (\<lambda>m. sv_FinalizeWrite S m remotePath chunkIDs total) c2 w2 of
                                   (c3, w3, Inl e) \<Rightarrow> (c3, w3, Some (Wrapped ''finalize write'' e))
                                 | (c3, w3, Inr _) \<Rightarrow> (c3, w3, None))))))"

section \<open>Get\<close>

primrec replica_loop :: "'w client_env \<Rightarrow> 'w services \<Rightarrow> string \<Rightarrow> NodeInfo list \<Rightarrow> client_error option \<Rightarrow> Client \<Rightarrow> 'w \<Rightarrow>
    Client \<times> 'w \<times> (client_error + bytes)" where
  "replica_loop env S chunkID [] lastErr c w =
     (c, w, Inl (Wrapped ''read chunk'' (case lastErr of None \<Rightarrow> NoReplicas chunkID | Some e \<Rightarrow> e)))"
| "replica_loop env S chunkID (node # nodes) lastErr c w =
     (case chunkClient env (ni_Address node) (c_pool c) of
        (p1, Inl e) \<Rightarrow> replica_loop env S chunkID nodes (Some e) (c\<lparr>c_pool := p1\<rparr>) w
      | (p1, Inr cc) \<Rightarrow>
          let c1 = c\<lparr>c_pool := p1\<rparr>
          in (case retry_do env (c_retry c) (rpc (sv_ReadChunk S cc chunkID)) w of
                (w1, Inl e) \<Rightarrow> replica_loop env S chunkID nodes (Some e) c1 w1
              | (w1, Inr resp) \<Rightarrow>
                  let data = (case resp of None \<Rightarrow> [] | Some d \<Rightarrow> d)
                  in (case verifyChunk chunkID data of
                        Some e \<Rightarrow> replica_loop env S chunkID nodes (Some e) c1 w1
                      | None \<Rightarrow> (c1, w1, Inr data))))"

definition client_readChunk :: "'w client_env \<Rightarrow> 'w services \<Rightarrow> string \<Rightarrow> ChunkLocation \<Rightarrow> Client \<Rightarrow> 'w \<Rightarrow>
    Client \<times> 'w \<times> (client_error + bytes)" where
  "client_readChunk env S chunkID loc c w = replica_loop env S chunkID (lc_Nodes loc) None c w"

text \<open>
  The loop of \<^verbatim>\<open>Get\<close> over the chunks with their index; \<open>wrerr i\<close> is the number of bytes the write of chunk
  \<open>i\<close> stores before it fails, if it fails. The result has what the local file then holds.
\<close>

primrec get_loop :: "'w client_env \<Rightarrow> 'w services \<Rightarrow> (nat \<Rightarrow> nat option) \<Rightarrow> ChunkLocation list \<Rightarrow> nat \<Rightarrow> string list \<Rightarrow> bytes \<Rightarrow> Client \<Rightarrow> 'w \<Rightarrow>
    Client \<times> 'w \<times> bytes \<times> client_error option" where
  "get_loop env S wrerr locations i [] out c w = (c, w, out, None)"
| "get_loop env S wrerr locations i (chunkID # chunkIDs) out c w =
     (if i \<ge> length locations then (c, w, out, Some (MissingLocation i chunkID))
      else case client_readChunk env S chunkID (locations ! i) c w of
        (c1, w1, Inl e) \<Rightarrow> (c1, w1, out, Some e)
      | (c1, w1, Inr data) \<Rightarrow>
          (case wrerr i of
             Some k \<Rightarrow> (c1, w1, out @ take k data, Some WriteFailed)
           | None \<Rightarrow> get_loop env S wrerr locations (Suc i) chunkIDs (out @ data) c1 w1))"

text \<open>The result has the content of the local file, \<open>None\<close> if it was not created.\<close>

definition client_Get :: "'w client_env \<Rightarrow> 'w services \<Rightarrow> bool \<Rightarrow> (nat \<Rightarrow> nat option) \<Rightarrow> string \<Rightarrow> Client \<Rightarrow> 'w \<Rightarrow>
    Client \<times> 'w \<times> bytes option \<times> client_error option" where
  "client_Get env S createFails wrerr remotePath c w =
     (case callMaster env (\<lambda>m. sv_OpenForRead S m remotePath) c w of
        (c1, w1, Inl e) \<Rightarrow> (c1, w1, None, Some (Wrapped ''open for read'' e))
      | (c1, w1, Inr resp) \<Rightarrow>
          if createFails then (c1, w1, None, Some CreateFailed)
          else let locations = (case resp of None \<Rightarrow> [] | Some r \<Rightarrow> or_Locations r);
                   chunkIDs = (case resp of None \<Rightarrow> [] | Some r \<Rightarrow> pf_ChunkIds (or_File r))
            in (case get_loop env S wrerr locations 0 chunkIDs [] c1 w1 of
                  (c2, w2, out, err) \<Rightarrow> (c2, w2, Some out, err)))"

section \<open>Stat, ListDir, Delete and Status\<close>

definition client_Stat :: "'w client_env \<Rightarrow> 'w services \<Rightarrow> string \<Rightarrow> Client \<Rightarrow> 'w \<Rightarrow> Client \<times> 'w \<times> (client_error + ProtoFileInfo option)" where
  "client_Stat env S path c w =
     (case callMaster env (\<lambda>m. sv_Stat S m path) c w of
        (c1, w1, Inl e) \<Rightarrow> (c1, w1, Inl (Wrapped ''stat'' e))
      | (c1, w1, Inr resp) \<Rightarrow> (c1, w1, Inr resp))"

definition client_ListDir :: "'w client_env \<Rightarrow> 'w services \<Rightarrow> string \<Rightarrow> Client \<Rightarrow> 'w \<Rightarrow> Client \<times> 'w \<times> (client_error + ProtoFileInfo list)" where
  "client_ListDir env S path c w =
     (case callMaster env (\<lambda>m. sv_ListDir S m path) c w of
        (c1, w1, Inl e) \<Rightarrow> (c1, w1, Inl (Wrapped ''list'' e))
      | (c1, w1, Inr resp) \<Rightarrow> (c1, w1, Inr (case resp of None \<Rightarrow> [] | Some es \<Rightarrow> es)))"

definition client_Delete :: "'w client_env \<Rightarrow> 'w services \<Rightarrow> string \<Rightarrow> Client \<Rightarrow> 'w \<Rightarrow> Client \<times> 'w \<times> client_error option" where
  "client_Delete env S path c w =
     (case callMaster env (\<lambda>m. sv_DeleteFile S m path) c w of
        (c1, w1, Inl e) \<Rightarrow> (c1, w1, Some (Wrapped ''delete'' e))
      | (c1, w1, Inr _) \<Rightarrow> (c1, w1, None))"

definition client_Status :: "'w client_env \<Rightarrow> 'w services \<Rightarrow> Client \<Rightarrow> 'w \<Rightarrow> Client \<times> 'w \<times> (client_error + ClusterStatusResponse option)" where
  "client_Status env S c w =
     (case callAdmin env (\<lambda>a. sv_ClusterStatus S a) c w of
        (c1, w1, Inl e) \<Rightarrow> (c1, w1, Inl (Wrapped ''cluster status'' e))
      | (c1, w1, Inr resp) \<Rightarrow> (c1, w1, Inr resp))"

section \<open>Failover reaches a working master\<close>

text \<open>The context is never done.\<close>

definition patient :: "'w client_env \<Rightarrow> bool" where
  "patient env \<longleftrightarrow> (\<forall>w. \<not> ce_ctxErr env w) \<and> (\<forall>d w. \<not> snd (ce_sleep env d w))"

lemma patient_sleep: "patient env \<Longrightarrow> ce_sleep env d w \<noteq> (w', True)"
  by (metis patient_def snd_conv)

lemma pool_conn_result:
  "pool_conn env addr p = (p', r) \<Longrightarrow> pl_masterAddrs p' = pl_masterAddrs p \<and> r \<in> {Inr addr, Inl (DialFailed addr)} \<and>
     (ce_NewClient env addr \<longrightarrow> r = Inr addr)"
  by (auto simp: pool_conn_def split: if_splits)

lemma rpc_Inr: "rpc f w = (w', Inr r) \<longleftrightarrow> f w = (w', Inr r)"
  by (auto simp: rpc_def split: prod.splits sum.splits)

lemma rpc_Inl: "rpc f w = (w', Inl e) \<longleftrightarrow> (\<exists>code. f w = (w', Inl code) \<and> e = Rpc code)"
  by (auto simp: rpc_def split: prod.splits sum.splits)

lemma master_loop_failover:
  assumes "patient env" and "0 < rp_maxAttempts rp" and "ce_NewClient env m"
    and "\<And>a w w' code. a \<in> set as \<Longrightarrow> fn a w = (w', Inl code) \<Longrightarrow> isTransient (Rpc code)"
    and "\<And>w. \<exists>w' r. fn m w = (w', Inr r)"
  shows "\<exists>p' w' r. master_loop env rp fn (as @ m # bs) lastErr p w = (p', w', Inr (Some r))"
  using assms(4)
proof (induction as arbitrary: lastErr p w)
  case Nil
  obtain p1 where conn: "pool_conn env m p = (p1, Inr m)" using pool_conn_result [of env m p] assms(3) by (metis surj_pair)
  obtain w' r where "fn m w = (w', Inr r)" using assms(5) by blast
  then have "retry_do env rp (rpc (fn m)) w = (w', Inr (Some r))" by (intro retry_do_ok assms(2)) (simp add: rpc_Inr)
  then show ?case using conn assms(1) by (simp add: patient_def)
next
  case (Cons a as)
  have ctx: "\<not> ce_ctxErr env w" using assms(1) by (simp add: patient_def)
  obtain p1 x where conn: "pool_conn env a p = (p1, x)" by fastforce
  have IH: "\<exists>p' w' r. master_loop env rp fn (as @ m # bs) err p w = (p', w', Inr (Some r))" for err p w
    by (rule Cons.IH) (meson Cons.prems list.set_intros(2))
  show ?case
  proof (cases x)
    case (Inl e)
    then show ?thesis using IH ctx conn by simp
  next
    case (Inr cc)
    then have cc: "cc = a" using pool_conn_result [OF conn] by simp
    obtain w1 r where run: "retry_do env rp (rpc (fn a)) w = (w1, r)" by fastforce
    from run assms(2) show ?thesis
    proof (cases rule: retry_do_result)
      case (response y v)
      then show ?thesis using ctx conn Inr cc run by simp
    next
      case (failed e v v')
      then have "isTransient e" using Cons.prems [of a] by (auto simp: rpc_Inl)
      then show ?thesis using ctx conn Inr cc run failed(1) IH by simp
    next
      case (cancelled d v)
      then show ?thesis using patient_sleep [OF assms(1)] by blast
    qed
  qed
qed


text \<open>Two masters: the first is down, the second answers.\<close>

definition calm_client_env :: "'w client_env" where
  "calm_client_env = \<lparr>ce_ctxErr = (\<lambda>_. False), ce_sleep = (\<lambda>_ w. (w, False)), ce_NewClient = (\<lambda>_. True)\<rparr>"

lemma patient_calm: "patient calm_client_env"
  by (simp add: patient_def calm_client_env_def)


section \<open>Reading replicas\<close>

lemma verifyChunk_None: "verifyChunk chunkID data = None \<longleftrightarrow> Hash data = chunkID"
  by (simp add: verifyChunk_def hashChunk_Hash)

lemma chunkClient_result:
  "chunkClient env addr p = (p', r) \<Longrightarrow> pl_masterAddrs p' = pl_masterAddrs p \<and> r \<in> {Inr addr, Inl (DialFailed addr)} \<and>
     (ce_NewClient env addr \<longrightarrow> r = Inr addr)"
  unfolding chunkClient_def by (rule pool_conn_result)

lemma replica_loop_verified:
  "replica_loop env S chunkID nodes lastErr c w = (c', w', Inr data) \<Longrightarrow> Hash data = chunkID"
  by (induction nodes arbitrary: lastErr c w) (auto simp: Let_def verifyChunk_None split: prod.splits sum.splits option.splits)

text \<open>A replica that delivers the chunk whenever it is asked.\<close>

definition good_replica :: "'w client_env \<Rightarrow> 'w services \<Rightarrow> string \<Rightarrow> NodeInfo \<Rightarrow> bool" where
  "good_replica env S chunkID node \<longleftrightarrow> ce_NewClient env (ni_Address node) \<and>
     (\<forall>w. \<exists>w' data. sv_ReadChunk S (ni_Address node) chunkID w = (w', Inr data) \<and> Hash data = chunkID)"

lemma replica_loop_good:
  assumes "0 < rp_maxAttempts (c_retry c)" and "\<exists>node \<in> set nodes. good_replica env S chunkID node"
  shows "\<exists>c' w' data. replica_loop env S chunkID nodes lastErr c w = (c', w', Inr data)"
  using assms
proof (induction nodes arbitrary: lastErr c w)
  case (Cons node nodes)
  obtain p1 x where conn: "chunkClient env (ni_Address node) (c_pool c) = (p1, x)" by fastforce
  show ?case
  proof (cases "good_replica env S chunkID node")
    case True
    then have x: "x = Inr (ni_Address node)" using chunkClient_result [OF conn] by (simp add: good_replica_def)
    obtain w' data where "sv_ReadChunk S (ni_Address node) chunkID w = (w', Inr data)" and h: "Hash data = chunkID"
      using True unfolding good_replica_def by blast
    then have "retry_do env (c_retry c) (rpc (sv_ReadChunk S (ni_Address node) chunkID)) w = (w', Inr (Some data))"
      by (intro retry_do_ok Cons.prems(1)) (simp add: rpc_Inr)
    moreover have "verifyChunk chunkID data = None" using h by (simp add: verifyChunk_None)
    ultimately show ?thesis using conn x by simp
  next
    case False
    then have ex: "\<exists>n \<in> set nodes. good_replica env S chunkID n" using Cons.prems(2) by simp
    then have IH: "\<exists>c' w' data. replica_loop env S chunkID nodes err (c\<lparr>c_pool := p1\<rparr>) v = (c', w', Inr data)" for err v
      using Cons.IH [of "c\<lparr>c_pool := p1\<rparr>"] Cons.prems(1) by simp
    show ?thesis
      using conn IH by (auto simp: Let_def split: sum.splits option.splits prod.splits)
  qed
qed simp

text \<open>
  C23: the client never takes damaged data for a chunk: what \<^verbatim>\<open>readChunk\<close> returns has the hash that is the
  chunk's id, whatever the servers and the network do. And it returns it when one of the listed
  replicas delivers the chunk, however the others fail or lie.
\<close>

theorem read_chunk_verified:
  "(client_readChunk env S chunkID loc c w = (c', w', Inr data) \<longrightarrow> Hash data = chunkID) \<and>
   (0 < rp_maxAttempts (c_retry c) \<and> (\<exists>node \<in> set (lc_Nodes loc). good_replica env S chunkID node) \<longrightarrow>
     (\<exists>c' w' data. client_readChunk env S chunkID loc c w = (c', w', Inr data)))"
  using replica_loop_verified [of env S chunkID "lc_Nodes loc" None c w c' w' data]
    replica_loop_good [of c "lc_Nodes loc" env S chunkID None w]
  by (simp add: client_readChunk_def)

text \<open>One replica that lies and one that is good.\<close>

definition two_replicas :: "unit services" where
  "two_replicas = \<lparr>sv_OpenForWrite = (\<lambda>_ _ _ w. (w, Inl Unimplemented)), sv_FinalizeWrite = (\<lambda>_ _ _ _ w. (w, Inl Unimplemented)),
     sv_OpenForRead = (\<lambda>_ _ w. (w, Inl Unimplemented)), sv_Stat = (\<lambda>_ _ w. (w, Inl Unimplemented)),
     sv_ListDir = (\<lambda>_ _ w. (w, Inl Unimplemented)), sv_DeleteFile = (\<lambda>_ _ w. (w, Inl Unimplemented)),
     sv_ClusterStatus = (\<lambda>_ w. (w, Inl Unimplemented)), sv_WriteChunk = (\<lambda>_ _ w. (w, Inl Unimplemented)),
     sv_ReadChunk = (\<lambda>addr _ w. (w, Inr (if addr = ''liar'' then [9] else [7])))\<rparr>"

theorem read_chunk_verified_witness:
  "\<exists>c c' w' data. client_New [''m1''] 0 = Inr c \<and>
     client_readChunk calm_client_env two_replicas (Hash [7])
       \<lparr>lc_ChunkId = Hash [7], lc_Nodes = [\<lparr>ni_NodeId = ''a'', ni_Address = ''liar''\<rparr>, \<lparr>ni_NodeId = ''b'', ni_Address = ''good''\<rparr>]\<rparr> c () =
       (c', w', Inr data) \<and> Hash data = Hash [7]"
proof -
  define c where "c = \<lparr>c_pool = newPool [''m1''], c_chunkSize = DefaultChunkSize, c_retry = defaultRetryPolicy\<rparr>"
  let ?loc = "\<lparr>lc_ChunkId = Hash [7], lc_Nodes = [\<lparr>ni_NodeId = ''a'', ni_Address = ''liar''\<rparr>, \<lparr>ni_NodeId = ''b'', ni_Address = ''good''\<rparr>]\<rparr>"
  have new: "client_New [''m1''] 0 = Inr c" by (simp add: client_New_def c_def)
  have good: "good_replica calm_client_env two_replicas (Hash [7]) \<lparr>ni_NodeId = ''b'', ni_Address = ''good''\<rparr>"
    by (simp add: good_replica_def calm_client_env_def two_replicas_def)
  have attempts: "0 < rp_maxAttempts (c_retry c)" by (simp add: c_def defaultRetryPolicy_def)
  have "\<exists>node \<in> set (lc_Nodes ?loc). good_replica calm_client_env two_replicas (Hash [7]) node" using good by simp
  then obtain c' w' data where read: "client_readChunk calm_client_env two_replicas (Hash [7]) ?loc c () = (c', w', Inr data)"
    using read_chunk_verified [of calm_client_env two_replicas "Hash [7]" ?loc c "()"] attempts by meson
  have "Hash data = Hash [7]" by (rule mp [OF conjunct1 [OF read_chunk_verified] read])
  with new read show ?thesis by (intro exI conjI)
qed

section \<open>Downloads\<close>

text \<open>
  \<open>downloaded chunkIDs content complete\<close>: the content is made of data with the hashes \<open>chunkIDs\<close>, in order; if it
  is not complete, it ends after some of the chunks or within one.
\<close>

inductive downloaded :: "string list \<Rightarrow> bytes \<Rightarrow> bool \<Rightarrow> bool" where
  downloaded_all: "downloaded [] [] True"
| downloaded_stop: "downloaded chunkIDs [] False"
| downloaded_part: "Hash data = chunkID \<Longrightarrow> downloaded (chunkID # chunkIDs) (take k data) False"
| downloaded_chunk: "Hash data = chunkID \<Longrightarrow> downloaded chunkIDs content complete \<Longrightarrow>
    downloaded (chunkID # chunkIDs) (data @ content) complete"

lemma downloaded_complete: "downloaded chunkIDs content True \<Longrightarrow> \<exists>ds. content = concat ds \<and> map Hash ds = chunkIDs"
proof (induction chunkIDs content True rule: downloaded.induct)
  case (downloaded_chunk data chunkID chunkIDs content)
  then obtain ds where "content = concat ds" "map Hash ds = chunkIDs" by blast
  with downloaded_chunk(1) show ?case by (intro exI [of _ "data # ds"]) simp
qed simp_all

lemma get_loop_verified:
  "get_loop env S wrerr locations i chunkIDs out c w = (c', w', res, err) \<Longrightarrow> \<exists>x. res = out @ x \<and> downloaded chunkIDs x (err = None)"
proof (induction chunkIDs arbitrary: i out c w)
  case Nil
  then show ?case by (simp add: downloaded_all)
next
  case (Cons chunkID chunkIDs)
  obtain c1 w1 r where read: "client_readChunk env S chunkID (locations ! i) c w = (c1, w1, r)" using prod_cases3 by blast
  consider (stop) e where "res = out" "err = Some e"
    | (short) k data where "r = Inr data" "res = out @ take k data" "err = Some WriteFailed"
    | (go) data where "r = Inr data" "get_loop env S wrerr locations (Suc i) chunkIDs (out @ data) c1 w1 = (c', w', res, err)"
    using Cons.prems read by (cases r; cases "wrerr i") (auto split: if_splits)
  then show ?case
  proof cases
    case stop
    then show ?thesis by (simp add: downloaded_stop)
  next
    case short
    have "Hash data = chunkID" using read unfolding client_readChunk_def short(1) by (rule replica_loop_verified)
    with short(2,3) show ?thesis by (simp add: downloaded_part)
  next
    case go
    have h: "Hash data = chunkID" using read unfolding client_readChunk_def go(1) by (rule replica_loop_verified)
    from Cons.IH [OF go(2)] obtain x where "res = out @ data @ x" "downloaded chunkIDs x (err = None)" by auto
    then show ?thesis using downloaded_chunk [OF h, of chunkIDs x "err = None"] by simp
  qed
qed

text \<open>
  C22: downloads are intact. When \<^verbatim>\<open>Get\<close> succeeds, the local file is the concatenation of byte strings whose
  hashes are, in order, the chunk ids of the file in the master's answer. When it fails after creating
  the file, the file holds such data for a prefix of the chunks, and at most a part of one further chunk.
\<close>

theorem get_intact:
  assumes "client_Get env S createFails wrerr remotePath c w = (c', w', Some content, err)"
    and "callMaster env (\<lambda>m. sv_OpenForRead S m remotePath) c w = (c1, w1, Inr (Some resp))"
  shows "downloaded (pf_ChunkIds (or_File resp)) content (err = None) \<and>
    (err = None \<longrightarrow> (\<exists>ds. content = concat ds \<and> map Hash ds = pf_ChunkIds (or_File resp)))"
proof -
  have "get_loop env S wrerr (or_Locations resp) 0 (pf_ChunkIds (or_File resp)) [] c1 w1 = (c', w', content, err)"
    using assms by (auto simp: client_Get_def split: if_splits prod.splits)
  from get_loop_verified [OF this] have "downloaded (pf_ChunkIds (or_File resp)) content (err = None)" by simp
  then show ?thesis using downloaded_complete [of "pf_ChunkIds (or_File resp)" content] by (cases err) simp_all
qed

theorem get_intact_witness:
  "\<exists>S c c' w'. client_New [''m1''] 0 = Inr c \<and>
     client_Get (calm_client_env :: unit client_env) S False (\<lambda>_. None) ''/f'' c () = (c', w', Some [7], None) \<and> downloaded [Hash [7]] [7] True"
proof -
  define c where "c = \<lparr>c_pool = newPool [''m1''], c_chunkSize = DefaultChunkSize, c_retry = defaultRetryPolicy\<rparr>"
  define resp where "resp = \<lparr>or_File = \<lparr>pf_Path = ''/f'', pf_IsDir = False, pf_Size = 1, pf_ChunkIds = [Hash [7]], pf_Mode = 0,
      pf_CreatedAtUnix = 0, pf_UpdatedAtUnix = 0\<rparr>,
    or_Locations = [\<lparr>lc_ChunkId = Hash [7], lc_Nodes = [\<lparr>ni_NodeId = ''b'', ni_Address = ''good''\<rparr>]\<rparr>]\<rparr>"
  let ?S = "two_replicas\<lparr>sv_OpenForRead := (\<lambda>_ _ w. (w, Inr resp))\<rparr>"
  let ?c = "c\<lparr>c_pool := (c_pool c)\<lparr>pl_conns := [(''m1'', ())]\<rparr>\<rparr>"
  have new: "client_New [''m1''] 0 = Inr c" by (simp add: client_New_def c_def)
  have call: "callMaster (calm_client_env :: unit client_env) (\<lambda>m. sv_OpenForRead ?S m ''/f'') c () = (?c, (), Inr (Some resp))"
    by (simp add: callMaster_def c_def newPool_def pool_conn_def calm_client_env_def retry_do_def retry_loop.simps defaultRetryPolicy_def rpc_def)
  obtain c2 where "get_loop calm_client_env ?S (\<lambda>_. None) (or_Locations resp) 0 (pf_ChunkIds (or_File resp)) [] ?c () = (c2, (), [7], None)"
    by (simp add: resp_def client_readChunk_def chunkClient_def pool_conn_def calm_client_env_def retry_do_def retry_loop.simps rpc_def
        two_replicas_def verifyChunk_def hashChunk_Hash c_def newPool_def defaultRetryPolicy_def Let_def)
  then have got: "client_Get calm_client_env ?S False (\<lambda>_. None) ''/f'' c () = (c2, (), Some [7], None)"
    by (simp only: client_Get_def call prod.case sum.case if_False Let_def option.case)
  have "downloaded (pf_ChunkIds (or_File resp)) [7] True" using get_intact [OF got call] by simp
  then have "downloaded [Hash [7]] [7] True" by (simp add: resp_def)
  with new got show ?thesis by (intro exI conjI)
qed

end
