(* ===== verification/Master.thy ===== *)
theory Master
  imports Raft_Node Go_Strings Go_Paths Lease Chunk_Map Namespace Rpc_Base
begin

text \<open>
  The master server (\<^verbatim>\<open>internal/master/server.go\<close>). Namespace mutations are commands in the Raft log: a
  handler proposes one and waits for it to be applied. The state is the record \<open>master\<close>, over any
  type of namespace state; \<open>N\<close> is the namespace's interface. \<^verbatim>\<open>encoding/gob\<close> is the parameter \<open>G\<close>, with
  its round trip as the law \<open>gob_ok\<close>. Clock readings are arguments, and so is what happens at this master
  while a handler waits.
\<close>

section \<open>Commands\<close>

definition opCreate :: byte where "opCreate = 0"
definition opFinalize :: byte where "opFinalize = 1"
definition opDelete :: byte where "opDelete = 2"

record command =
  cmd_OpID :: string
  cmd_Kind :: byte
  cmd_Path :: string
  cmd_ChunkIDs :: "string list"
  cmd_Size :: int

definition zero_command :: command where
  "zero_command = \<lparr>cmd_OpID = '''', cmd_Kind = 0, cmd_Path = '''', cmd_ChunkIDs = [], cmd_Size = 0\<rparr>"

record gob_codec =
  gob_Encode :: "command \<Rightarrow> bytes option"
  gob_Decode :: "bytes \<Rightarrow> command option"

definition gob_ok :: "gob_codec \<Rightarrow> bool" where
  "gob_ok G \<longleftrightarrow> (\<forall>cmd. - (2 ^ 63) \<le> cmd_Size cmd \<and> cmd_Size cmd < 2 ^ 63 \<longrightarrow>
     (\<exists>b. gob_Encode G cmd = Some b \<and> gob_Decode G b = Some cmd))"

definition encode :: "gob_codec \<Rightarrow> command \<Rightarrow> bytes option" where
  "encode G cmd = gob_Encode G cmd"

definition decode :: "gob_codec \<Rightarrow> bytes \<Rightarrow> command option" where
  "decode G data = gob_Decode G data"

datatype apply_error = MetaErr meta_error | UnknownOpKind byte

section \<open>State\<close>

text \<open>
  A waiter is a channel of capacity one: \<open>None\<close> while it is empty, \<open>Some err\<close> when it holds the result of
  an apply. \<open>ms_chunkMap\<close> is the map that the monitor sweeps.
\<close>

record 's master =
  ms_ns :: 's
  ms_leases :: LeaseManager
  ms_chunkNodes :: "NodeInfo list"
  ms_rf :: int
  ms_node :: Node
  ms_metrics :: Metrics
  ms_monitor :: "Monitor option"
  ms_chunkMap :: "ChunkMap option"
  ms_opSeq :: u64
  ms_waiters :: "(string, apply_error option option) gomap"
  ms_chunkCounts :: "(string, int) gomap"

definition master_New :: "'s \<Rightarrow> LeaseManager \<Rightarrow> Node \<Rightarrow> NodeInfo list \<Rightarrow> int \<Rightarrow> Metrics \<Rightarrow> Monitor option \<Rightarrow> ChunkMap option \<Rightarrow> 's master" where
  "master_New ns leases node chunkNodes rf metrics monitor chunkMap =
     \<lparr>ms_ns = ns, ms_leases = leases, ms_chunkNodes = chunkNodes, ms_rf = (if rf \<le> 0 then DefaultReplicationFactor else rf),
      ms_node = node, ms_metrics = metrics, ms_monitor = monitor, ms_chunkMap = chunkMap, ms_opSeq = 0,
      ms_waiters = [], ms_chunkCounts = []\<rparr>"

section \<open>Applying commands\<close>

definition is_ErrNotFound :: "meta_error \<Rightarrow> bool" where
  "is_ErrNotFound err = (case err of ErrNotFound _ \<Rightarrow> True | _ \<Rightarrow> False)"

definition is_ErrAlreadyExists :: "meta_error \<Rightarrow> bool" where
  "is_ErrAlreadyExists err = (case err of ErrAlreadyExists _ \<Rightarrow> True | _ \<Rightarrow> False)"

definition placement :: "'s master \<Rightarrow> NodeInfo list" where
  "placement m =
     (let n = (if ms_rf m > int (length (ms_chunkNodes m)) then int (length (ms_chunkNodes m)) else ms_rf m)
      in take (nat n) (ms_chunkNodes m))"

primrec location_loop :: "string \<Rightarrow> NodeInfo list \<Rightarrow> ChunkMap \<Rightarrow> ChunkMap" where
  "location_loop chunkID [] cm = cm"
| "location_loop chunkID (n # ns) cm =
     location_loop chunkID ns (AddLocation chunkID \<lparr>loc_NodeID = ni_NodeId n, loc_Address = ni_Address n\<rparr> cm)"

primrec record_loop :: "NodeInfo list \<Rightarrow> string list \<Rightarrow> ChunkMap \<Rightarrow> ChunkMap" where
  "record_loop nodes [] cm = cm"
| "record_loop nodes (chunkID # chunkIDs) cm = record_loop nodes chunkIDs (location_loop chunkID nodes cm)"

definition recordChunkLocations :: "string list \<Rightarrow> 's master \<Rightarrow> 's master" where
  "recordChunkLocations chunkIDs m =
     (case ms_chunkMap m of
        None \<Rightarrow> m
      | Some cm \<Rightarrow> m\<lparr>ms_chunkMap := Some (record_loop (placement m) chunkIDs cm)\<rparr>)"

text \<open>The loop of \<^verbatim>\<open>ensureParents\<close> over the components but the last; \<open>clk i\<close> is the clock at component \<open>i\<close>.\<close>

primrec ensure_loop :: "'s namespace_ops \<Rightarrow> (nat \<Rightarrow> gtime) \<Rightarrow> nat \<Rightarrow> string \<Rightarrow> string list \<Rightarrow> 's \<Rightarrow> 's \<times> meta_error option" where
  "ensure_loop N clk i cur [] s = (s, None)"
| "ensure_loop N clk i cur (p # ps) s =
     (let cur' = cur @ ''/'' @ p
      in case nso_Stat N s cur' of
           Inr _ \<Rightarrow> ensure_loop N clk (Suc i) cur' ps s
         | Inl err \<Rightarrow>
             if \<not> is_ErrNotFound err then (s, Some err)
             else (case nso_CreateDir N (clk i) cur' s of
                 (s', Some err') \<Rightarrow> if \<not> is_ErrAlreadyExists err' then (s', Some err') else ensure_loop N clk (Suc i) cur' ps s'
               | (s', None) \<Rightarrow> ensure_loop N clk (Suc i) cur' ps s'))"

definition path_parts :: "string \<Rightarrow> string list" where
  "path_parts path = split_char CHR ''/'' (trim_char CHR ''/'' path)"

definition ensureParents :: "'s namespace_ops \<Rightarrow> (nat \<Rightarrow> gtime) \<Rightarrow> string \<Rightarrow> 's \<Rightarrow> 's \<times> meta_error option" where
  "ensureParents N clk path s = ensure_loop N clk 0 '''' (butlast (path_parts path)) s"

definition master_apply :: "'s namespace_ops \<Rightarrow> (nat \<Rightarrow> gtime) \<Rightarrow> gtime \<Rightarrow> command \<Rightarrow> 's master \<Rightarrow> 's master \<times> apply_error option" where
  "master_apply N clk now cmd m =
     (if cmd_Kind cmd = opCreate then
        (case nso_Stat N (ms_ns m) (cmd_Path cmd) of
           Inr _ \<Rightarrow> (m, None)
         | Inl _ \<Rightarrow>
             (case ensureParents N clk (cmd_Path cmd) (ms_ns m) of
                (s1, Some err) \<Rightarrow> (m\<lparr>ms_ns := s1\<rparr>, Some (MetaErr err))
              | (s1, None) \<Rightarrow>
                  (case nso_CreateFile N now (zero_FileInfo\<lparr>fi_Path := cmd_Path cmd\<rparr>) s1 of
                     (s2, err) \<Rightarrow> (m\<lparr>ms_ns := s2\<rparr>, map_option MetaErr err))))
      else if cmd_Kind cmd = opFinalize then
        (let fi = zero_FileInfo\<lparr>fi_Path := cmd_Path cmd, fi_Size := cmd_Size cmd, fi_ChunkIDs := cmd_ChunkIDs cmd\<rparr>
         in case nso_Stat N (ms_ns m) (cmd_Path cmd) of
              Inr _ \<Rightarrow>
                (case nso_UpdateFile N now fi (ms_ns m) of
                   (s1, Some err) \<Rightarrow> (m\<lparr>ms_ns := s1\<rparr>, Some (MetaErr err))
                 | (s1, None) \<Rightarrow> (recordChunkLocations (cmd_ChunkIDs cmd) (m\<lparr>ms_ns := s1\<rparr>), None))
            | Inl _ \<Rightarrow>
                (case ensureParents N clk (cmd_Path cmd) (ms_ns m) of
                   (s1, Some err) \<Rightarrow> (m\<lparr>ms_ns := s1\<rparr>, Some (MetaErr err))
                 | (s1, None) \<Rightarrow>
                     (case nso_CreateFile N now fi s1 of
                        (s2, Some err) \<Rightarrow> (m\<lparr>ms_ns := s2\<rparr>, Some (MetaErr err))
                      | (s2, None) \<Rightarrow> (recordChunkLocations (cmd_ChunkIDs cmd) (m\<lparr>ms_ns := s2\<rparr>), None))))
      else if cmd_Kind cmd = opDelete then
        (case nso_DeleteFile N (cmd_Path cmd) (ms_ns m) of
           (s1, Some err) \<Rightarrow> (m\<lparr>ms_ns := s1\<rparr>, if is_ErrNotFound err then None else Some (MetaErr err))
         | (s1, None) \<Rightarrow> (m\<lparr>ms_ns := s1\<rparr>, None))
      else (m, Some (UnknownOpKind (cmd_Kind cmd))))"

text \<open>
  One turn of \<^verbatim>\<open>Run\<close>, for a committed entry. The second component is true when the loop is blocked: the
  waiter's channel already holds a result, so that the send waits for a receiver.
\<close>

definition master_Run_step :: "'s namespace_ops \<Rightarrow> gob_codec \<Rightarrow> (nat \<Rightarrow> gtime) \<Rightarrow> gtime \<Rightarrow> Entry \<Rightarrow> 's master \<Rightarrow> 's master \<times> bool" where
  "master_Run_step N G clk now entry m =
     (case decode G (e_Command entry) of
        None \<Rightarrow> (m, False)
      | Some cmd \<Rightarrow>
          (case master_apply N clk now cmd m of
             (m1, applyErr) \<Rightarrow>
               (case gm_lookup (ms_waiters m1) (cmd_OpID cmd) of
                  None \<Rightarrow> (m1, False)
                | Some None \<Rightarrow> (m1\<lparr>ms_waiters := gm_set (cmd_OpID cmd) (Some applyErr) (ms_waiters m1)\<rparr>, False)
                | Some (Some _) \<Rightarrow> (m1, True))))"

section \<open>Proposing\<close>

definition propose_begin :: "gob_codec \<Rightarrow> command \<Rightarrow> 's master \<Rightarrow> 's master \<times> (error_code + string)" where
  "propose_begin G cmd m =
     (let seq = ms_opSeq m + 1;
          opID = decimal (unat seq);
          m1 = m\<lparr>ms_opSeq := seq, ms_waiters := gm_set opID None (ms_waiters m)\<rparr>;
          abandon = (\<lambda>m. m\<lparr>ms_waiters := gm_delete opID (ms_waiters m)\<rparr>)
      in case encode G (cmd\<lparr>cmd_OpID := opID\<rparr>) of
           None \<Rightarrow> (abandon m1, Inl Internal)
         | Some data \<Rightarrow>
             (case Propose (ms_node m1) data of
                (n', Inl err) \<Rightarrow> (abandon (m1\<lparr>ms_node := n'\<rparr>), Inl (if err = ErrNotLeader then Unavailable else Internal))
              | (n', Inr _) \<Rightarrow> (m1\<lparr>ms_node := n'\<rparr>, Inr opID)))"

text \<open>
  The final select: \<open>Some code\<close> takes the branch of the context, done with that code, \<open>None\<close> the branch of the
  channel, which waits, here without a result, while the channel is empty.
\<close>

definition propose_end :: "error_code option \<Rightarrow> string \<Rightarrow> 's master \<Rightarrow> ('s master \<times> (error_code + unit)) option" where
  "propose_end ctxDone opID m =
     (let m1 = m\<lparr>ms_waiters := gm_delete opID (ms_waiters m)\<rparr>
      in case ctxDone of
           Some code \<Rightarrow> Some (m1, Inl code)
         | None \<Rightarrow>
             (case gm_lookup (ms_waiters m) opID of
                Some (Some err) \<Rightarrow> Some (m1, case err of None \<Rightarrow> Inr () | Some _ \<Rightarrow> Inl Internal)
              | _ \<Rightarrow> None))"

text \<open>\<open>meanwhile\<close> is what happens at this master while the handler waits.\<close>

definition propose :: "gob_codec \<Rightarrow> ('s master \<Rightarrow> 's master) \<Rightarrow> error_code option \<Rightarrow> command \<Rightarrow> 's master \<Rightarrow>
    ('s master \<times> (error_code + unit)) option" where
  "propose G meanwhile ctxDone cmd m =
     (case propose_begin G cmd m of
        (m1, Inl code) \<Rightarrow> Some (m1, Inl code)
      | (m1, Inr opID) \<Rightarrow> propose_end ctxDone opID (meanwhile m1))"

section \<open>Reads\<close>

definition fileInfoToProto :: "FileInfo \<Rightarrow> ProtoFileInfo" where
  "fileInfoToProto fi = \<lparr>pf_Path = fi_Path fi, pf_IsDir = fi_IsDir fi, pf_Size = fi_Size fi, pf_ChunkIds = fi_ChunkIDs fi,
     pf_Mode = fi_Mode fi, pf_CreatedAtUnix = time_Unix (fi_CreatedAt fi), pf_UpdatedAtUnix = time_Unix (fi_UpdatedAt fi)\<rparr>"

definition master_Stat :: "'s namespace_ops \<Rightarrow> string \<Rightarrow> 's master \<Rightarrow> error_code + ProtoFileInfo" where
  "master_Stat N path m =
     (case nso_Stat N (ms_ns m) path of
        Inl err \<Rightarrow> if is_ErrNotFound err then Inl NotFound else Inl Internal
      | Inr fi \<Rightarrow> Inr (fileInfoToProto fi))"

definition master_ListDir :: "'s namespace_ops \<Rightarrow> string \<Rightarrow> 's master \<Rightarrow> error_code + ProtoFileInfo list" where
  "master_ListDir N path m =
     (case nso_ListDir N path (ms_ns m) of
        (_, Some err) \<Rightarrow> Inl Internal
      | (entries, None) \<Rightarrow> Inr (map fileInfoToProto entries))"

definition master_OpenForRead :: "'s namespace_ops \<Rightarrow> string \<Rightarrow> 's master \<Rightarrow> error_code + OpenForReadResponse" where
  "master_OpenForRead N path m =
     (case nso_Stat N (ms_ns m) path of
        Inl err \<Rightarrow> if is_ErrNotFound err then Inl NotFound else Inl Internal
      | Inr fi \<Rightarrow> Inr \<lparr>or_File = fileInfoToProto fi,
          or_Locations = map (\<lambda>chunkID. \<lparr>lc_ChunkId = chunkID, lc_Nodes = placement m\<rparr>) (fi_ChunkIDs fi)\<rparr>)"

definition master_OpenForWrite :: "string list \<Rightarrow> 's master \<Rightarrow> error_code + ChunkLocation list" where
  "master_OpenForWrite chunkIDs m =
     (if ms_chunkNodes m = [] then Inl Unavailable
      else Inr (map (\<lambda>chunkID. \<lparr>lc_ChunkId = chunkID, lc_Nodes = placement m\<rparr>) chunkIDs))"

section \<open>Writes\<close>

definition master_record :: "string \<Rightarrow> string \<Rightarrow> 's master \<Rightarrow> 's master" where
  "master_record opType status m = m\<lparr>ms_metrics := RecordOp opType status (ms_metrics m)\<rparr>"

definition master_CreateFile :: "'s namespace_ops \<Rightarrow> gob_codec \<Rightarrow> ('s master \<Rightarrow> 's master) \<Rightarrow> error_code option \<Rightarrow> string \<Rightarrow> 's master \<Rightarrow>
    ('s master \<times> (error_code + ProtoFileInfo)) option" where
  "master_CreateFile N G meanwhile ctxDone path m =
     (case propose G meanwhile ctxDone (zero_command\<lparr>cmd_Kind := opCreate, cmd_Path := path\<rparr>) m of
        None \<Rightarrow> None
      | Some (m1, Inl code) \<Rightarrow> Some (master_record ''create_file'' StatusError m1, Inl code)
      | Some (m1, Inr _) \<Rightarrow>
          (case nso_Stat N (ms_ns m1) path of
             Inl err \<Rightarrow> Some (master_record ''create_file'' StatusError m1, Inl Internal)
           | Inr fi \<Rightarrow> Some (master_record ''create_file'' StatusOK m1, Inr (fileInfoToProto fi))))"

definition master_FinalizeWrite :: "'s namespace_ops \<Rightarrow> gob_codec \<Rightarrow> ('s master \<Rightarrow> 's master) \<Rightarrow> error_code option \<Rightarrow> string \<Rightarrow> string list \<Rightarrow> int \<Rightarrow>
    's master \<Rightarrow> ('s master \<times> (error_code + ProtoFileInfo)) option" where
  "master_FinalizeWrite N G meanwhile ctxDone path chunkIDs sz m =
     (case propose G meanwhile ctxDone
         (zero_command\<lparr>cmd_Kind := opFinalize, cmd_Path := path, cmd_ChunkIDs := chunkIDs, cmd_Size := sz\<rparr>) m of
        None \<Rightarrow> None
      | Some (m1, Inl code) \<Rightarrow> Some (master_record ''finalize_write'' StatusError m1, Inl code)
      | Some (m1, Inr _) \<Rightarrow>
          (case nso_Stat N (ms_ns m1) path of
             Inl err \<Rightarrow> Some (master_record ''finalize_write'' StatusError m1, Inl Internal)
           | Inr fi \<Rightarrow> Some (master_record ''finalize_write'' StatusOK m1, Inr (fileInfoToProto fi))))"

definition master_DeleteFile :: "gob_codec \<Rightarrow> ('s master \<Rightarrow> 's master) \<Rightarrow> error_code option \<Rightarrow> string \<Rightarrow> 's master \<Rightarrow>
    ('s master \<times> (error_code + unit)) option" where
  "master_DeleteFile G meanwhile ctxDone path m =
     (case propose G meanwhile ctxDone (zero_command\<lparr>cmd_Kind := opDelete, cmd_Path := path\<rparr>) m of
        None \<Rightarrow> None
      | Some (m1, Inl code) \<Rightarrow> Some (master_record ''delete_file'' StatusError m1, Inl code)
      | Some (m1, Inr _) \<Rightarrow> Some (master_record ''delete_file'' StatusOK m1, Inr ()))"

definition master_GetLease :: "gtime \<Rightarrow> gtime \<Rightarrow> string \<Rightarrow> string \<Rightarrow> 's master \<Rightarrow> 's master \<times> (error_code + ProtoLease)" where
  "master_GetLease now now' chunkID holder m =
     (case lease_Grant now chunkID holder (ms_leases m) of
        (lm, Inl err) \<Rightarrow>
          (master_record ''get_lease'' StatusError (m\<lparr>ms_leases := lm\<rparr>), Inl (if err = ErrLeaseHeld then FailedPrecondition else Internal))
      | (lm, Inr lease) \<Rightarrow>
          (let m1 = master_record ''get_lease'' StatusOK (m\<lparr>ms_leases := lm\<rparr>)
           in (m1\<lparr>ms_metrics := SetActiveLeases (lease_Count now' lm) (ms_metrics m1)\<rparr>,
               Inr \<lparr>pl_ChunkId = l_ChunkID lease, pl_Holder = l_Holder lease, pl_ExpiryUnix = time_Unix (l_Expiry lease)\<rparr>)))"

section \<open>Chunk servers\<close>

definition master_Heartbeat :: "gtime \<Rightarrow> string \<Rightarrow> int \<Rightarrow> 's master \<Rightarrow> 's master \<times> (error_code + unit)" where
  "master_Heartbeat now nodeID chunkCount m =
     (if nodeID = '''' then (m, Inl InvalidArgument)
      else (m\<lparr>ms_monitor := map_option (RecordHeartbeat now nodeID) (ms_monitor m),
              ms_chunkCounts := gm_set nodeID chunkCount (ms_chunkCounts m)\<rparr>, Inr ()))"

text \<open>\<open>clk i\<close> is the clock when the liveness of the \<open>i\<close>-th node is asked.\<close>

definition nodeStatuses :: "(nat \<Rightarrow> gtime) \<Rightarrow> 's master \<Rightarrow> NodeStatus list" where
  "nodeStatuses clk m =
     map (\<lambda>(i, n). let st = \<lparr>st_Node = n, st_State = NODE_STATE_ALIVE, st_ChunkCount = gm_get 0 (ms_chunkCounts m) (ni_NodeId n),
                         st_LastHeartbeatUnix = 0\<rparr>
              in case ms_monitor m of
                   None \<Rightarrow> st
                 | Some mon \<Rightarrow>
                     let st1 = st\<lparr>st_State := NODE_STATE_DEAD\<rparr>;
                         st2 = (case LastSeen (ni_NodeId n) mon of None \<Rightarrow> st1 | Some ts \<Rightarrow> st1\<lparr>st_LastHeartbeatUnix := time_Unix ts\<rparr>)
                     in if IsAlive (clk i) (ni_NodeId n) mon then st2\<lparr>st_State := NODE_STATE_ALIVE\<rparr> else st2)
       (enumerate 0 (ms_chunkNodes m))"

definition master_ClusterStatus :: "'s namespace_ops \<Rightarrow> (nat \<Rightarrow> gtime) \<Rightarrow> 's master \<Rightarrow> error_code + ClusterStatusResponse" where
  "master_ClusterStatus N clk m =
     (case nso_Stats N (ms_ns m) of
        (_, _, Some err) \<Rightarrow> Inl Internal
      | (fileCount, chunkCount, None) \<Rightarrow>
          Inr \<lparr>sr_LeaderId = leaderID (ms_node m), sr_Term = currentTerm (ms_node m), sr_FileCount = int fileCount,
               sr_ChunkCount = int chunkCount, sr_Nodes = nodeStatuses clk m\<rparr>)"

definition master_ListNodes :: "(nat \<Rightarrow> gtime) \<Rightarrow> 's master \<Rightarrow> NodeStatus list" where
  "master_ListNodes clk m = nodeStatuses clk m"

end
