(* ===== verification/Master_Apply.thy ===== *)
theory Master_Apply
  imports Master Namespace_Memory
begin

text \<open>
  What applying a command does to the namespace, as an operation on maps from paths to inodes with the
  times left out, and that masters which apply the same commands agree. The lemmas are proved for every
  namespace that meets the contract \<open>namespace_api\<close>, and used for the one of \<^verbatim>\<open>metadata\<close>.
\<close>

section \<open>Specification\<close>

definition no_times :: "FileInfo \<Rightarrow> FileInfo" where
  "no_times fi = fi\<lparr>fi_CreatedAt := 0, fi_UpdatedAt := 0\<rparr>"

type_synonym tree = "string \<Rightarrow> FileInfo option"

definition timeless :: "tree \<Rightarrow> tree" where
  "timeless v = (\<lambda>path. map_option no_times (v path))"

primrec ancestors :: "string \<Rightarrow> string list \<Rightarrow> string list" where
  "ancestors cur [] = []"
| "ancestors cur (p # ps) = (cur @ ''/'' @ p) # ancestors (cur @ ''/'' @ p) ps"

definition parent_dirs :: "string \<Rightarrow> string list" where
  "parent_dirs path = ancestors '''' (butlast (path_parts path))"

definition add_dirs :: "string list \<Rightarrow> tree \<Rightarrow> tree" where
  "add_dirs dirs v = (\<lambda>q. if v q = None \<and> q \<in> set dirs then Some (dir_info 0 q) else v q)"

definition finalized :: "command \<Rightarrow> FileInfo" where
  "finalized cmd = no_times (zero_FileInfo\<lparr>fi_Path := cmd_Path cmd, fi_Size := cmd_Size cmd, fi_ChunkIDs := cmd_ChunkIDs cmd\<rparr>)"

definition apply_spec :: "command \<Rightarrow> tree \<Rightarrow> tree" where
  "apply_spec cmd v =
     (if cmd_Kind cmd = opCreate then
        (if v (cmd_Path cmd) \<noteq> None then v
         else (add_dirs (parent_dirs (cmd_Path cmd)) v)(cmd_Path cmd \<mapsto> no_times (zero_FileInfo\<lparr>fi_Path := cmd_Path cmd\<rparr>)))
      else if cmd_Kind cmd = opFinalize then
        (if v (cmd_Path cmd) \<noteq> None then v(cmd_Path cmd \<mapsto> finalized cmd)
         else (add_dirs (parent_dirs (cmd_Path cmd)) v)(cmd_Path cmd \<mapsto> finalized cmd))
      else v(cmd_Path cmd := None))"

text \<open>Commands whose strings are ASCII and whose size is an \<^verbatim>\<open>int64\<close>; times that JSON can represent.\<close>

definition command_ok :: "command \<Rightarrow> bool" where
  "command_ok cmd \<longleftrightarrow> ascii (cmd_Path cmd) \<and> (\<forall>chunkID \<in> set (cmd_ChunkIDs cmd). ascii chunkID) \<and>
     - (2 ^ 63) \<le> cmd_Size cmd \<and> cmd_Size cmd < 2 ^ 63"

text \<open>A successful apply meets the specification; a failed one has at most created some of the missing parents.\<close>

definition applied :: "command \<Rightarrow> tree \<Rightarrow> tree \<Rightarrow> apply_error option \<Rightarrow> bool" where
  "applied cmd v v' err \<longleftrightarrow> (if err = None then v' = apply_spec cmd v else \<exists>k. v' = add_dirs (take k (parent_dirs (cmd_Path cmd))) v)"

lemma json_time_zero [simp]: "json_time zero_time"
  by (simp add: json_time_def zero_time_def)

lemma no_times_simps [simp]:
  "no_times (fi\<lparr>fi_CreatedAt := t\<rparr>) = no_times fi" "no_times (fi\<lparr>fi_UpdatedAt := t\<rparr>) = no_times fi"
  "no_times (dir_info now path) = dir_info 0 path" "fi_Path (no_times fi) = fi_Path fi"
  by (simp_all add: no_times_def dir_info_def)

lemma timeless_upd [simp]: "timeless (v(path := x)) = (timeless v)(path := map_option no_times x)"
  by (auto simp: timeless_def)

lemma timeless_None [simp]: "timeless v path = None \<longleftrightarrow> v path = None"
  by (simp add: timeless_def)

lemma add_dirs_Nil [simp]: "add_dirs [] v = v"
  by (simp add: add_dirs_def)

lemma add_dirs_None [simp]: "add_dirs dirs v q = None \<longleftrightarrow> v q = None \<and> q \<notin> set dirs"
  by (auto simp: add_dirs_def)

lemma add_dirs_some: "q \<in> set dirs \<Longrightarrow> \<exists>fi. add_dirs dirs v q = Some fi"
  by (cases "v q") (simp_all add: add_dirs_def)

lemma add_dirs_Cons: "add_dirs (d # ds) v = add_dirs ds (if v d = None then v(d \<mapsto> dir_info 0 d) else v)"
  by (auto simp: add_dirs_def fun_eq_iff)

section \<open>Components of a path\<close>

lemma split_char_set: "p \<in> set (split_char c s) \<Longrightarrow> set p \<subseteq> set s"
proof (induction s arbitrary: p)
  case (Cons x xs)
  obtain q qs where qs: "split_char c xs = q # qs" by (cases "split_char c xs") simp_all
  have IH: "set r \<subseteq> set xs" if "r \<in> set (q # qs)" for r using Cons.IH that by (simp only: qs)
  from Cons.prems consider "p = []" | "p = x # q" | "p \<in> set (q # qs)" by (auto simp: qs split: if_splits)
  then show ?case using IH [of q] IH [of p] by cases auto
qed simp

lemma trim_char_set: "set (trim_char c s) \<subseteq> set s"
  by (auto simp: trim_char_def dest!: set_dropWhileD)

lemma path_parts_ascii: "ascii path \<Longrightarrow> p \<in> set (path_parts path) \<Longrightarrow> ascii p"
  using split_char_set [of p "CHR ''/''" "trim_char CHR ''/'' path"] trim_char_set [of "CHR ''/''" path]
  by (fastforce simp: path_parts_def ascii_def)

lemma ascii_append [simp]: "ascii (s @ t) \<longleftrightarrow> ascii s \<and> ascii t" "ascii (c # s) \<longleftrightarrow> (of_char c :: nat) < 128 \<and> ascii s" "ascii []"
  by (auto simp: ascii_def)

section \<open>Applying a command, for any namespace\<close>

text \<open>A sequence of commands with its clock readings, and the results.\<close>

primrec apply_all :: "'s namespace_ops \<Rightarrow> (nat \<Rightarrow> nat \<Rightarrow> gtime) \<Rightarrow> (nat \<Rightarrow> gtime) \<Rightarrow> command list \<Rightarrow> 's master \<Rightarrow> 's master \<times> apply_error option list" where
  "apply_all N clk now [] m = (m, [])"
| "apply_all N clk now (cmd # cmds) m =
     (case master_apply N (clk 0) (now 0) cmd m of
        (m1, e) \<Rightarrow> (case apply_all N (\<lambda>j. clk (Suc j)) (\<lambda>j. now (Suc j)) cmds m1 of (m2, es) \<Rightarrow> (m2, e # es)))"

context namespace_api
begin

lemma ensure_loop_view:
  assumes "invar s" and "ascii cur" and "\<forall>p \<in> set ps. ascii p" and "\<forall>i. json_time (clk i)"
    and "ensure_loop N clk i cur ps s = (s', err)"
  shows "invar s' \<and> (\<forall>q. view s q \<noteq> None \<longrightarrow> view s' q = view s q) \<and>
    (\<exists>k. timeless (view s') = add_dirs (take k (ancestors cur ps)) (timeless (view s)) \<and> (err = None \<longrightarrow> k = length ps))"
  using assms
proof (induction ps arbitrary: i cur s)
  case Nil
  then show ?case by simp
next
  case (Cons p ps)
  let ?cur = "cur @ ''/'' @ p"
  have cur: "ascii ?cur" using Cons.prems(2,3) by simp
  have rest: "\<forall>p \<in> set ps. ascii p" using Cons.prems(3) by simp
  note IH = Cons.IH [OF _ cur rest Cons.prems(4)]
  show ?case
  proof (cases "view s ?cur")
    case (Some fi)
    then have "ensure_loop N clk (Suc i) ?cur ps s = (s', err)" using Cons.prems(5) stat_law [OF Cons.prems(1), of ?cur] by (simp add: Let_def)
    from IH [OF Cons.prems(1) this] obtain k where k: "invar s'" "\<forall>q. view s q \<noteq> None \<longrightarrow> view s' q = view s q"
      "timeless (view s') = add_dirs (take k (ancestors ?cur ps)) (timeless (view s))" "err = None \<longrightarrow> k = length ps" by blast
    have "timeless (view s) ?cur \<noteq> None" using Some by simp
    then have "timeless (view s') = add_dirs (take (Suc k) (ancestors cur (p # ps))) (timeless (view s))"
      using k(3) by (auto simp: add_dirs_Cons)
    then show ?thesis using k(1,2,4) by (intro conjI exI [of _ "Suc k"]) simp_all
  next
    case None
    obtain s1 e1 where dir: "nso_CreateDir N (clk i) ?cur s = (s1, e1)" by fastforce
    have exact: "json_exact (dir_info (clk i) ?cur)" using cur Cons.prems(4) by (simp only: json_exact_dir)
    have w: "invar s1" "wrote (view s) (dir_info (clk i) ?cur) (view s1) e1"
      using create_dir_law [OF Cons.prems(1) exact dir] None by simp_all
    show ?thesis
    proof (cases e1)
      case (Some e)
      then have "\<not> is_ErrAlreadyExists e" using w(2) by (auto simp: wrote_def not_lookup_error_def is_ErrAlreadyExists_def split: meta_error.splits)
      then have "s' = s1" "err = Some e" using Cons.prems(5) stat_law [OF Cons.prems(1), of ?cur] None dir Some by (simp_all add: Let_def is_ErrNotFound_def)
      then show ?thesis using w Some by (intro conjI exI [of _ 0]) (simp_all add: wrote_def)
    next
      case None2: None
      then have run: "ensure_loop N clk (Suc i) ?cur ps s1 = (s', err)"
        using Cons.prems(5) stat_law [OF Cons.prems(1), of ?cur] None dir by (simp add: Let_def is_ErrNotFound_def)
      have v1: "view s1 = (view s)(?cur \<mapsto> dir_info (clk i) ?cur)" using w(2) None2 by (simp add: wrote_def)
      from IH [OF w(1) run] obtain k where k: "invar s'" "\<forall>q. view s1 q \<noteq> None \<longrightarrow> view s' q = view s1 q"
        "timeless (view s') = add_dirs (take k (ancestors ?cur ps)) (timeless (view s1))" "err = None \<longrightarrow> k = length ps" by blast
      have "timeless (view s') = add_dirs (take (Suc k) (ancestors cur (p # ps))) (timeless (view s))"
        using k(3) None by (simp add: add_dirs_Cons v1)
      moreover have "\<forall>q. view s q \<noteq> None \<longrightarrow> view s' q = view s q" using k(2) v1 None by auto
      ultimately show ?thesis using k(1,4) by (intro conjI exI [of _ "Suc k"]) simp_all
    qed
  qed
qed

lemma ensureParents_view:
  assumes "invar s" and "ascii path" and "\<forall>i. json_time (clk i)" and "ensureParents N clk path s = (s', err)"
  shows "invar s'" and "\<exists>k. timeless (view s') = add_dirs (take k (parent_dirs path)) (timeless (view s))"
    and "err = None \<Longrightarrow> timeless (view s') = add_dirs (parent_dirs path) (timeless (view s))"
proof -
  have "\<forall>p \<in> set (butlast (path_parts path)). ascii p" using path_parts_ascii [OF assms(2)] by (blast dest: in_set_butlastD)
  note v = ensure_loop_view [OF assms(1) ascii_append(3) this assms(3,4) [unfolded ensureParents_def]]
  have len: "length (ancestors cur ps) = length ps" for cur ps by (induction ps arbitrary: cur) simp_all
  show "invar s'" "\<exists>k. timeless (view s') = add_dirs (take k (parent_dirs path)) (timeless (view s))"
    using v unfolding parent_dirs_def by blast+
  show "timeless (view s') = add_dirs (parent_dirs path) (timeless (view s))" if "err = None"
    using v that by (auto simp: parent_dirs_def len)
qed

lemma create_step:
  assumes "invar s" and "command_ok cmd" and "\<forall>i. json_time (clk i)" and "json_time now"
    and fi: "fi_Path fi = cmd_Path cmd" "\<And>t. json_time t \<Longrightarrow> json_exact (fi\<lparr>fi_CreatedAt := t, fi_UpdatedAt := t\<rparr>)"
    and "ensureParents N clk (cmd_Path cmd) s = (s1, err1)"
  shows "err1 = None \<Longrightarrow> nso_CreateFile N now fi s1 = (s2, None) \<Longrightarrow> invar s2 \<and>
      timeless (view s2) = (add_dirs (parent_dirs (cmd_Path cmd)) (timeless (view s)))(cmd_Path cmd \<mapsto> no_times fi)"
    and "err1 = None \<Longrightarrow> nso_CreateFile N now fi s1 = (s2, Some e) \<Longrightarrow> invar s2 \<and>
      (\<exists>k. timeless (view s2) = add_dirs (take k (parent_dirs (cmd_Path cmd))) (timeless (view s)))"
proof -
  have "ascii (cmd_Path cmd)" using assms(2) by (simp add: command_ok_def)
  note par = ensureParents_view [OF assms(1) this assms(3,7)]
  have law: "invar s2 \<and> (if view s1 (cmd_Path cmd) \<noteq> None then s2 = s1 \<and> err = Some (ErrAlreadyExists (cmd_Path cmd))
      else wrote (view s1) (fi\<lparr>fi_CreatedAt := now, fi_UpdatedAt := now\<rparr>) (view s2) err)"
    if "nso_CreateFile N now fi s1 = (s2, err)" for err
    using create_file_law [OF par(1) fi(2) [OF assms(4)] that] unfolding fi(1) .
  show "invar s2 \<and> timeless (view s2) = (add_dirs (parent_dirs (cmd_Path cmd)) (timeless (view s)))(cmd_Path cmd \<mapsto> no_times fi)"
    if "err1 = None" "nso_CreateFile N now fi s1 = (s2, None)"
    using law [OF that(2)] par(3) [OF that(1)] fi(1) by (auto simp: wrote_def split: if_splits)
  show "invar s2 \<and> (\<exists>k. timeless (view s2) = add_dirs (take k (parent_dirs (cmd_Path cmd))) (timeless (view s)))"
    if "err1 = None" "nso_CreateFile N now fi s1 = (s2, Some e)"
    using law [OF that(2)] par(2) by (auto simp: wrote_def split: if_splits)
qed

lemma recordChunkLocations_ns [simp]: "ms_ns (recordChunkLocations chunkIDs m) = ms_ns m"
  by (simp add: recordChunkLocations_def split: option.split)

lemma appliedI_unchanged: "err \<noteq> None \<Longrightarrow> applied cmd v v err"
  unfolding applied_def by (auto intro!: exI [of _ 0])

lemma apply_new_file:
  assumes "invar (ms_ns m)" and "command_ok cmd" and "\<forall>i. json_time (clk i)" and "json_time now"
    and "fi_Path fi = cmd_Path cmd" "\<And>t. json_time t \<Longrightarrow> json_exact (fi\<lparr>fi_CreatedAt := t, fi_UpdatedAt := t\<rparr>)"
    and spec: "apply_spec cmd (timeless (view (ms_ns m))) =
      (add_dirs (parent_dirs (cmd_Path cmd)) (timeless (view (ms_ns m))))(cmd_Path cmd \<mapsto> no_times fi)"
    and run: "(case ensureParents N clk (cmd_Path cmd) (ms_ns m) of
         (s1, Some err) \<Rightarrow> (s1, Some err)
       | (s1, None) \<Rightarrow> nso_CreateFile N now fi s1) = (s', err)"
  shows "invar s' \<and> applied cmd (timeless (view (ms_ns m))) (timeless (view s')) (map_option MetaErr err)"
proof -
  obtain s1 err1 where par: "ensureParents N clk (cmd_Path cmd) (ms_ns m) = (s1, err1)" by fastforce
  have "ascii (cmd_Path cmd)" using assms(2) by (simp add: command_ok_def)
  note pv = ensureParents_view [OF assms(1) this assms(3) par]
  show ?thesis
  proof (cases err1)
    case (Some e)
    then show ?thesis using run par pv by (auto simp: applied_def)
  next
    case None
    then have create: "nso_CreateFile N now fi s1 = (s', err)" using run par by simp
    show ?thesis
      using create_step [OF assms(1-6) par None] create by (cases err) (auto simp: applied_def spec)
  qed
qed

lemma op_kinds [simp]: "opCreate \<noteq> opFinalize" "opCreate \<noteq> opDelete" "opFinalize \<noteq> opDelete"
    "opFinalize \<noteq> opCreate" "opDelete \<noteq> opCreate" "opDelete \<noteq> opFinalize"
  by (simp_all add: opCreate_def opFinalize_def opDelete_def)

lemma apply_create_view:
  assumes "invar (ms_ns m)" and "command_ok cmd" and "\<forall>i. json_time (clk i)" and "json_time now"
    and run: "master_apply N clk now cmd m = (m', err)" and create: "cmd_Kind cmd = opCreate"
  shows "invar (ms_ns m') \<and> applied cmd (timeless (view (ms_ns m))) (timeless (view (ms_ns m'))) err"
proof (cases "view (ms_ns m) (cmd_Path cmd)")
  case None
  define fi where "fi = zero_FileInfo\<lparr>fi_Path := cmd_Path cmd\<rparr>"
  have fi: "fi_Path fi = cmd_Path cmd" "\<And>t. json_time t \<Longrightarrow> json_exact (fi\<lparr>fi_CreatedAt := t, fi_UpdatedAt := t\<rparr>)"
    using assms(2) by (simp_all add: fi_def json_exact_def zero_FileInfo_def command_ok_def)
  obtain s' e where step: "(case ensureParents N clk (cmd_Path cmd) (ms_ns m) of (s1, Some err) \<Rightarrow> (s1, Some err)
      | (s1, None) \<Rightarrow> nso_CreateFile N now fi s1) = (s', e)"
    by fastforce
  have "m' = m\<lparr>ms_ns := s'\<rparr>" "err = map_option MetaErr e"
    using run step create None stat_law [OF assms(1), of "cmd_Path cmd"]
    by (auto simp: master_apply_def fi_def split: prod.splits option.splits)
  moreover have "apply_spec cmd (timeless (view (ms_ns m))) =
      (add_dirs (parent_dirs (cmd_Path cmd)) (timeless (view (ms_ns m))))(cmd_Path cmd \<mapsto> no_times fi)"
    using create None by (simp add: apply_spec_def fi_def)
  ultimately show ?thesis using apply_new_file [OF assms(1-4) fi _ step] by simp
next
  case (Some x)
  then show ?thesis
    using run create stat_law [OF assms(1), of "cmd_Path cmd"] assms(1) by (auto simp: master_apply_def applied_def apply_spec_def)
qed

lemma apply_finalize_view:
  assumes "invar (ms_ns m)" and "command_ok cmd" and "\<forall>i. json_time (clk i)" and "json_time now"
    and run: "master_apply N clk now cmd m = (m', err)" and finalize: "cmd_Kind cmd = opFinalize"
  shows "invar (ms_ns m') \<and> applied cmd (timeless (view (ms_ns m))) (timeless (view (ms_ns m'))) err"
proof -
  define fi where "fi = zero_FileInfo\<lparr>fi_Path := cmd_Path cmd, fi_Size := cmd_Size cmd, fi_ChunkIDs := cmd_ChunkIDs cmd\<rparr>"
  have fi: "fi_Path fi = cmd_Path cmd" "\<And>t. json_time t \<Longrightarrow> json_exact (fi\<lparr>fi_CreatedAt := t, fi_UpdatedAt := t\<rparr>)" "json_exact (fi\<lparr>fi_UpdatedAt := now\<rparr>)"
    using assms(2,4) by (simp_all add: fi_def json_exact_def zero_FileInfo_def command_ok_def)
  note stat = stat_law [OF assms(1), of "cmd_Path cmd"]
  show ?thesis
  proof (cases "view (ms_ns m) (cmd_Path cmd)")
    case None
    obtain s' e where step: "(case ensureParents N clk (cmd_Path cmd) (ms_ns m) of (s1, Some err) \<Rightarrow> (s1, Some err)
        | (s1, None) \<Rightarrow> nso_CreateFile N now fi s1) = (s', e)"
      by fastforce
    have "ms_ns m' = s'" "err = map_option MetaErr e"
      using run step finalize None stat by (auto simp: master_apply_def fi_def Let_def split: prod.splits option.splits)
    moreover have "apply_spec cmd (timeless (view (ms_ns m))) =
        (add_dirs (parent_dirs (cmd_Path cmd)) (timeless (view (ms_ns m))))(cmd_Path cmd \<mapsto> no_times fi)"
      using finalize None by (simp add: apply_spec_def fi_def finalized_def)
    ultimately show ?thesis using apply_new_file [OF assms(1-4) fi(1,2) _ step] by simp
  next
    case (Some x)
    obtain s1 e where upd: "nso_UpdateFile N now fi (ms_ns m) = (s1, e)" by fastforce
    have "ms_ns m' = s1" "err = map_option MetaErr e"
      using run upd finalize Some stat by (auto simp: master_apply_def fi_def Let_def split: option.splits)
    then show ?thesis
      using update_law [OF assms(1) fi(3) upd] Some fi(1) finalize
      by (cases e) (auto simp: wrote_def applied_def apply_spec_def finalized_def fi_def intro!: exI [of _ 0])
  qed
qed

lemma apply_delete_view:
  assumes "invar (ms_ns m)" and run: "master_apply N clk now cmd m = (m', err)" and delete: "cmd_Kind cmd = opDelete"
  shows "invar (ms_ns m') \<and> applied cmd (timeless (view (ms_ns m))) (timeless (view (ms_ns m'))) err"
proof -
  obtain s1 e where del: "nso_DeleteFile N (cmd_Path cmd) (ms_ns m) = (s1, e)" by fastforce
  show ?thesis
    using run del delete delete_law [OF assms(1) del] assms(1)
    by (cases e) (auto simp: master_apply_def applied_def apply_spec_def is_ErrNotFound_def not_lookup_error_def fun_eq_iff timeless_def
        split: if_splits meta_error.splits intro!: exI [of _ 0])
qed

lemma master_apply_view:
  assumes "invar (ms_ns m)" and "command_ok cmd" and "\<forall>i. json_time (clk i)" and "json_time now"
    and run: "master_apply N clk now cmd m = (m', err)"
  shows "invar (ms_ns m') \<and> applied cmd (timeless (view (ms_ns m))) (timeless (view (ms_ns m'))) err"
proof -
  consider "cmd_Kind cmd = opCreate" | "cmd_Kind cmd = opFinalize" | "cmd_Kind cmd = opDelete"
    | (other) "cmd_Kind cmd \<notin> {opCreate, opFinalize, opDelete}" by blast
  then show ?thesis
  proof cases
    case other
    then show ?thesis using run assms(1) by (auto simp: master_apply_def appliedI_unchanged)
  qed (use apply_create_view [OF assms] apply_finalize_view [OF assms] apply_delete_view [OF assms(1) run] in blast)+
qed

lemma master_apply_all_view:
  assumes "invar (ms_ns m)" and "\<forall>cmd \<in> set cmds. command_ok cmd" and "\<forall>j i. json_time (clk j i)" and "\<forall>j. json_time (now j)"
    and "apply_all N clk now cmds m = (m', errs)" and "\<forall>e \<in> set errs. e = None"
  shows "invar (ms_ns m') \<and> timeless (view (ms_ns m')) = fold apply_spec cmds (timeless (view (ms_ns m)))"
  using assms
proof (induction cmds arbitrary: m errs clk now)
  case (Cons cmd cmds)
  obtain m1 e es where step: "master_apply N (clk 0) (now 0) cmd m = (m1, e)" "apply_all N (\<lambda>j. clk (Suc j)) (\<lambda>j. now (Suc j)) cmds m1 = (m', es)"
    "errs = e # es"
    using Cons.prems(5) by (auto split: prod.splits)
  have ok: "command_ok cmd" "\<forall>i. json_time (clk 0 i)" "json_time (now 0)" using Cons.prems(2-4) by simp_all
  have first: "invar (ms_ns m1)" "timeless (view (ms_ns m1)) = apply_spec cmd (timeless (view (ms_ns m)))"
    using master_apply_view [OF Cons.prems(1) ok step(1)] Cons.prems(6) step(3) by (simp_all add: applied_def)
  show ?case using Cons.IH [OF first(1) _ _ _ step(2)] first(2) Cons.prems(2-4,6) step(3) by simp
qed simp

end

section \<open>Applying succeeds when the database does\<close>

text \<open>A database that accepts every write of an inode.\<close>

definition never_fails :: "('db, 'txn) badger \<Rightarrow> json_codec \<Rightarrow> bool" where
  "never_fails B J \<longleftrightarrow> (\<forall>db fi. ns_ok B J db \<and> json_exact fi \<longrightarrow> snd (ns_write B J fi db) = None)"

lemma mem_never_fails: "never_fails mem_badger mem_json"
  by (auto simp: never_fails_def ns_write_def mem_json_def store_Put_def badger_Update_def mem_badger_def)

lemma ensure_loop_ok:
  assumes "never_fails B J" and "ns_ok B J s" and "ascii cur" and "\<forall>p \<in> set ps. ascii p" and "\<forall>i. json_time (clk i)"
  shows "snd (ensure_loop (NewNamespace B J) clk i cur ps s) = None"
  using assms(2-4)
proof (induction ps arbitrary: i cur s)
  case (Cons p ps)
  let ?cur = "cur @ ''/'' @ p"
  have cur: "ascii ?cur" and rest: "\<forall>p \<in> set ps. ascii p" using Cons.prems(2,3) by simp_all
  note IH = Cons.IH [OF _ cur rest]
  note stat = nsi.stat_law [OF Cons.prems(1), of ?cur]
  show ?case
  proof (cases "ns_view B J s ?cur")
    case (Some fi)
    then show ?thesis using stat IH [OF Cons.prems(1)] by (simp add: Let_def)
  next
    case None
    obtain s1 e where dir: "nso_CreateDir (NewNamespace B J) (clk i) ?cur s = (s1, e)" by fastforce
    have exact: "json_exact (dir_info (clk i) ?cur)" using cur assms(5) by (simp only: json_exact_dir)
    have "snd (ns_write B J (dir_info (clk i) ?cur) s) = None" using assms(1) Cons.prems(1) exact by (simp add: never_fails_def)
    then have "e = None" using dir None stat by (auto simp: NewNamespace_def ns_CreateDir_def)
    moreover have "ns_ok B J s1" using nsi.create_dir_law [OF Cons.prems(1) exact dir] by simp
    ultimately show ?thesis using None dir stat IH by (simp add: Let_def is_ErrNotFound_def)
  qed
qed simp

lemma split_char_length: "sum_list (map (\<lambda>p. Suc (length p)) (split_char c s)) = Suc (length s)"
proof (induction s)
  case (Cons x xs)
  then show ?case by (cases "split_char c xs") simp_all
qed simp

lemma split_char_last: "s \<noteq> [] \<Longrightarrow> last s \<noteq> c \<Longrightarrow> last (split_char c s) \<noteq> []"
proof (induction s)
  case (Cons x xs)
  show ?case
  proof (cases "xs = []")
    case False
    then have "last (split_char c xs) \<noteq> []" using Cons by simp
    then show ?thesis by (cases "split_char c xs") auto
  qed (use Cons in simp)
qed simp

lemma trim_char_last: "trim_char c s \<noteq> [] \<Longrightarrow> last (trim_char c s) \<noteq> c"
proof -
  have "rev (dropWhile ((=) c) xs) \<noteq> [] \<Longrightarrow> last (rev (dropWhile ((=) c) xs)) \<noteq> c" for xs
    by (metis hd_dropWhile last_rev rev_is_Nil_conv)
  then show "trim_char c s \<noteq> [] \<Longrightarrow> last (trim_char c s) \<noteq> c" by (simp only: trim_char_def)
qed

lemma trim_char_length: "length (trim_char c s) \<le> length s"
  using length_dropWhile_le [of "(=) c" "rev (dropWhile ((=) c) s)"] length_dropWhile_le [of "(=) c" s] by (simp add: trim_char_def)

lemma ancestor_length: "q \<in> set (ancestors cur ps) \<Longrightarrow> length q \<le> length cur + sum_list (map (\<lambda>p. Suc (length p)) ps)"
  by (induction ps arbitrary: cur) fastforce+

text \<open>A path is not one of its own parents.\<close>

lemma not_own_parent: "path \<notin> set (parent_dirs path)"
proof
  assume "path \<in> set (parent_dirs path)"
  define s where "s = trim_char CHR ''/'' path"
  let ?parts = "split_char CHR ''/'' s"
  have len: "length path \<le> sum_list (map (\<lambda>p. Suc (length p)) (butlast ?parts))"
    using ancestor_length [OF \<open>path \<in> set (parent_dirs path)\<close> [unfolded parent_dirs_def]] by (simp add: path_parts_def s_def)
  have "?parts = butlast ?parts @ [last ?parts]" by simp
  then have "sum_list (map (\<lambda>p. Suc (length p)) (butlast ?parts)) + Suc (length (last ?parts)) = Suc (length s)"
    using split_char_length [of "CHR ''/''" s] by (metis (no_types, lifting) list.simps(8,9) map_append sum_list.Cons sum_list.Nil sum_list_append add.right_neutral)
  moreover have "s \<noteq> [] \<Longrightarrow> last ?parts \<noteq> []" using split_char_last trim_char_last unfolding s_def by blast
  moreover have "s \<noteq> []" using \<open>path \<in> set (parent_dirs path)\<close> by (auto simp: parent_dirs_def path_parts_def s_def)
  ultimately have "0 < length (last ?parts)" "length path + length (last ?parts) \<le> length s" using len by simp_all
  moreover have "length s \<le> length path" unfolding s_def by (rule trim_char_length)
  ultimately show False by linarith
qed

lemma finalize_ok:
  assumes rel: "never_fails B J" and ok: "ns_ok B J (ms_ns m)" and cmd: "command_ok cmd" "cmd_Kind cmd = opFinalize"
    and clk: "\<forall>i. json_time (clk i)" and now: "json_time now"
  shows "snd (master_apply (NewNamespace B J) clk now cmd m) = None"
proof -
  let ?N = "NewNamespace B J"
  define fi where "fi = zero_FileInfo\<lparr>fi_Path := cmd_Path cmd, fi_Size := cmd_Size cmd, fi_ChunkIDs := cmd_ChunkIDs cmd\<rparr>"
  have exact: "json_exact (fi\<lparr>fi_CreatedAt := now, fi_UpdatedAt := now\<rparr>)" "json_exact (fi\<lparr>fi_UpdatedAt := now\<rparr>)"
    using cmd now by (simp_all add: fi_def json_exact_def zero_FileInfo_def command_ok_def)
  note stat = nsi.stat_law [OF ok, of "cmd_Path cmd"]
  obtain s1 e1 where par: "ensureParents ?N clk (cmd_Path cmd) (ms_ns m) = (s1, e1)" by fastforce
  have path: "ascii (cmd_Path cmd)" using cmd by (simp add: command_ok_def)
  have "\<forall>p \<in> set (butlast (path_parts (cmd_Path cmd))). ascii p" using path_parts_ascii [OF path] by (blast dest: in_set_butlastD)
  then have e1: "e1 = None" using ensure_loop_ok [OF rel ok ascii_append(3) _ clk] par by (metis ensureParents_def snd_conv)
  note pv = nsi.ensureParents_view [OF ok path clk par]
  show ?thesis
  proof (cases "ns_view B J (ms_ns m) (cmd_Path cmd)")
    case None
    have "timeless (ns_view B J s1) (cmd_Path cmd) = None"
      using pv(3) [OF e1] None not_own_parent [of "cmd_Path cmd"] by (simp add: add_dirs_def)
    then have "ns_view B J s1 (cmd_Path cmd) = None" by simp
    moreover have "snd (ns_write B J (fi\<lparr>fi_CreatedAt := now, fi_UpdatedAt := now\<rparr>) s1) = None"
      using rel pv(1) exact by (simp add: never_fails_def)
    ultimately have "snd (nso_CreateFile ?N now fi s1) = None"
      using nsi.stat_law [OF pv(1), of "cmd_Path cmd"] by (simp add: NewNamespace_def ns_CreateFile_def fi_def)
    then show ?thesis using None stat par e1 cmd(2) by (auto simp: master_apply_def fi_def Let_def split: prod.splits option.splits)
  next
    case (Some x)
    have "snd (ns_write B J (fi\<lparr>fi_UpdatedAt := now\<rparr>) (ms_ns m)) = None" using rel ok exact by (simp add: never_fails_def)
    then have "snd (nso_UpdateFile ?N now fi (ms_ns m)) = None" using stat Some by (simp add: NewNamespace_def ns_UpdateFile_def fi_def)
    then show ?thesis using Some stat cmd(2) by (auto simp: master_apply_def fi_def Let_def split: prod.splits option.splits)
  qed
qed

section \<open>Properties\<close>


text \<open>
  C21: masters agree. Two masters that apply the same committed commands, each with its own database and its
  own clock, and starting from trees that are equal apart from times, have trees that are equal apart
  from times, if neither database fails.
\<close>

theorem masters_agree:
  assumes "ns_ok B1 J1 (ms_ns m1)" and "ns_ok B2 J2 (ms_ns m2)"
    and "timeless (ns_view B1 J1 (ms_ns m1)) = timeless (ns_view B2 J2 (ms_ns m2))"
    and "\<forall>cmd \<in> set cmds. command_ok cmd"
    and "\<forall>j i. json_time (clk1 j i)" and "\<forall>j. json_time (now1 j)" and "\<forall>j i. json_time (clk2 j i)" and "\<forall>j. json_time (now2 j)"
    and "apply_all (NewNamespace B1 J1) clk1 now1 cmds m1 = (m1', errs1)" and "\<forall>e \<in> set errs1. e = None"
    and "apply_all (NewNamespace B2 J2) clk2 now2 cmds m2 = (m2', errs2)" and "\<forall>e \<in> set errs2. e = None"
  shows "timeless (ns_view B1 J1 (ms_ns m1')) = timeless (ns_view B2 J2 (ms_ns m2'))"
  using nsi.master_apply_all_view [OF assms(1,4,5,6,9,10)] nsi.master_apply_all_view [OF assms(2,4,7,8,11,12)] assms(3) by simp

text \<open>A master with an empty namespace in memory.\<close>

definition sample_master :: "mem_db master" where
  "sample_master = master_New [] (NewLeaseManager 0) (raft_New (raft_DefaultConfig ''m1'' [])) [] 0 None None None"

definition sample_finalize :: command where
  "sample_finalize = zero_command\<lparr>cmd_Kind := opFinalize, cmd_Path := ''/a/x'', cmd_Size := 3\<rparr>"

lemma sample_finalize_ok: "command_ok sample_finalize" "cmd_Kind sample_finalize = opFinalize" "cmd_Path sample_finalize = ''/a/x''"
  by (simp_all add: sample_finalize_def command_ok_def zero_command_def)

lemma sample_master_ns: "ms_ns sample_master = []"
  by (simp add: sample_master_def master_New_def)

lemma json_time_small: "json_time 1" "json_time 2"
  by (simp_all add: json_time_def)

lemma sample_applied:
  assumes "json_time t"
  obtains m' where "master_apply (NewNamespace mem_badger mem_json) (\<lambda>_. t) t sample_finalize sample_master = (m', None)"
  using finalize_ok [OF mem_never_fails, of sample_master sample_finalize "\<lambda>_. t" t] sample_finalize_ok mem_ns_ok sample_master_ns assms
  by (metis prod.collapse)

lemma parent_dirs_sample: "parent_dirs ''/a/x'' = [''/a'']"
  by (simp add: parent_dirs_def path_parts_def trim_char_def)


theorem masters_agree_witness:
  "\<exists>m1 m2. apply_all (NewNamespace mem_badger mem_json) (\<lambda>_ _. 1) (\<lambda>_. 1) [sample_finalize] sample_master = (m1, [None]) \<and>
     apply_all (NewNamespace mem_badger mem_json) (\<lambda>_ _. 2) (\<lambda>_. 2) [sample_finalize] sample_master = (m2, [None]) \<and>
     timeless (ns_view mem_badger mem_json (ms_ns m1)) = timeless (ns_view mem_badger mem_json (ms_ns m2))"
proof -
  obtain m1 where m1: "master_apply (NewNamespace mem_badger mem_json) (\<lambda>_. 1) 1 sample_finalize sample_master = (m1, None)"
    using sample_applied json_time_small(1) by blast
  obtain m2 where m2: "master_apply (NewNamespace mem_badger mem_json) (\<lambda>_. 2) 2 sample_finalize sample_master = (m2, None)"
    using sample_applied json_time_small(2) by blast
  have run: "apply_all (NewNamespace mem_badger mem_json) (\<lambda>_ _. 1) (\<lambda>_. 1) [sample_finalize] sample_master = (m1, [None])"
    "apply_all (NewNamespace mem_badger mem_json) (\<lambda>_ _. 2) (\<lambda>_. 2) [sample_finalize] sample_master = (m2, [None])"
    by (simp_all add: m1 m2)
  have ok: "ns_ok mem_badger mem_json (ms_ns sample_master)" by (simp add: sample_master_ns mem_ns_ok)
  have "timeless (ns_view mem_badger mem_json (ms_ns m1)) = timeless (ns_view mem_badger mem_json (ms_ns m2))"
    by (rule masters_agree [OF ok ok refl _ _ _ _ _ run(1) _ run(2)]) (simp_all add: sample_finalize_ok json_time_small)
  with run show ?thesis by blast
qed

end
