(* ===== verification/Master_Limits.thy ===== *)
theory Master_Limits
  imports Master_Apply
begin

text \<open>
  Behaviours of the master that its users have to know: operation IDs are only unique within one master, a
  finalized write forgets what the inode was before, and a master that restarts forgets its vote.
\<close>

section \<open>Operation IDs\<close>

text \<open>
  \<^verbatim>\<open>OpID\<close> is a counter of the master that proposed the command, so that commands of different masters carry
  the same ID. If another master's command with the ID of a waiting operation is committed first, the
  waiting handler returns the result of that command. Its own command may never be committed.
\<close>

lemma foreign_command_wakes_waiter:
  assumes "decode G (e_Command entry) = Some cmd" and "cmd_OpID cmd = opID" and "gm_lookup (ms_waiters m) opID = Some None"
    and "master_apply N clk now cmd m = (m', None)"
  shows "\<exists>m''. propose_end None opID (fst (master_Run_step N G clk now entry m)) = Some (m'', Inr ())"
proof -
  have "ms_waiters m' = ms_waiters m"
    using assms(4) by (auto simp: master_apply_def recordChunkLocations_def Let_def split: if_splits sum.splits prod.splits option.splits)
  then show ?thesis using assms(1-4) by (simp add: master_Run_step_def propose_end_def gomap_simps)
qed

text \<open>Masters that have just started give their first commands the same ID.\<close>

lemma first_operation_ids_collide:
  assumes "snd (propose_begin G cmd (master_New ns leases node nodes rf mx mon cm)) = Inr opID"
    and "snd (propose_begin G cmd' (master_New ns' leases' node' nodes' rf' mx' mon' cm')) = Inr opID'"
  shows "opID = ''1'' \<and> opID' = ''1''"
proof -
  have "decimal (unat (0 + 1 :: u64)) = ''1''" by code_simp
  then show ?thesis using assms by (auto simp: propose_begin_def master_New_def Let_def split: option.splits prod.splits sum.splits)
qed

text \<open>A second result for one waiter blocks the loop of \<^verbatim>\<open>Run\<close> until the handler takes the first.\<close>

lemma second_result_blocks_run:
  assumes "decode G (e_Command entry) = Some cmd" and "gm_lookup (ms_waiters m) (cmd_OpID cmd) = Some (Some err)"
  shows "snd (master_Run_step N G clk now entry m)"
proof -
  obtain m' r where run: "master_apply N clk now cmd m = (m', r)" by fastforce
  then have "ms_waiters m' = ms_waiters m"
    by (auto simp: master_apply_def recordChunkLocations_def Let_def split: if_splits sum.splits prod.splits option.splits)
  with assms run show ?thesis by (simp add: master_Run_step_def)
qed

section \<open>Finalizing over an inode\<close>

text \<open>
  Finalizing a write to a path that exists replaces the whole inode: the time of creation and the mode are
  reset, and a directory becomes a file.
\<close>

lemma finalize_replaces_inode:
  assumes "ns_ok B J (ms_ns m)" and "ns_view B J (ms_ns m) (cmd_Path cmd) = Some old" and "cmd_Kind cmd = opFinalize" and "command_ok cmd"
    and "json_time now" and "master_apply (NewNamespace B J) clk now cmd m = (m', None)"
  shows "ns_view B J (ms_ns m') (cmd_Path cmd) =
    Some (zero_FileInfo\<lparr>fi_Path := cmd_Path cmd, fi_Size := cmd_Size cmd, fi_ChunkIDs := cmd_ChunkIDs cmd, fi_UpdatedAt := now\<rparr>)"
proof -
  let ?N = "NewNamespace B J" and ?fi = "zero_FileInfo\<lparr>fi_Path := cmd_Path cmd, fi_Size := cmd_Size cmd, fi_ChunkIDs := cmd_ChunkIDs cmd\<rparr>"
  have stat: "nso_Stat ?N (ms_ns m) (cmd_Path cmd) = Inr old" using nsi.stat_law [OF assms(1)] assms(2) by simp
  obtain s1 err where up: "nso_UpdateFile ?N now ?fi (ms_ns m) = (s1, err)" by fastforce
  have m': "err = None" "ms_ns m' = s1"
    using assms(3,6) stat up by (auto simp: master_apply_def Let_def opCreate_def opFinalize_def opDelete_def split: option.splits)
  have "json_exact (?fi\<lparr>fi_UpdatedAt := now\<rparr>)" using assms(4,5) by (simp add: json_exact_def command_ok_def zero_FileInfo_def)
  then show ?thesis using nsi.update_law [OF assms(1) _ up] assms(2) m' by (simp add: wrote_def)
qed

section \<open>Restarting\<close>

text \<open>
  A Raft node keeps its term, its vote and its log in memory only. After a restart it grants its vote to any
  candidate, also in a term in which it has voted.
\<close>

lemma restarted_node_votes_again: "rvr_VoteGranted (snd (HandleRequestVote (raft_New cfg) args))"
  by (simp add: HandleRequestVote_def raft_New_def becomeFollower_def logUpToDate_def newRaftLog_def lastIndex_def lastTerm_def word_neq_0_conv Let_def)

end
