(* ===== verification/Raft_Transport.thy ===== *)
theory Raft_Transport
  imports Raft_Node Rpc_Base Namespace_Memory
begin

text \<open>
  The two transports of \<^verbatim>\<open>internal/raft\<close>: the in-process network of \<^verbatim>\<open>transport.go\<close> with injected partitions,
  and the gRPC transport of \<^verbatim>\<open>transport_grpc.go\<close> with its gob codec and its cache of connections. A handler
  of the source is a node, and the handlers of a network are the nodes by ID; a call runs the handler on the
  node. gRPC and gob are parameters: what reaches the server is the message as the codec encodes it.
\<close>

section \<open>The in-process network\<close>

record InMemNetwork =
  net_handlers :: "(string, Node) gomap"
  net_partitions :: "(string \<times> string, unit) gomap"

definition NewInMemNetwork :: InMemNetwork where
  "NewInMemNetwork = \<lparr>net_handlers = gm_empty, net_partitions = gm_empty\<rparr>"

definition net_Register :: "string \<Rightarrow> Node \<Rightarrow> InMemNetwork \<Rightarrow> InMemNetwork" where
  "net_Register i h n = n\<lparr>net_handlers := gm_set i h (net_handlers n)\<rparr>"

definition net_Partition :: "string \<Rightarrow> string \<Rightarrow> InMemNetwork \<Rightarrow> InMemNetwork" where
  "net_Partition a b n = n\<lparr>net_partitions := gm_set (b, a) () (gm_set (a, b) () (net_partitions n))\<rparr>"

definition net_Heal :: "string \<Rightarrow> string \<Rightarrow> InMemNetwork \<Rightarrow> InMemNetwork" where
  "net_Heal a b n = n\<lparr>net_partitions := gm_delete (b, a) (gm_delete (a, b) (net_partitions n))\<rparr>"

definition net_HealAll :: "InMemNetwork \<Rightarrow> InMemNetwork" where
  "net_HealAll n = n\<lparr>net_partitions := gm_empty\<rparr>"

definition isPartitioned :: "string \<Rightarrow> string \<Rightarrow> InMemNetwork \<Rightarrow> bool" where
  "isPartitioned src dst n \<longleftrightarrow> gm_lookup (net_partitions n) (src, dst) \<noteq> None"

definition getHandler :: "string \<Rightarrow> InMemNetwork \<Rightarrow> Node option" where
  "getHandler i n = gm_lookup (net_handlers n) i"

datatype transport_error = Partitioned string string | NotRegistered string | DialFailed string | CallFailed error_code

definition reach :: "string \<Rightarrow> string \<Rightarrow> InMemNetwork \<Rightarrow> transport_error + Node" where
  "reach i peer n =
     (if isPartitioned i peer n then Inl (Partitioned i peer)
      else case getHandler peer n of None \<Rightarrow> Inl (NotRegistered peer) | Some h \<Rightarrow> Inr h)"

text \<open>The three methods differ only in the handler's method they call.\<close>

definition inmem_Send :: "(Node \<Rightarrow> 'a \<Rightarrow> Node \<times> 'r) \<Rightarrow> string \<Rightarrow> string \<Rightarrow> 'a \<Rightarrow> InMemNetwork \<Rightarrow> InMemNetwork \<times> (transport_error + 'r)" where
  "inmem_Send handle i peer args n =
     (case reach i peer n of
        Inl err \<Rightarrow> (n, Inl err)
      | Inr h \<Rightarrow> (case handle h args of (h', reply) \<Rightarrow> (n\<lparr>net_handlers := gm_set peer h' (net_handlers n)\<rparr>, Inr reply)))"

definition inmem_SendRequestVote :: "string \<Rightarrow> string \<Rightarrow> RequestVoteArgs \<Rightarrow> InMemNetwork \<Rightarrow> InMemNetwork \<times> (transport_error + RequestVoteReply)" where
  "inmem_SendRequestVote = inmem_Send HandleRequestVote"

definition inmem_SendAppendEntries :: "string \<Rightarrow> string \<Rightarrow> AppendEntriesArgs \<Rightarrow> InMemNetwork \<Rightarrow> InMemNetwork \<times> (transport_error + AppendEntriesReply)" where
  "inmem_SendAppendEntries = inmem_Send HandleAppendEntries"

definition inmem_SendInstallSnapshot :: "string \<Rightarrow> string \<Rightarrow> InstallSnapshotArgs \<Rightarrow> InMemNetwork \<Rightarrow> InMemNetwork \<times> (transport_error + InstallSnapshotReply)" where
  "inmem_SendInstallSnapshot = inmem_Send HandleInstallSnapshot"

lemmas inmem_sends = inmem_SendRequestVote_def inmem_SendAppendEntries_def inmem_SendInstallSnapshot_def

section \<open>The gRPC transport\<close>

text \<open>
  The methods of \<^verbatim>\<open>gobCodec\<close> at one type of messages; \<open>None\<close> is an error of gob. \<open>gob_law\<close> is what gob
  documents for values of one struct type: they decode to themselves.
\<close>

record 'a gobCodec =
  gob_Marshal :: "'a \<Rightarrow> bytes option"
  gob_Unmarshal :: "bytes \<Rightarrow> 'a option"

definition gob_law :: "'a gobCodec \<Rightarrow> bool" where
  "gob_law G \<longleftrightarrow> (\<forall>v. \<exists>b. gob_Marshal G v = Some b \<and> gob_Unmarshal G b = Some v)"

text \<open>
  A method of \<^verbatim>\<open>raftServiceDesc\<close>: the request is decoded and handed to the node, through the interceptor
  if there is one. The server of the transport has none.
\<close>

definition handleGRPC :: "(Node \<Rightarrow> 'a \<Rightarrow> Node \<times> 'r) \<Rightarrow> (bytes \<Rightarrow> 'a option) \<Rightarrow> (('a \<Rightarrow> Node \<times> (error_code + 'r)) \<Rightarrow> 'a \<Rightarrow> Node \<times> (error_code + 'r)) option \<Rightarrow>
    bytes \<Rightarrow> Node \<Rightarrow> Node \<times> (error_code + 'r)" where
  "handleGRPC handle dec interceptor data srv =
     (case dec data of
        None \<Rightarrow> (srv, Inl Internal)
      | Some req \<Rightarrow>
          let h = (\<lambda>req. case handle srv req of (srv', reply) \<Rightarrow> (srv', Inr reply))
          in (case interceptor of None \<Rightarrow> h req | Some ic \<Rightarrow> ic h req))"

text \<open>
  The transport of a node, and the servers that listen, by address. A server is \<open>None\<close> until \<^verbatim>\<open>Register\<close>, which
  its owner calls once; a request to it waits until the caller's context ends.
\<close>

record GRPCTransport =
  gt_id :: string
  gt_serving :: bool
  gt_conns :: "(string, string) gomap"
  gt_handler :: "Node option"
  gt_clientCred :: "string option"

type_synonym raft_servers = "(string, Node option) gomap"

definition NewGRPCTransport :: "(string \<Rightarrow> bool) \<Rightarrow> string \<Rightarrow> string option \<Rightarrow> transport_error + GRPCTransport" where
  "NewGRPCTransport listen addr clientCred =
     (if listen addr then Inr \<lparr>gt_id = '''', gt_serving = False, gt_conns = gm_empty, gt_handler = None, gt_clientCred = clientCred\<rparr>
      else Inl (CallFailed Unavailable))"

definition grpc_Register :: "string \<Rightarrow> Node \<Rightarrow> GRPCTransport \<Rightarrow> GRPCTransport" where
  "grpc_Register i handler t = t\<lparr>gt_id := i, gt_handler := Some handler, gt_serving := True\<rparr>"

datatype stopped = GracefulStop | CloseListener

definition grpc_Close :: "GRPCTransport \<Rightarrow> stopped \<times> string list" where
  "grpc_Close t = ((if gt_serving t then GracefulStop else CloseListener), map snd (gt_conns t))"

text \<open>
  \<^verbatim>\<open>conn\<close> looks up the cache, takes the write lock, and looks again; \<open>between\<close> is what other calls put into
  the cache in between. \<open>newClient\<close> tells which targets \<^verbatim>\<open>grpc.NewClient\<close> accepts with which credentials.
\<close>

definition grpc_conn :: "(string \<Rightarrow> string option \<Rightarrow> bool) \<Rightarrow> (GRPCTransport \<Rightarrow> GRPCTransport) \<Rightarrow> string \<Rightarrow> GRPCTransport \<Rightarrow>
    GRPCTransport \<times> (transport_error + string)" where
  "grpc_conn newClient between peer t =
     (case gm_lookup (gt_conns t) peer of
        Some c \<Rightarrow> (t, Inr c)
      | None \<Rightarrow>
          let t = between t
          in (case gm_lookup (gt_conns t) peer of
                Some c \<Rightarrow> (t, Inr c)
              | None \<Rightarrow> if newClient peer (gt_clientCred t) then (t\<lparr>gt_conns := gm_set peer peer (gt_conns t)\<rparr>, Inr peer)
                        else (t, Inl (DialFailed peer))))"

text \<open>\<^verbatim>\<open>Invoke\<close> at a connection: \<open>lost\<close> and \<open>unanswered\<close> tell whether the request or the reply is lost.\<close>

definition grpc_Invoke :: "(Node \<Rightarrow> 'a \<Rightarrow> Node \<times> 'r) \<Rightarrow> 'a gobCodec \<Rightarrow> 'r gobCodec \<Rightarrow> bool \<Rightarrow> bool \<Rightarrow> string \<Rightarrow> 'a \<Rightarrow> raft_servers \<Rightarrow>
    raft_servers \<times> (transport_error + 'r)" where
  "grpc_Invoke handle GA GR lost unanswered c args servers =
     (case gob_Marshal GA args of
        None \<Rightarrow> (servers, Inl (CallFailed Internal))
      | Some data \<Rightarrow>
          if lost then (servers, Inl (CallFailed Unavailable))
          else (case gm_lookup servers c of
                  None \<Rightarrow> (servers, Inl (CallFailed Unavailable))
                | Some None \<Rightarrow> (servers, Inl (CallFailed DeadlineExceeded))
                | Some (Some srv) \<Rightarrow>
                    (case handleGRPC handle (gob_Unmarshal GA) None data srv of
                       (srv', r) \<Rightarrow>
                         (gm_set c (Some srv') servers,
                          if unanswered then Inl (CallFailed Unavailable)
                          else case r of
                                 Inl code \<Rightarrow> Inl (CallFailed code)
                               | Inr reply \<Rightarrow>
                                   (case Option.bind (gob_Marshal GR reply) (gob_Unmarshal GR) of
                                      None \<Rightarrow> Inl (CallFailed Internal) | Some v \<Rightarrow> Inr v)))))"

definition grpc_Send :: "(Node \<Rightarrow> 'a \<Rightarrow> Node \<times> 'r) \<Rightarrow> 'a gobCodec \<Rightarrow> 'r gobCodec \<Rightarrow> (string \<Rightarrow> string option \<Rightarrow> bool) \<Rightarrow> bool \<Rightarrow> bool \<Rightarrow>
    string \<Rightarrow> 'a \<Rightarrow> GRPCTransport \<Rightarrow> raft_servers \<Rightarrow> GRPCTransport \<times> raft_servers \<times> (transport_error + 'r)" where
  "grpc_Send handle GA GR newClient lost unanswered peer args t servers =
     (case grpc_conn newClient (\<lambda>t. t) peer t of
        (t', Inl err) \<Rightarrow> (t', servers, Inl err)
      | (t', Inr c) \<Rightarrow> (t', grpc_Invoke handle GA GR lost unanswered c args servers))"

definition grpc_SendRequestVote :: "RequestVoteArgs gobCodec \<Rightarrow> RequestVoteReply gobCodec \<Rightarrow> (string \<Rightarrow> string option \<Rightarrow> bool) \<Rightarrow> bool \<Rightarrow> bool \<Rightarrow>
    string \<Rightarrow> RequestVoteArgs \<Rightarrow> GRPCTransport \<Rightarrow> raft_servers \<Rightarrow> GRPCTransport \<times> raft_servers \<times> (transport_error + RequestVoteReply)" where
  "grpc_SendRequestVote = grpc_Send HandleRequestVote"

definition grpc_SendAppendEntries :: "AppendEntriesArgs gobCodec \<Rightarrow> AppendEntriesReply gobCodec \<Rightarrow> (string \<Rightarrow> string option \<Rightarrow> bool) \<Rightarrow> bool \<Rightarrow> bool \<Rightarrow>
    string \<Rightarrow> AppendEntriesArgs \<Rightarrow> GRPCTransport \<Rightarrow> raft_servers \<Rightarrow> GRPCTransport \<times> raft_servers \<times> (transport_error + AppendEntriesReply)" where
  "grpc_SendAppendEntries = grpc_Send HandleAppendEntries"

definition grpc_SendInstallSnapshot :: "InstallSnapshotArgs gobCodec \<Rightarrow> InstallSnapshotReply gobCodec \<Rightarrow> (string \<Rightarrow> string option \<Rightarrow> bool) \<Rightarrow> bool \<Rightarrow> bool \<Rightarrow>
    string \<Rightarrow> InstallSnapshotArgs \<Rightarrow> GRPCTransport \<Rightarrow> raft_servers \<Rightarrow> GRPCTransport \<times> raft_servers \<times> (transport_error + InstallSnapshotReply)" where
  "grpc_SendInstallSnapshot = grpc_Send HandleInstallSnapshot"

lemmas grpc_sends = grpc_SendRequestVote_def grpc_SendAppendEntries_def grpc_SendInstallSnapshot_def

section \<open>Partitions\<close>

lemma partition_exact:
  "isPartitioned a b (net_Partition c d n) \<longleftrightarrow> (a, b) \<in> {(c, d), (d, c)} \<or> isPartitioned a b n"
  "isPartitioned a b (net_Heal c d n) \<longleftrightarrow> (a, b) \<notin> {(c, d), (d, c)} \<and> isPartitioned a b n"
  "\<not> isPartitioned a b (net_HealAll n)"
  by (auto simp: isPartitioned_def net_Partition_def net_Heal_def net_HealAll_def gomap_simps)

text \<open>Whatever the order of the calls, a network blocks both directions or none, and healing undoes a partition.\<close>

inductive network_state :: "InMemNetwork \<Rightarrow> bool" where
  "network_state NewInMemNetwork"
| "network_state n \<Longrightarrow> network_state (net_Register i h n)"
| "network_state n \<Longrightarrow> network_state (net_Partition a b n)"
| "network_state n \<Longrightarrow> network_state (net_Heal a b n)"
| "network_state n \<Longrightarrow> network_state (net_HealAll n)"
| "network_state n \<Longrightarrow> network_state (fst (inmem_SendRequestVote i peer va n))"
| "network_state n \<Longrightarrow> network_state (fst (inmem_SendAppendEntries i peer aa n))"
| "network_state n \<Longrightarrow> network_state (fst (inmem_SendInstallSnapshot i peer sa n))"

lemma inmem_Send_partitions: "net_partitions (fst (inmem_Send handle i peer args n)) = net_partitions n"
  by (simp add: inmem_Send_def split: sum.split prod.split)

lemma partition_symmetric: "network_state n \<Longrightarrow> isPartitioned a b n = isPartitioned b a n"
  by (induction rule: network_state.induct)
    (auto simp: partition_exact inmem_sends, simp_all add: isPartitioned_def NewInMemNetwork_def net_Register_def inmem_Send_partitions)

lemma partition_isolates:
  assumes "isPartitioned a b n"
  shows "inmem_Send handle a b args n = (n, Inl (Partitioned a b))"
  using assms by (simp add: inmem_Send_def reach_def)

section \<open>The contract of a transport\<close>

text \<open>
  What the node relies on, for one of the three calls: a reply is the answer of the peer's handler, which has
  run once; after an error it has run once or not at all; and no other node changes.
\<close>

locale raft_transport =
  fixes handle :: "Node \<Rightarrow> 'a \<Rightarrow> Node \<times> 'r"
    and send :: "string \<Rightarrow> 'a \<Rightarrow> 's \<Rightarrow> 's \<times> (transport_error + 'r)"
    and nodes :: "'s \<Rightarrow> string \<Rightarrow> Node option"
    and invar :: "'s \<Rightarrow> bool"
  assumes send_invar: "invar s \<Longrightarrow> send peer args s = (s', r) \<Longrightarrow> invar s'"
    and send_reply: "invar s \<Longrightarrow> send peer args s = (s', Inr reply) \<Longrightarrow>
      \<exists>h h'. nodes s peer = Some h \<and> handle h args = (h', reply) \<and> nodes s' = (nodes s)(peer \<mapsto> h')"
    and send_error: "invar s \<Longrightarrow> send peer args s = (s', Inl err) \<Longrightarrow>
      nodes s' = nodes s \<or> (\<exists>h. nodes s peer = Some h \<and> nodes s' = (nodes s)(peer \<mapsto> fst (handle h args)))"

text \<open>One call to each of some peers, one after the other.\<close>

primrec broadcast :: "(string \<Rightarrow> 'a \<Rightarrow> 's \<Rightarrow> 's \<times> (transport_error + 'r)) \<Rightarrow> 'a \<Rightarrow> string list \<Rightarrow> 's \<Rightarrow> 's \<times> (transport_error + 'r) list" where
  "broadcast send args [] s = (s, [])"
| "broadcast send args (peer # peers) s =
     (case send peer args s of (s1, r) \<Rightarrow> case broadcast send args peers s1 of (s2, rs) \<Rightarrow> (s2, r # rs))"

context raft_transport
begin

lemma send_others:
  assumes "invar s" and "send peer args s = (s', r)" and "p \<noteq> peer"
  shows "nodes s' p = nodes s p"
proof (cases r)
  case (Inl err)
  then show ?thesis using send_error [OF assms(1)] assms(2,3) by fastforce
next
  case (Inr reply)
  then show ?thesis using send_reply [OF assms(1)] assms(2,3) by fastforce
qed

lemma broadcast_others:
  "invar s \<Longrightarrow> broadcast send args peers s = (s', rs) \<Longrightarrow> p \<notin> set peers \<Longrightarrow> nodes s' p = nodes s p"
proof (induction peers arbitrary: s rs)
  case (Cons peer peers)
  obtain s1 r rs1 where step: "send peer args s = (s1, r)" "broadcast send args peers s1 = (s', rs1)"
    using Cons.prems(2) by (auto split: prod.splits)
  have "nodes s' p = nodes s1 p" using Cons.IH [OF send_invar [OF Cons.prems(1) step(1)] step(2)] Cons.prems(3) by simp
  then show ?case using send_others [OF Cons.prems(1) step(1)] Cons.prems(3) by simp
qed simp

lemma broadcast_replies:
  assumes "invar s" and "distinct peers" and "broadcast send args peers s = (s', rs)"
  shows "length rs = length peers \<and> (\<forall>k < length peers. \<forall>reply. rs ! k = Inr reply \<longrightarrow>
    (\<exists>h h'. nodes s (peers ! k) = Some h \<and> handle h args = (h', reply) \<and> nodes s' (peers ! k) = Some h'))"
  using assms
proof (induction peers arbitrary: s rs)
  case (Cons peer peers)
  obtain s1 r rs1 where step: "send peer args s = (s1, r)" "broadcast send args peers s1 = (s', rs1)" "rs = r # rs1"
    using Cons.prems(3) by (auto split: prod.splits)
  have inv: "invar s1" using send_invar [OF Cons.prems(1) step(1)] .
  note IH = Cons.IH [OF inv _ step(2)]
  show ?case
  proof (intro conjI allI impI)
    show "length rs = length (peer # peers)" using IH Cons.prems(2) step(3) by simp
    fix k reply assume k: "k < length (peer # peers)" "rs ! k = Inr reply"
    show "\<exists>h h'. nodes s ((peer # peers) ! k) = Some h \<and> handle h args = (h', reply) \<and> nodes s' ((peer # peers) ! k) = Some h'"
    proof (cases k)
      case 0
      then have "r = Inr reply" using k(2) step(3) by simp
      then obtain h h' where "nodes s peer = Some h" "handle h args = (h', reply)" "nodes s1 peer = Some h'"
        using send_reply [OF Cons.prems(1)] step(1) by fastforce
      then show ?thesis using broadcast_others [OF inv step(2), of peer] Cons.prems(2) 0 by simp
    next
      case (Suc j)
      then have j: "j < length peers" "rs1 ! j = Inr reply" "peers ! j \<noteq> peer" using k step(3) Cons.prems(2) by auto
      have "nodes s1 (peers ! j) = nodes s (peers ! j)" using send_others [OF Cons.prems(1) step(1) j(3)] .
      then show ?thesis using IH Cons.prems(2) j Suc by auto
    qed
  qed
qed simp

end

lemma inmem_Send_cases:
  "inmem_Send handle i peer args n = (n', r) \<Longrightarrow>
    n' = n \<and> (\<exists>err. r = Inl err) \<or>
    (\<exists>h h' reply. getHandler peer n = Some h \<and> handle h args = (h', reply) \<and> r = Inr reply \<and> (\<lambda>p. getHandler p n') = (\<lambda>p. getHandler p n)(peer \<mapsto> h'))"
  by (auto simp: inmem_Send_def reach_def getHandler_def gomap_simps fun_eq_iff split: if_splits option.splits sum.splits prod.splits)

interpretation inmem: raft_transport handle "inmem_Send handle i" "\<lambda>n p. getHandler p n" "\<lambda>_. True" for handle i
  by unfold_locales (auto dest!: inmem_Send_cases)

section \<open>The two transports deliver alike\<close>

text \<open>
  \<open>same_nodes n servers\<close>: the nodes registered at the network are the nodes served over gRPC, with IDs as
  addresses. \<open>conns_ok t\<close>: a cached connection leads to the address it is cached for.
\<close>

definition same_nodes :: "InMemNetwork \<Rightarrow> raft_servers \<Rightarrow> bool" where
  "same_nodes n servers \<longleftrightarrow> (\<forall>peer. getHandler peer n = Option.bind (gm_lookup servers peer) id)"

definition conns_ok :: "GRPCTransport \<Rightarrow> bool" where
  "conns_ok t \<longleftrightarrow> (\<forall>peer c. gm_lookup (gt_conns t) peer = Some c \<longrightarrow> c = peer)"

text \<open>What a call over each transport may be observed to do.\<close>

definition alike :: "InMemNetwork \<times> (transport_error + 'r) \<Rightarrow> GRPCTransport \<times> raft_servers \<times> (transport_error + 'r) \<Rightarrow> bool" where
  "alike p q = (case (p, q) of ((n, r), (t, servers, r')) \<Rightarrow>
     same_nodes n servers \<and> conns_ok t \<and> (\<forall>reply. r = Inr reply \<longleftrightarrow> r' = Inr reply))"

lemma grpc_conn_ok:
  assumes "conns_ok t" and "\<forall>cred. newClient peer cred"
  obtains t' where "grpc_conn newClient (\<lambda>t. t) peer t = (t', Inr peer)" "conns_ok t'"
  using assms by (cases "gm_lookup (gt_conns t) peer") (auto simp: grpc_conn_def conns_ok_def gomap_simps)

lemma grpc_Invoke_delivers:
  assumes "gob_law GA" and "gob_law GR" and "gm_lookup servers c = Some (Some h)" and "handle h args = (h', reply)"
  shows "grpc_Invoke handle GA GR False False c args servers = (gm_set c (Some h') servers, Inr reply)"
proof -
  obtain data where "gob_Marshal GA args = Some data" "gob_Unmarshal GA data = Some args" using assms(1) by (auto simp: gob_law_def)
  moreover obtain data' where "gob_Marshal GR reply = Some data'" "gob_Unmarshal GR data' = Some reply" using assms(2) by (auto simp: gob_law_def)
  ultimately show ?thesis using assms(3,4) by (simp add: grpc_Invoke_def handleGRPC_def)
qed

lemma send_alike:
  assumes gob: "gob_law GA" "gob_law GR" and dial: "\<forall>peer cred. newClient peer cred" and t: "conns_ok t" and same: "same_nodes n servers"
  shows "alike (inmem_Send handle i peer args n) (grpc_Send handle GA GR newClient (isPartitioned i peer n) False peer args t servers)"
proof -
  obtain t' where conn: "grpc_conn newClient (\<lambda>t. t) peer t = (t', Inr peer)" "conns_ok t'" using grpc_conn_ok [OF t] dial by metis
  have here: "getHandler peer n = Option.bind (gm_lookup servers peer) id" using same by (simp add: same_nodes_def)
  obtain data where data: "gob_Marshal GA args = Some data" using gob(1) by (auto simp: gob_law_def)
  show ?thesis
  proof (cases "isPartitioned i peer n \<or> getHandler peer n = None")
    case True
    then show ?thesis
      using conn here same data by (auto simp: inmem_Send_def reach_def grpc_Send_def grpc_Invoke_def alike_def split: option.split)
  next
    case False
    then obtain h where h: "getHandler peer n = Some h" "gm_lookup servers peer = Some (Some h)"
      using here by (cases "gm_lookup servers peer") auto
    obtain h' reply where run: "handle h args = (h', reply)" by fastforce
    have "same_nodes (n\<lparr>net_handlers := gm_set peer h' (net_handlers n)\<rparr>) (gm_set peer (Some h') servers)"
      using same by (simp add: same_nodes_def getHandler_def gomap_simps)
    then show ?thesis
      using False conn h run grpc_Invoke_delivers [where handle = handle and args = args, OF gob h(2) run]
      by (simp add: inmem_Send_def reach_def grpc_Send_def alike_def)
  qed
qed


text \<open>The reply of a call can be lost after the handler ran: an error does not tell that the node is unchanged.\<close>

lemma unanswered_call_takes_effect:
  assumes "gob_law GA" and "gm_lookup servers c = Some (Some h)" and "handle h args = (h', reply)"
  shows "grpc_Invoke handle GA GR False True c args servers = (gm_set c (Some h') servers, Inl (CallFailed Unavailable))"
proof -
  obtain data where "gob_Marshal GA args = Some data" "gob_Unmarshal GA data = Some args" using assms(1) by (auto simp: gob_law_def)
  with assms(2,3) show ?thesis by (simp add: grpc_Invoke_def handleGRPC_def)
qed

text \<open>The gRPC transport meets the contract whatever is lost.\<close>

definition served :: "GRPCTransport \<times> raft_servers \<Rightarrow> string \<Rightarrow> Node option" where
  "served ts peer = Option.bind (gm_lookup (snd ts) peer) id"

definition grpc_call :: "(Node \<Rightarrow> 'a \<Rightarrow> Node \<times> 'r) \<Rightarrow> 'a gobCodec \<Rightarrow> 'r gobCodec \<Rightarrow> (string \<Rightarrow> string option \<Rightarrow> bool) \<Rightarrow> (string \<Rightarrow> bool) \<Rightarrow> (string \<Rightarrow> bool) \<Rightarrow>
    string \<Rightarrow> 'a \<Rightarrow> GRPCTransport \<times> raft_servers \<Rightarrow> (GRPCTransport \<times> raft_servers) \<times> (transport_error + 'r)" where
  "grpc_call handle GA GR newClient lost unanswered peer args ts =
     (case grpc_Send handle GA GR newClient (lost peer) (unanswered peer) peer args (fst ts) (snd ts) of (t, servers, r) \<Rightarrow> ((t, servers), r))"

lemma grpc_Invoke_cases:
  assumes "gob_law GA" and "gob_law GR" and "grpc_Invoke handle GA GR lost unanswered c args servers = (servers', r)"
  shows "servers' = servers \<and> (\<exists>err. r = Inl err) \<or>
    (\<exists>h h' reply. gm_lookup servers c = Some (Some h) \<and> handle h args = (h', reply) \<and> servers' = gm_set c (Some h') servers \<and>
      (r = Inr reply \<or> (\<exists>err. r = Inl err)))"
proof -
  obtain data where data: "gob_Marshal GA args = Some data" "gob_Unmarshal GA data = Some args" using assms(1) by (auto simp: gob_law_def)
  have reply: "Option.bind (gob_Marshal GR v) (gob_Unmarshal GR) = Some v" for v
    using assms(2) by (metis bind.bind_lunit gob_law_def)
  show ?thesis
    using assms(3) data reply by (auto simp: grpc_Invoke_def handleGRPC_def split: if_splits option.splits prod.splits)
qed

lemma grpc_conn_cases:
  assumes "conns_ok t" and "grpc_conn newClient (\<lambda>t. t) peer t = (t', r)"
  shows "conns_ok t' \<and> (r = Inr peer \<or> r = Inl (DialFailed peer))"
  using assms by (auto simp: grpc_conn_def conns_ok_def gomap_simps split: option.splits if_splits)

lemma grpc_call_cases:
  assumes "gob_law GA" and "gob_law GR" and "conns_ok (fst ts)" and "grpc_call handle GA GR newClient lost unanswered peer args ts = (ts', r)"
  shows "conns_ok (fst ts') \<and> (served ts' = served ts \<and> (\<exists>err. r = Inl err) \<or>
    (\<exists>h h' reply. served ts peer = Some h \<and> handle h args = (h', reply) \<and> served ts' = (served ts)(peer \<mapsto> h') \<and> (r = Inr reply \<or> (\<exists>err. r = Inl err))))"
proof -
  obtain t c where conn: "grpc_conn newClient (\<lambda>t. t) peer (fst ts) = (t, c)" by fastforce
  note ok = grpc_conn_cases [OF assms(3) conn]
  show ?thesis
  proof (cases c)
    case (Inl err)
    then show ?thesis using assms(4) conn ok by (auto simp: grpc_call_def grpc_Send_def served_def)
  next
    case (Inr a)
    obtain servers' r' where inv: "grpc_Invoke handle GA GR (lost peer) (unanswered peer) peer args (snd ts) = (servers', r')" by fastforce
    then have "ts' = (t, servers')" "r' = r" using assms(4) conn ok Inr by (auto simp: grpc_call_def grpc_Send_def)
    then show ?thesis using grpc_Invoke_cases [OF assms(1,2) inv] ok by (fastforce simp: served_def gomap_simps fun_eq_iff)
  qed
qed

interpretation grpc: raft_transport handle "grpc_call handle GA GR newClient lost unanswered" served
    "\<lambda>ts. gob_law GA \<and> gob_law GR \<and> conns_ok (fst ts)" for handle GA GR newClient lost unanswered
proof
  fix s peer args s' r
  assume inv: "gob_law GA \<and> gob_law GR \<and> conns_ok (fst s)" and "grpc_call handle GA GR newClient lost unanswered peer args s = (s', r)"
  then show "gob_law GA \<and> gob_law GR \<and> conns_ok (fst s')"
    using grpc_call_cases [of GA GR s handle newClient lost unanswered peer args s' r] by simp
next
  fix s peer args s' reply
  assume inv: "gob_law GA \<and> gob_law GR \<and> conns_ok (fst s)" and "grpc_call handle GA GR newClient lost unanswered peer args s = (s', Inr reply)"
  then show "\<exists>h h'. served s peer = Some h \<and> handle h args = (h', reply) \<and> served s' = (served s)(peer \<mapsto> h')"
    using grpc_call_cases [of GA GR s handle newClient lost unanswered peer args s' "Inr reply"] by auto
next
  fix s peer args s' err
  assume inv: "gob_law GA \<and> gob_law GR \<and> conns_ok (fst s)" and "grpc_call handle GA GR newClient lost unanswered peer args s = (s', Inl err)"
  then show "served s' = served s \<or> (\<exists>h. served s peer = Some h \<and> served s' = (served s)(peer \<mapsto> fst (handle h args)))"
    using grpc_call_cases [of GA GR s handle newClient lost unanswered peer args s' "Inl err"] by force
qed

text \<open>
  Votes counted from replies are recorded at the peers, over either transport and under any losses: a peer
  whose reply grants the vote has voted for the candidate in that term.
\<close>

lemma granted_vote_recorded:
  assumes "HandleRequestVote h args = (h', reply)" and "rvr_VoteGranted reply"
  shows "votedFor h' = rv_CandidateID args \<and> currentTerm h' = rv_Term args"
  using assms by (auto simp: HandleRequestVote_def becomeFollower_def signalElectionReset_def Let_def split: if_splits)

lemma grpc_votes_recorded:
  assumes "gob_law GA" and "gob_law GR" and "conns_ok (fst ts)" and "distinct peers" and "k < length peers"
    and run: "broadcast (grpc_call HandleRequestVote GA GR newClient lost unanswered) args peers ts = (ts', rs)"
    and "rs ! k = Inr reply" and "rvr_VoteGranted reply"
  shows "\<exists>h'. served ts' (peers ! k) = Some h' \<and> votedFor h' = rv_CandidateID args \<and> currentTerm h' = rv_Term args"
  using grpc.broadcast_replies [OF conjI [OF assms(1) conjI [OF assms(2,3)]] assms(4) run] assms(5,7,8) granted_vote_recorded by blast

lemma inmem_votes_recorded:
  assumes "distinct peers" and "k < length peers" and run: "broadcast (inmem_SendRequestVote i) args peers n = (n', rs)"
    and "rs ! k = Inr reply" and "rvr_VoteGranted reply"
  shows "\<exists>h'. getHandler (peers ! k) n' = Some h' \<and> votedFor h' = rv_CandidateID args \<and> currentTerm h' = rv_Term args"
  using inmem.broadcast_replies [OF TrueI assms(1) run [unfolded inmem_sends]] assms(2,4,5) granted_vote_recorded by blast

section \<open>A codec\<close>

text \<open>The law of gob can hold for the six messages: a codec put together from codecs of the fields.\<close>

type_synonym 'a coder = "('a \<Rightarrow> bytes) \<times> (bytes \<Rightarrow> ('a \<times> bytes) option)"

definition coder_ok :: "'a coder \<Rightarrow> bool" where
  "coder_ok C \<longleftrightarrow> (\<forall>x bs. snd C (fst C x @ bs) = Some (x, bs))"

definition co_pair :: "'a coder \<Rightarrow> 'b coder \<Rightarrow> ('a \<times> 'b) coder" where
  "co_pair C D = (\<lambda>(x, y). fst C x @ fst D y,
     \<lambda>bs. Option.bind (snd C bs) (\<lambda>(x, r). Option.bind (snd D r) (\<lambda>(y, r'). Some ((x, y), r'))))"

definition co_via :: "('a \<Rightarrow> 'b) \<Rightarrow> ('b \<Rightarrow> 'a) \<Rightarrow> 'b coder \<Rightarrow> 'a coder" where
  "co_via f g C = (\<lambda>x. fst C (f x), \<lambda>bs. map_option (\<lambda>(y, r). (g y, r)) (snd C bs))"

definition gob_of :: "'a coder \<Rightarrow> 'a gobCodec" where
  "gob_of C = \<lparr>gob_Marshal = (\<lambda>v. Some (fst C v)), gob_Unmarshal = (\<lambda>b. map_option fst (snd C b))\<rparr>"

definition co_u64 :: "u64 coder" where
  "co_u64 = co_via unat of_nat (enc_nat, dec_nat)"

definition co_bool :: "bool coder" where
  "co_bool = co_via (\<lambda>b. if b then 1 else 0) (\<lambda>n. n = 1) (enc_nat, dec_nat)"

definition co_list :: "'a coder \<Rightarrow> 'a list coder" where
  "co_list C = (enc_list (fst C), dec_list (snd C))"

definition co_string :: "string coder" where
  "co_string = co_list (enc_char, dec_char)"

definition co_bytes :: "bytes coder" where
  "co_bytes = co_list (co_via unat of_nat (enc_nat, dec_nat))"

lemma coder_ok_pair: "coder_ok C \<Longrightarrow> coder_ok D \<Longrightarrow> coder_ok (co_pair C D)"
  by (simp add: coder_ok_def co_pair_def)

lemma coder_ok_via: "coder_ok C \<Longrightarrow> (\<And>x. g (f x) = x) \<Longrightarrow> coder_ok (co_via f g C)"
  by (simp add: coder_ok_def co_via_def)

lemma coder_ok_list: "coder_ok C \<Longrightarrow> coder_ok (co_list C)"
  by (simp add: coder_ok_def co_list_def dec_enc_list)

lemma coder_ok_base: "coder_ok (enc_nat, dec_nat)" "coder_ok (enc_char, dec_char)" "coder_ok (enc_int, dec_int)"
  by (simp_all add: coder_ok_def)

lemma coder_ok_fields: "coder_ok co_u64" "coder_ok co_bool" "coder_ok co_string" "coder_ok co_bytes"
  unfolding co_u64_def co_bool_def co_string_def co_bytes_def
  by (intro coder_ok_via coder_ok_list coder_ok_base; simp)+

lemmas coder_intros = coder_ok_pair coder_ok_list coder_ok_fields coder_ok_base

lemma gob_of_law: "coder_ok C \<Longrightarrow> gob_law (gob_of C)"
  unfolding gob_law_def gob_of_def coder_ok_def by (metis append_Nil2 fst_conv gobCodec.select_convs option.simps(9))

definition co_Entry :: "Entry coder" where
  "co_Entry = co_via (\<lambda>e. (e_Index e, e_Term e, e_Command e)) (\<lambda>(i, t, c). \<lparr>e_Index = i, e_Term = t, e_Command = c\<rparr>)
     (co_pair co_u64 (co_pair co_u64 co_bytes))"

definition co_RequestVoteArgs :: "RequestVoteArgs coder" where
  "co_RequestVoteArgs = co_via (\<lambda>a. (rv_Term a, rv_CandidateID a, rv_LastLogIndex a, rv_LastLogTerm a))
     (\<lambda>(t, c, i, l). \<lparr>rv_Term = t, rv_CandidateID = c, rv_LastLogIndex = i, rv_LastLogTerm = l\<rparr>)
     (co_pair co_u64 (co_pair co_string (co_pair co_u64 co_u64)))"

definition co_RequestVoteReply :: "RequestVoteReply coder" where
  "co_RequestVoteReply = co_via (\<lambda>r. (rvr_Term r, rvr_VoteGranted r)) (\<lambda>(t, g). \<lparr>rvr_Term = t, rvr_VoteGranted = g\<rparr>) (co_pair co_u64 co_bool)"

definition co_AppendEntriesArgs :: "AppendEntriesArgs coder" where
  "co_AppendEntriesArgs = co_via (\<lambda>a. (ae_Term a, ae_LeaderID a, ae_PrevLogIndex a, ae_PrevLogTerm a, ae_Entries a, ae_LeaderCommit a))
     (\<lambda>(t, l, i, p, es, c). \<lparr>ae_Term = t, ae_LeaderID = l, ae_PrevLogIndex = i, ae_PrevLogTerm = p, ae_Entries = es, ae_LeaderCommit = c\<rparr>)
     (co_pair co_u64 (co_pair co_string (co_pair co_u64 (co_pair co_u64 (co_pair (co_list co_Entry) co_u64)))))"

definition co_AppendEntriesReply :: "AppendEntriesReply coder" where
  "co_AppendEntriesReply = co_via (\<lambda>r. (aer_Term r, aer_Success r, aer_ConflictIndex r, aer_ConflictTerm r))
     (\<lambda>(t, s, i, c). \<lparr>aer_Term = t, aer_Success = s, aer_ConflictIndex = i, aer_ConflictTerm = c\<rparr>)
     (co_pair co_u64 (co_pair co_bool (co_pair co_u64 co_u64)))"

definition co_InstallSnapshotArgs :: "InstallSnapshotArgs coder" where
  "co_InstallSnapshotArgs = co_via (\<lambda>a. (is_Term a, is_LeaderID a, is_LastIncludedIndex a, is_LastIncludedTerm a, is_Data a, is_Offset a, is_Done a))
     (\<lambda>(t, l, i, p, d, off, fin). \<lparr>is_Term = t, is_LeaderID = l, is_LastIncludedIndex = i, is_LastIncludedTerm = p, is_Data = d, is_Offset = off, is_Done = fin\<rparr>)
     (co_pair co_u64 (co_pair co_string (co_pair co_u64 (co_pair co_u64 (co_pair co_bytes (co_pair (enc_int, dec_int) co_bool))))))"

definition co_InstallSnapshotReply :: "InstallSnapshotReply coder" where
  "co_InstallSnapshotReply = co_via isr_Term (\<lambda>t. \<lparr>isr_Term = t\<rparr>) co_u64"

lemma coder_ok_Entry: "coder_ok co_Entry"
  unfolding co_Entry_def by (rule coder_ok_via) (intro coder_intros, simp)

lemma coders_ok: "coder_ok co_RequestVoteArgs" "coder_ok co_RequestVoteReply" "coder_ok co_AppendEntriesArgs"
  "coder_ok co_AppendEntriesReply" "coder_ok co_InstallSnapshotArgs" "coder_ok co_InstallSnapshotReply"
  unfolding co_RequestVoteArgs_def co_RequestVoteReply_def co_AppendEntriesArgs_def co_AppendEntriesReply_def
    co_InstallSnapshotArgs_def co_InstallSnapshotReply_def
  by (rule coder_ok_via, intro coder_intros coder_ok_Entry, simp)+

definition sample_network :: InMemNetwork where
  "sample_network = net_Partition ''n1'' ''n3'' (net_Register ''n2'' (raft_New (raft_DefaultConfig ''n2'' [''n1'', ''n3''])) NewInMemNetwork)"

definition sample_servers :: raft_servers where
  "sample_servers = [(''n2'', Some (raft_New (raft_DefaultConfig ''n2'' [''n1'', ''n3''])))]"


end
