(* ===== verification/Security.thy ===== *)
theory Security
  imports VaultFS_Prelude
begin

text \<open>
  The certificates and TLS configurations of \<^verbatim>\<open>internal/security\<close> (\<^verbatim>\<open>certs.go\<close>, \<^verbatim>\<open>tls.go\<close>). The file
  system and the parsers of PEM, X.509 and key pairs are arguments; \<open>None\<close> is their error.
\<close>

section \<open>Certificates\<close>

record x509_Certificate =
  x_CommonName :: string
  x_NotBefore :: gtime
  x_NotAfter :: gtime

record ('pair, 'pool) security_env =
  se_ReadFile :: "string \<Rightarrow> bytes option"
  se_PemDecode :: "bytes \<Rightarrow> bytes option"
  se_ParseCertificate :: "bytes \<Rightarrow> x509_Certificate option"
  se_LoadX509KeyPair :: "string \<Rightarrow> string \<Rightarrow> 'pair option"
  se_AppendCertsFromPEM :: "bytes \<Rightarrow> 'pool option"

datatype security_error =
  ReadCertificate string | NoPEMBlock string | ParseCertificate string | ErrCertExpired string gtime |
  ReadCA string | NoValidCertificates string | LoadKeyPair

record CertInfo =
  ci_Subject :: string
  ci_NotBefore :: gtime
  ci_NotAfter :: gtime

definition expiryWarningWindow :: duration where
  "expiryWarningWindow = 30 * 24 * 3600 * 10 ^ 9"

definition loadLeafCertificate :: "('pair, 'pool) security_env \<Rightarrow> string \<Rightarrow> security_error + x509_Certificate" where
  "loadLeafCertificate E certFile =
     (case se_ReadFile E certFile of
        None \<Rightarrow> Inl (ReadCertificate certFile)
      | Some raw \<Rightarrow>
          (case se_PemDecode E raw of
             None \<Rightarrow> Inl (NoPEMBlock certFile)
           | Some block \<Rightarrow>
               (case se_ParseCertificate E block of None \<Rightarrow> Inl (ParseCertificate certFile) | Some cert \<Rightarrow> Inr cert)))"

definition InspectCert :: "('pair, 'pool) security_env \<Rightarrow> string \<Rightarrow> security_error + CertInfo" where
  "InspectCert E certFile =
     (case loadLeafCertificate E certFile of
        Inl err \<Rightarrow> Inl err
      | Inr cert \<Rightarrow> Inr \<lparr>ci_Subject = x_CommonName cert, ci_NotBefore = x_NotBefore cert, ci_NotAfter = x_NotAfter cert\<rparr>)"

text \<open>\<^verbatim>\<open>t.Sub(u)\<close>: a difference that no duration can hold is cut to the greatest or the least duration.\<close>

definition time_Sub :: "gtime \<Rightarrow> gtime \<Rightarrow> duration" where
  "time_Sub t u = max (- (2 ^ 63)) (min (2 ^ 63 - 1) (t - u))"

text \<open>The result: whether the warning is logged, and the error.\<close>

definition CheckExpiry :: "('pair, 'pool) security_env \<Rightarrow> string \<Rightarrow> gtime \<Rightarrow> bool \<times> security_error option" where
  "CheckExpiry E certFile now =
     (case InspectCert E certFile of
        Inl err \<Rightarrow> (False, Some err)
      | Inr info \<Rightarrow>
          if now > ci_NotAfter info then (False, Some (ErrCertExpired (ci_Subject info) (ci_NotAfter info)))
          else (time_Sub (ci_NotAfter info) now < expiryWarningWindow, None))"

section \<open>TLS configurations\<close>

record security_Config =
  sec_CertFile :: string
  sec_KeyFile :: string
  sec_CAFile :: string
  sec_ServerName :: string

datatype ClientAuthType = NoClientCert | RequestClientCert | RequireAnyClientCert | VerifyClientCertIfGiven | RequireAndVerifyClientCert

record ('pair, 'pool) tls_Config =
  tls_Certificates :: "'pair list"
  tls_ClientAuth :: ClientAuthType
  tls_ClientCAs :: "'pool option"
  tls_RootCAs :: "'pool option"
  tls_ServerName :: string
  tls_MinVersion :: "16 word"

definition VersionTLS13 :: "16 word" where
  "VersionTLS13 = 0x0304"

definition loadCertPool :: "('pair, 'pool) security_env \<Rightarrow> string \<Rightarrow> security_error + 'pool" where
  "loadCertPool E caFile =
     (case se_ReadFile E caFile of
        None \<Rightarrow> Inl (ReadCA caFile)
      | Some pem \<Rightarrow> (case se_AppendCertsFromPEM E pem of None \<Rightarrow> Inl (NoValidCertificates caFile) | Some pool \<Rightarrow> Inr pool))"

definition loadKeyPair :: "('pair, 'pool) security_env \<Rightarrow> security_Config \<Rightarrow> security_error + 'pair" where
  "loadKeyPair E c = (case se_LoadX509KeyPair E (sec_CertFile c) (sec_KeyFile c) of None \<Rightarrow> Inl LoadKeyPair | Some cert \<Rightarrow> Inr cert)"

definition ServerTLSConfig :: "('pair, 'pool) security_env \<Rightarrow> security_Config \<Rightarrow> security_error + ('pair, 'pool) tls_Config" where
  "ServerTLSConfig E c =
     (case loadKeyPair E c of
        Inl err \<Rightarrow> Inl err
      | Inr cert \<Rightarrow>
          (case loadCertPool E (sec_CAFile c) of
             Inl err \<Rightarrow> Inl err
           | Inr caPool \<Rightarrow> Inr \<lparr>tls_Certificates = [cert], tls_ClientAuth = RequireAndVerifyClientCert, tls_ClientCAs = Some caPool,
               tls_RootCAs = None, tls_ServerName = '''', tls_MinVersion = VersionTLS13\<rparr>))"

definition ClientTLSConfig :: "('pair, 'pool) security_env \<Rightarrow> security_Config \<Rightarrow> security_error + ('pair, 'pool) tls_Config" where
  "ClientTLSConfig E c =
     (case loadKeyPair E c of
        Inl err \<Rightarrow> Inl err
      | Inr cert \<Rightarrow>
          (case loadCertPool E (sec_CAFile c) of
             Inl err \<Rightarrow> Inl err
           | Inr caPool \<Rightarrow> Inr \<lparr>tls_Certificates = [cert], tls_ClientAuth = NoClientCert, tls_ClientCAs = None,
               tls_RootCAs = Some caPool, tls_ServerName = sec_ServerName c, tls_MinVersion = VersionTLS13\<rparr>))"

section \<open>Lemmas\<close>

text \<open>The cut of \<^verbatim>\<open>Sub\<close> does not change the decisions: a certificate is refused exactly when it expired, and warned about in its last 30 days.\<close>

lemma check_expiry_exact:
  assumes "InspectCert E certFile = Inr info"
  shows "CheckExpiry E certFile now =
    (if ci_NotAfter info < now then (False, Some (ErrCertExpired (ci_Subject info) (ci_NotAfter info)))
     else (ci_NotAfter info - now < expiryWarningWindow, None))"
  using assms by (auto simp: CheckExpiry_def time_Sub_def expiryWarningWindow_def)

text \<open>A certificate that is not valid yet passes the check.\<close>

lemma future_certificate_passes:
  assumes "InspectCert E certFile = Inr info" and "now < ci_NotBefore info" and "ci_NotBefore info \<le> ci_NotAfter info"
  shows "snd (CheckExpiry E certFile now) = None"
  using assms by (simp add: check_expiry_exact)

text \<open>
  Nodes that name the same CA file verify each other against the same pool: a server demands a certificate of
  every client and checks it against the pool the client's side checks the server with, both with TLS 1.3 or later.
\<close>

lemma mutual_tls:
  assumes "ServerTLSConfig E c = Inr srv" and "ClientTLSConfig E c' = Inr cl" and "sec_CAFile c' = sec_CAFile c"
  shows "tls_ClientAuth srv = RequireAndVerifyClientCert \<and> tls_ClientCAs srv = tls_RootCAs cl \<and> tls_RootCAs cl \<noteq> None \<and>
    tls_Certificates srv \<noteq> [] \<and> tls_Certificates cl \<noteq> [] \<and> VersionTLS13 \<le> tls_MinVersion srv \<and> VersionTLS13 \<le> tls_MinVersion cl"
  using assms by (auto simp: ServerTLSConfig_def ClientTLSConfig_def split: sum.splits)

text \<open>A node comes up with both configurations or with none: they load the same files.\<close>

lemma tls_configs_together: "(\<exists>srv. ServerTLSConfig E c = Inr srv) \<longleftrightarrow> (\<exists>cl. ClientTLSConfig E c = Inr cl)"
  by (simp add: ServerTLSConfig_def ClientTLSConfig_def split: sum.split)

end
