(* ===== verification/Commands.thy ===== *)
theory Commands
  imports Master Client Chunk_Server Go_Paths Security
begin

text \<open>
  The code of the commands under \<^verbatim>\<open>cmd\<close> that is more than wiring: reading the configuration of a master and of
  a chunk server, the heartbeats of a chunk server, opening a client, and the formatting of the command line
  client. The environment is a function from variables to values, empty if unset; the flags given on the
  command line are a partial function.
\<close>

section \<open>Strings of the standard library\<close>

text \<open>\<^verbatim>\<open>strings.Cut(s, sep)\<close> for a separator of one byte: what is before and after it, and whether it occurs.\<close>

definition cut_char :: "char \<Rightarrow> string \<Rightarrow> string \<times> string \<times> bool" where
  "cut_char c s = (if c \<in> set s then (takeWhile (\<lambda>x. x \<noteq> c) s, tl (dropWhile (\<lambda>x. x \<noteq> c) s), True) else (s, [], False))"

text \<open>
  \<^verbatim>\<open>strings.TrimSpace\<close> removes the white space of Unicode at both ends, which is given by its encodings in
  UTF-8: the six of ASCII, and U+0085, U+00A0, U+1680, U+2000 to U+200A, U+2028, U+2029, U+202F, U+205F, U+3000.
\<close>

definition unicode_spaces :: "string list" where
  "unicode_spaces = map (\<lambda>b. [char_of (b :: nat)]) [9, 10, 11, 12, 13, 32] @
     map (map (char_of :: nat \<Rightarrow> char)) ([[0xC2, 0x85], [0xC2, 0xA0], [0xE1, 0x9A, 0x80]] @
       map (\<lambda>b. [0xE2, 0x80, b]) [0x80 ..< 0x8B] @ [[0xE2, 0x80, 0xA8], [0xE2, 0x80, 0xA9], [0xE2, 0x80, 0xAF], [0xE2, 0x81, 0x9F], [0xE3, 0x80, 0x80]])"

lemma find_prefix_shorter:
  assumes "find (\<lambda>sp. sp \<noteq> [] \<and> take (length sp) s = sp) spaces = Some sp"
  shows "length (drop (length sp) s) < length s"
proof -
  have "sp \<noteq> []" "take (length sp) s = sp" using assms by (auto simp: find_Some_iff)
  then show ?thesis by (cases s) auto
qed

function trim_left :: "string list \<Rightarrow> string \<Rightarrow> string" where
  "trim_left spaces s =
     (case find (\<lambda>sp. sp \<noteq> [] \<and> take (length sp) s = sp) spaces of
        None \<Rightarrow> s | Some sp \<Rightarrow> trim_left spaces (drop (length sp) s))"
  by pat_completeness auto
termination
  by (relation "measure (length \<circ> snd)") (simp_all add: find_prefix_shorter del: length_drop)

declare trim_left.simps [simp del]

definition TrimSpace :: "string \<Rightarrow> string" where
  "TrimSpace s = rev (trim_left (map rev unicode_spaces) (rev (trim_left unicode_spaces s)))"

text \<open>\<^verbatim>\<open>strconv.Atoi\<close>; \<open>None\<close> is a syntax or a range error.\<close>

definition Atoi_digits :: "string \<Rightarrow> nat option" where
  "Atoi_digits s = (if s = [] then None else parse_digits 0 s)"

definition Atoi :: "string \<Rightarrow> int option" where
  "Atoi s =
     (let v = (case s of
                 CHR ''-'' # ds \<Rightarrow> map_option (\<lambda>n. - int n) (Atoi_digits ds)
               | CHR ''+'' # ds \<Rightarrow> map_option int (Atoi_digits ds)
               | _ \<Rightarrow> map_option int (Atoi_digits s))
      in case v of None \<Rightarrow> None | Some n \<Rightarrow> if - (2 ^ 63) \<le> n \<and> n < 2 ^ 63 then Some n else None)"

section \<open>Configuration\<close>

definition envOr :: "(string \<Rightarrow> string) \<Rightarrow> string \<Rightarrow> string \<Rightarrow> string" where
  "envOr Getenv env def = (let v = Getenv env in if v \<noteq> '''' then v else def)"

definition envOrInt :: "(string \<Rightarrow> string) \<Rightarrow> string \<Rightarrow> int \<Rightarrow> int" where
  "envOrInt Getenv env def =
     (let v = Getenv env in if v \<noteq> '''' then (case Atoi v of Some n \<Rightarrow> n | None \<Rightarrow> def) else def)"

text \<open>
  \<^verbatim>\<open>dropSelf\<close> filters in place: \<open>out\<close> is the first \<open>k\<close> elements of the array it reads, and an append
  overwrites the element at \<open>k\<close>.
\<close>

definition is_self :: "string \<Rightarrow> string \<Rightarrow> bool" where
  "is_self nodeID p =
     (let host = (case cut_char (CHR '':'') p of (h, _, ok) \<Rightarrow> if ok then h else p);
          label = fst (cut_char (CHR ''.'') host)
      in label = nodeID)"

function dropSelf_loop :: "string \<Rightarrow> nat \<Rightarrow> nat \<Rightarrow> string list \<Rightarrow> string list" where
  "dropSelf_loop nodeID i k peers =
     (if i < length peers
      then let p = peers ! i
           in if is_self nodeID p then dropSelf_loop nodeID (Suc i) k peers
              else dropSelf_loop nodeID (Suc i) (Suc k) (peers[k := p])
      else take k peers)"
  by pat_completeness auto
termination
  by (relation "measure (\<lambda>(_, i, _, peers). length peers - i)") auto

declare dropSelf_loop.simps [simp del]

definition dropSelf :: "string list \<Rightarrow> string \<Rightarrow> string list" where
  "dropSelf peers nodeID = dropSelf_loop nodeID 0 0 peers"

primrec splitList_loop :: "string list \<Rightarrow> string list \<Rightarrow> string list" where
  "splitList_loop [] out = out"
| "splitList_loop (p # ps) out = splitList_loop ps (let p = TrimSpace p in if p \<noteq> '''' then out @ [p] else out)"

definition splitList :: "string \<Rightarrow> string list" where
  "splitList s = splitList_loop (split_char (CHR '','') s) []"

primrec chunk_nodes_loop :: "string list \<Rightarrow> NodeInfo list \<Rightarrow> NodeInfo list" where
  "chunk_nodes_loop [] nodes = nodes"
| "chunk_nodes_loop (item # items) nodes =
     chunk_nodes_loop items (nodes @ [case cut_char (CHR ''@'') item of
       (name, address, ok) \<Rightarrow> if ok then \<lparr>ni_NodeId = name, ni_Address = address\<rparr> else \<lparr>ni_NodeId = item, ni_Address = item\<rparr>])"

definition parseChunkNodes :: "string \<Rightarrow> NodeInfo list" where
  "parseChunkNodes spec = chunk_nodes_loop (splitList spec) []"

text \<open>A flag with its default.\<close>

definition flag_value :: "(string \<Rightarrow> 'v option) \<Rightarrow> string \<Rightarrow> 'v \<Rightarrow> 'v" where
  "flag_value flags name def = (case flags name of None \<Rightarrow> def | Some v \<Rightarrow> v)"

record master_config =
  mc_nodeID :: string
  mc_listen :: string
  mc_raftListen :: string
  mc_raftPeers :: "string list"
  mc_dataDir :: string
  mc_chunkNodes :: "NodeInfo list"
  mc_replication :: int
  mc_metricsAddr :: string
  mc_certFile :: string
  mc_keyFile :: string
  mc_caFile :: string

definition master_parseConfig :: "(string \<Rightarrow> string) \<Rightarrow> (string \<Rightarrow> string option) \<Rightarrow> (string \<Rightarrow> int option) \<Rightarrow> master_config" where
  "master_parseConfig Getenv flags intFlags =
     (let str = (\<lambda>name env def. flag_value flags name (envOr Getenv env def));
          nodeID = str ''node-id'' ''VAULTFS_NODE_ID'' ''master-0''
      in \<lparr>mc_nodeID = nodeID,
          mc_listen = str ''listen'' ''VAULTFS_LISTEN'' '':9000'',
          mc_raftListen = str ''raft-listen'' ''VAULTFS_RAFT_LISTEN'' '':9200'',
          mc_raftPeers = dropSelf (splitList (str ''raft-peers'' ''VAULTFS_RAFT_PEERS'' '''')) nodeID,
          mc_dataDir = str ''data-dir'' ''VAULTFS_DATA_DIR'' ''/var/lib/vaultfs/meta'',
          mc_chunkNodes = parseChunkNodes (str ''chunkservers'' ''VAULTFS_CHUNKSERVERS'' ''''),
          mc_replication = flag_value intFlags ''replication'' (envOrInt Getenv ''VAULTFS_REPLICATION'' DefaultReplicationFactor),
          mc_metricsAddr = str ''metrics-addr'' ''VAULTFS_METRICS_ADDR'' '':9001'',
          mc_certFile = str ''cert'' ''VAULTFS_CERT'' ''/etc/vaultfs/certs/master.crt'',
          mc_keyFile = str ''key'' ''VAULTFS_KEY'' ''/etc/vaultfs/certs/master.key'',
          mc_caFile = str ''ca'' ''VAULTFS_CA'' ''/etc/vaultfs/certs/ca.crt''\<rparr>)"

record chunkserver_config =
  cc_nodeID :: string
  cc_listen :: string
  cc_dataDir :: string
  cc_metricsAddr :: string
  cc_masters :: "string list"
  cc_certFile :: string
  cc_keyFile :: string
  cc_caFile :: string

definition chunkserver_parseConfig :: "(string \<Rightarrow> string) \<Rightarrow> (string \<Rightarrow> string option) \<Rightarrow> chunkserver_config" where
  "chunkserver_parseConfig Getenv flags =
     (let str = (\<lambda>name env def. flag_value flags name (envOr Getenv env def))
      in \<lparr>cc_nodeID = str ''node-id'' ''VAULTFS_NODE_ID'' ''chunkserver-0'',
          cc_listen = str ''listen'' ''VAULTFS_LISTEN'' '':9100'',
          cc_dataDir = str ''data-dir'' ''VAULTFS_DATA_DIR'' ''/var/lib/vaultfs/chunks'',
          cc_metricsAddr = str ''metrics-addr'' ''VAULTFS_METRICS_ADDR'' '':9101'',
          cc_masters = splitList (str ''masters'' ''VAULTFS_MASTERS'' ''''),
          cc_certFile = str ''cert'' ''VAULTFS_CERT'' ''/etc/vaultfs/certs/chunkserver.crt'',
          cc_keyFile = str ''key'' ''VAULTFS_KEY'' ''/etc/vaultfs/certs/chunkserver.key'',
          cc_caFile = str ''ca'' ''VAULTFS_CA'' ''/etc/vaultfs/certs/ca.crt''\<rparr>)"

text \<open>The state a master starts with, once its files are open: \<open>ns\<close> is the namespace over its database.\<close>

definition master_run_init :: "master_config \<Rightarrow> 's \<Rightarrow> 's master" where
  "master_run_init c ns =
     master_New ns (NewLeaseManager DefaultLeaseTTL) (raft_New (raft_DefaultConfig (mc_nodeID c) (mc_raftPeers c)))
       (mc_chunkNodes c) (mc_replication c) (Some []) (Some (NewMonitor 0 (mc_replication c))) (Some NewChunkMap)"

section \<open>Heartbeats of a chunk server\<close>

definition heartbeatInterval :: duration where
  "heartbeatInterval = 5 * 10 ^ 9"

text \<open>
  One round of heartbeats to the masters whose address \<^verbatim>\<open>grpc.NewClient\<close> accepted: \<open>arrives i\<close> tells whether
  the \<open>i\<close>-th call reaches its master, and \<open>now i\<close> is that master's clock. Errors are only logged.
\<close>

definition heartbeat_send :: "store_faults \<Rightarrow> (nat \<Rightarrow> bool) \<Rightarrow> (nat \<Rightarrow> gtime) \<Rightarrow> chunkserver_config \<Rightarrow> chunk_Store \<Rightarrow> chunk_disk \<Rightarrow>
    's master list \<Rightarrow> 's master list" where
  "heartbeat_send ft arrives now c s d clients =
     (case chunk_Count ft s d of
        Inl err \<Rightarrow> clients
      | Inr count \<Rightarrow> map (\<lambda>(i, m). if arrives i then fst (master_Heartbeat (now i) (cc_nodeID c) (int64 (int count)) m) else m) (enumerate 0 clients))"

text \<open>\<open>rounds\<close> are the rounds of the loop up to the end of the context: the first at once, one per tick.\<close>

definition heartbeatLoop :: "chunkserver_config \<Rightarrow> chunk_Store \<Rightarrow> (store_faults \<times> (nat \<Rightarrow> bool) \<times> (nat \<Rightarrow> gtime) \<times> chunk_disk) list \<Rightarrow>
    's master list \<Rightarrow> 's master list" where
  "heartbeatLoop c s rounds clients =
     (if cc_masters c = [] then clients
      else fold (\<lambda>(ft, arrives, now, d). heartbeat_send ft arrives now c s d) rounds clients)"

section \<open>The command line client\<close>

definition mastersDefault :: "(string \<Rightarrow> string) \<Rightarrow> string list" where
  "mastersDefault Getenv =
     (let v = Getenv ''VAULTFS_MASTERS'' in if v \<noteq> '''' then split_char (CHR '','') v else [''localhost:9000''])"

record options =
  op_masters :: "string list"
  op_timeout :: duration
  op_certFile :: string
  op_keyFile :: string
  op_caFile :: string
  op_serverName :: string

datatype 'e command_error = TLSFailed security_error | ClientFailed client_error | CommandFailed 'e

text \<open>\<open>fn\<close> gets the credentials to dial with, the timeout and the client; the client is closed at the end.\<close>

definition withClient :: "('pair, 'pool) security_env \<Rightarrow> (string \<Rightarrow> bool) \<Rightarrow> options \<Rightarrow>
    (('pair, 'pool) tls_Config option \<Rightarrow> duration \<Rightarrow> Client \<Rightarrow> 'w \<Rightarrow> Client \<times> 'w \<times> 'e option) \<Rightarrow> 'w \<Rightarrow> 'w \<times> Client option \<times> 'e command_error option" where
  "withClient E closeFails opt fn w =
     (let tls = (if op_certFile opt \<noteq> ''''
          then map_sum id Some (ClientTLSConfig E \<lparr>sec_CertFile = op_certFile opt, sec_KeyFile = op_keyFile opt,
                 sec_CAFile = op_caFile opt, sec_ServerName = op_serverName opt\<rparr>)
          else Inr None)
      in case tls of
           Inl err \<Rightarrow> (w, None, Some (TLSFailed err))
         | Inr cred \<Rightarrow>
             (case client_New (op_masters opt) 0 of
                Inl err \<Rightarrow> (w, None, Some (ClientFailed err))
              | Inr c \<Rightarrow> (case fn cred (op_timeout opt) c w of
                    (c', w', err) \<Rightarrow> (w', Some (fst (client_Close closeFails c')), map_option CommandFailed err))))"

text \<open>
  Formatting of sizes. \<open>float64 n\<close> is the value of the conversion of a natural number below \<open>2 ^ 63\<close> to a
  float: the nearest number with 53 significant bits, ties to even. Dividing it by a power of two is exact, and
  \<^verbatim>\<open>%.1f\<close> rounds the quotient to the nearest tenth, ties to even.
\<close>

definition round_half_even :: "int \<Rightarrow> int \<Rightarrow> int" where
  "round_half_even a d =
     (let q = a div d; r = a mod d
      in if 2 * r < d then q else if 2 * r > d then q + 1 else if even q then q else q + 1)"

function excess_bits :: "int \<Rightarrow> nat" where
  "excess_bits n = (if n < 2 ^ 53 then 0 else Suc (excess_bits (n div 2)))"
  by pat_completeness auto
termination
  by (relation "measure nat") auto

declare excess_bits.simps [simp del]

definition float64 :: "int \<Rightarrow> int" where
  "float64 n = (let d = 2 ^ excess_bits n in round_half_even n d * d)"

definition format_tenths :: "int \<Rightarrow> int \<Rightarrow> string" where
  "format_tenths m d = (let t = round_half_even (10 * m) d in decimal (nat (t div 10)) @ ''.'' @ decimal (nat (t mod 10)))"

definition format_int :: "int \<Rightarrow> string" where
  "format_int n = (if n < 0 then CHR ''-'' # decimal (nat (- n)) else decimal (nat n))"

function size_loop :: "int \<Rightarrow> int \<Rightarrow> nat \<Rightarrow> int \<times> nat" where
  "size_loop x d e = (if x \<ge> 1024 then size_loop (x div 1024) (int64 (d * 1024)) (Suc e) else (d, e))"
  by pat_completeness auto
termination
  by (relation "measure (\<lambda>(x, _). nat x)") auto

declare size_loop.simps [simp del]

text \<open>\<open>None\<close> is the panic of an index outside of the string of units.\<close>

definition formatSize :: "int \<Rightarrow> string option" where
  "formatSize n =
     (if n < 1024 then Some (format_int n @ ''B'')
      else case size_loop (n div 1024) 1024 0 of
             (d, e) \<Rightarrow> if e < length ''KMGTPE'' then Some (format_tenths (float64 n) d @ [''KMGTPE'' ! e] @ ''B'') else None)"

definition nodeStateString :: "ProtoNodeState \<Rightarrow> string" where
  "nodeStateString s = (case s of NODE_STATE_ALIVE \<Rightarrow> ''alive'' | NODE_STATE_DEAD \<Rightarrow> ''dead'' | _ \<Rightarrow> ''unknown'')"

text \<open>\<^verbatim>\<open>Duration.String\<close> of a whole number of seconds.\<close>

definition format_seconds :: "int \<Rightarrow> string" where
  "format_seconds sec =
     (let u = \<bar>sec\<bar>; s = decimal (nat (u mod 60)) @ ''s'';
          m = (if u div 60 > 0 then decimal (nat (u div 60 mod 60)) @ ''m'' else '''');
          h = (if u div 3600 > 0 then decimal (nat (u div 3600)) @ ''h'' else '''')
      in (if sec < 0 then ''-'' else '''') @ h @ m @ s)"

definition heartbeatAge :: "gtime \<Rightarrow> int \<Rightarrow> string" where
  "heartbeatAge now unix =
     (if unix = 0 then ''never''
      else let d = time_Sub now (unix * 10 ^ 9) in format_seconds (sgn d * (\<bar>d\<bar> div 10 ^ 9)) @ '' ago'')"

section \<open>Lists in the configuration\<close>

text \<open>Filtering in place is filtering: no element is overwritten before it is read.\<close>

lemma dropSelf_loop_filter:
  "k \<le> i \<Longrightarrow> i \<le> length peers \<Longrightarrow> dropSelf_loop nodeID i k peers = take k peers @ filter (\<lambda>p. \<not> is_self nodeID p) (drop i peers)"
proof (induction nodeID i k peers rule: dropSelf_loop.induct)
  case (1 nodeID i k peers)
  show ?case
  proof (cases "i < length peers")
    case True
    then have drop: "drop i peers = peers ! i # drop (Suc i) peers" by (rule Cons_nth_drop_Suc [symmetric])
    have "take (Suc k) (peers[k := peers ! i]) = take k peers @ [peers ! i]"
      using True "1.prems"(1) by (simp add: take_Suc_conv_app_nth)
    then show ?thesis
      using True "1.IH" "1.prems" by (simp add: dropSelf_loop.simps [of nodeID i k] drop)
  qed (use "1.prems" in \<open>subst dropSelf_loop.simps, simp\<close>)
qed

lemma dropSelf_filter: "dropSelf peers nodeID = filter (\<lambda>p. \<not> is_self nodeID p) peers"
  by (simp add: dropSelf_def dropSelf_loop_filter)

text \<open>A peer \<^verbatim>\<open>pod.domain:port\<close> is this node exactly when its first label is.\<close>

lemma is_self_label:
  assumes "CHR ''.'' \<notin> set label" and "CHR '':'' \<notin> set label" and "CHR '':'' \<notin> set domain"
  shows "is_self nodeID (label @ ''.'' @ domain @ '':'' @ port) \<longleftrightarrow> label = nodeID"
    and "is_self nodeID (label @ '':'' @ port) \<longleftrightarrow> label = nodeID"
    and "is_self nodeID label \<longleftrightarrow> label = nodeID"
  using assms by (auto simp: is_self_def cut_char_def Let_def takeWhile_append takeWhile_eq_all_conv)

text \<open>
  A cluster where every master gets the list of all masters: each keeps exactly the others as peers, so
  the quorum of its elections is a majority of the list.
\<close>

lemma dropSelf_cluster:
  assumes "distinct labels" and "nodeID \<in> set labels" and "\<forall>l \<in> set labels. CHR ''.'' \<notin> set l \<and> CHR '':'' \<notin> set l"
  shows "dropSelf (map (\<lambda>l. l @ '':'' @ port) labels) nodeID = map (\<lambda>l. l @ '':'' @ port) (filter (\<lambda>l. l \<noteq> nodeID) labels) \<and>
    electionQuorum (dropSelf (map (\<lambda>l. l @ '':'' @ port) labels) nodeID) = int (length labels) div 2 + 1"
proof -
  have "filter (\<lambda>l. \<not> is_self nodeID (l @ '':'' @ port)) labels = filter (\<lambda>l. l \<noteq> nodeID) labels"
    using assms(3) is_self_label(2) by (intro filter_cong refl) (metis empty_iff empty_set)
  then have drop: "dropSelf (map (\<lambda>l. l @ '':'' @ port) labels) nodeID = map (\<lambda>l. l @ '':'' @ port) (filter (\<lambda>l. l \<noteq> nodeID) labels)"
    by (simp add: dropSelf_filter filter_map o_def)
  have "length (filter (\<lambda>l. l \<noteq> nodeID) labels) = length (remove1 nodeID labels)"
    using assms(1) by (simp add: distinct_remove1_removeAll removeAll_filter_not_eq eq_commute)
  then have "length (filter (\<lambda>l. l \<noteq> nodeID) labels) = length labels - 1" using assms(2) by (simp add: length_remove1)
  then have "int (length (filter (\<lambda>l. l \<noteq> nodeID) labels)) + 1 = int (length labels)"
    using length_pos_if_in_set [OF assms(2)] by linarith
  then show ?thesis unfolding drop electionQuorum_def by simp
qed

primrec join_commas :: "string list \<Rightarrow> string" where
  "join_commas [] = ''''"
| "join_commas (x # xs) = (if xs = [] then x else x @ CHR '','' # join_commas xs)"

definition list_item :: "string \<Rightarrow> bool" where
  "list_item x \<longleftrightarrow> x \<noteq> '''' \<and> CHR '','' \<notin> set x \<and> TrimSpace x = x"

lemma splitList_loop_items: "\<forall>x \<in> set xs. list_item x \<Longrightarrow> splitList_loop xs out = out @ xs"
  by (induction xs arbitrary: out) (auto simp: list_item_def)

lemma trim_left_Nil: "trim_left spaces [] = []"
  by (subst trim_left.simps) (auto split: option.split simp: find_Some_iff)

lemma split_join: "\<forall>x \<in> set xs. list_item x \<Longrightarrow> split_char (CHR '','') (join_commas xs) = (if xs = [] then [''''] else xs)"
  by (induction xs) (auto simp: list_item_def split_char_none split_char_append)

text \<open>Reading a list back: of items without commas and without space around them.\<close>

lemma splitList_join: "\<forall>x \<in> set xs. list_item x \<Longrightarrow> splitList (join_commas xs) = xs"
  by (cases "xs = []") (simp_all add: splitList_def split_join splitList_loop_items TrimSpace_def trim_left_Nil)

lemma chunk_nodes_loop_append: "chunk_nodes_loop items nodes = nodes @ chunk_nodes_loop items []"
proof (induction items arbitrary: nodes)
  case (Cons item items)
  show ?case by (simp only: chunk_nodes_loop.simps) (subst (1 2) Cons.IH, simp)
qed simp

definition node_spec :: "NodeInfo \<Rightarrow> string" where
  "node_spec n = ni_NodeId n @ ''@'' @ ni_Address n"

lemma chunk_nodes_roundtrip:
  assumes "\<forall>n \<in> set nodes. CHR ''@'' \<notin> set (ni_NodeId n) \<and> list_item (node_spec n)"
  shows "parseChunkNodes (join_commas (map node_spec nodes)) = nodes"
proof -
  have "chunk_nodes_loop (map node_spec nodes) [] = nodes"
    using assms
  proof (induction nodes)
    case (Cons n nodes)
    then have "cut_char (CHR ''@'') (node_spec n) = (ni_NodeId n, ni_Address n, True)"
      by (auto simp: cut_char_def node_spec_def takeWhile_append dropWhile_append takeWhile_eq_all_conv)
    then show ?case using Cons by (simp, subst chunk_nodes_loop_append) simp
  qed simp
  then show ?thesis using assms by (simp add: parseChunkNodes_def splitList_join)
qed

text \<open>A replication factor that is not a number is silently the default.\<close>

lemma envOrInt_unparsable: "Atoi (Getenv env) = None \<Longrightarrow> envOrInt Getenv env def = def"
  by (simp add: envOrInt_def Let_def)

section \<open>Heartbeats\<close>

text \<open>
  A heartbeat that arrives shows at the master: until the timeout of its monitor, every status of that node
  says alive, with the number of chunks the store holds.
\<close>

definition nodeStatus :: "gtime \<Rightarrow> 's master \<Rightarrow> NodeInfo \<Rightarrow> NodeStatus" where
  "nodeStatus now m n =
     (let st = \<lparr>st_Node = n, st_State = NODE_STATE_ALIVE, st_ChunkCount = gm_get 0 (ms_chunkCounts m) (ni_NodeId n), st_LastHeartbeatUnix = 0\<rparr>
      in case ms_monitor m of
           None \<Rightarrow> st
         | Some mon \<Rightarrow>
             let st1 = st\<lparr>st_State := NODE_STATE_DEAD\<rparr>;
                 st2 = (case LastSeen (ni_NodeId n) mon of None \<Rightarrow> st1 | Some ts \<Rightarrow> st1\<lparr>st_LastHeartbeatUnix := time_Unix ts\<rparr>)
             in if IsAlive now (ni_NodeId n) mon then st2\<lparr>st_State := NODE_STATE_ALIVE\<rparr> else st2)"

lemma nodeStatuses_map: "nodeStatuses clk m = map (\<lambda>(i, n). nodeStatus (clk i) m n) (enumerate 0 (ms_chunkNodes m))"
  unfolding nodeStatuses_def nodeStatus_def ..

lemma st_Node_nodeStatus: "st_Node (nodeStatus now m n) = n"
  by (simp add: nodeStatus_def Let_def split: option.split)

lemma nodeStatus_alive:
  assumes "ms_monitor m = Some mon" and "LastSeen (ni_NodeId n) mon = Some ts" and "now - ts \<le> mon_timeout mon"
  shows "nodeStatus now m n = \<lparr>st_Node = n, st_State = NODE_STATE_ALIVE, st_ChunkCount = gm_get 0 (ms_chunkCounts m) (ni_NodeId n),
    st_LastHeartbeatUnix = time_Unix ts\<rparr>"
  using assms by (simp add: nodeStatus_def IsAlive_def LastSeen_def)

lemma heartbeat_reaches_status:
  assumes "chunk_Count ft s d = Inr count" and "int count < 2 ^ 63" and "cc_nodeID c \<noteq> ''''" and "i < length clients" and "arrives i"
    and "ms_monitor (clients ! i) = Some mon" and "\<forall>k. clk k - now i \<le> mon_timeout mon"
  shows "\<forall>st \<in> set (nodeStatuses clk (heartbeat_send ft arrives now c s d clients ! i)).
    ni_NodeId (st_Node st) = cc_nodeID c \<longrightarrow>
      st_State st = NODE_STATE_ALIVE \<and> st_ChunkCount st = int count \<and> st_LastHeartbeatUnix st = time_Unix (now i)"
proof -
  have "heartbeat_send ft arrives now c s d clients ! i = fst (master_Heartbeat (now i) (cc_nodeID c) (int count) (clients ! i))"
    using assms(1,2,4,5) by (simp add: heartbeat_send_def nth_enumerate_eq int64_id)
  also have "\<dots> = (clients ! i)\<lparr>ms_monitor := Some (RecordHeartbeat (now i) (cc_nodeID c) mon),
      ms_chunkCounts := gm_set (cc_nodeID c) (int count) (ms_chunkCounts (clients ! i))\<rparr>"
    using assms(3,6) by (simp add: master_Heartbeat_def)
  finally have m: "heartbeat_send ft arrives now c s d clients ! i =
    (clients ! i)\<lparr>ms_monitor := Some (RecordHeartbeat (now i) (cc_nodeID c) mon),
      ms_chunkCounts := gm_set (cc_nodeID c) (int count) (ms_chunkCounts (clients ! i))\<rparr>" .
  show ?thesis
  proof (intro ballI impI)
    fix st assume "st \<in> set (nodeStatuses clk (heartbeat_send ft arrives now c s d clients ! i))" "ni_NodeId (st_Node st) = cc_nodeID c"
    then obtain k n where "st = nodeStatus (clk k) (heartbeat_send ft arrives now c s d clients ! i) n" "ni_NodeId n = cc_nodeID c"
      by (auto simp: nodeStatuses_map st_Node_nodeStatus)
    then show "st_State st = NODE_STATE_ALIVE \<and> st_ChunkCount st = int count \<and> st_LastHeartbeatUnix st = time_Unix (now i)"
      using assms(7) unfolding m
      by (subst (asm) nodeStatus_alive [where ts = "now i" and mon = "RecordHeartbeat (now i) (cc_nodeID c) mon"]) (simp_all add: RecordHeartbeat_def LastSeen_def gomap_simps)
  qed
qed

text \<open>Two heartbeats can be lost before the node counts as dead.\<close>

lemma heartbeat_tolerance: "3 * heartbeatInterval \<le> mon_timeout (NewMonitor 0 factor)"
  by (simp add: heartbeatInterval_def NewMonitor_def DefaultDeadTimeout_def)

section \<open>Formatting\<close>

text \<open>The loop finds the unit: the power of 1024 at most the size, and less than 1024 of it.\<close>

lemma size_loop_unit:
  assumes "d = 1024 ^ Suc e" and "x = n div d" and "1 \<le> x" and "n < 2 ^ 63"
  shows "\<exists>k. size_loop x d e = (1024 ^ Suc k, k) \<and> 1024 ^ Suc k \<le> n \<and> n < 1024 ^ Suc (Suc k)"
  using assms
proof (induction x d e rule: size_loop.induct)
  case (1 x d e)
  have d: "0 < d" using "1.prems"(1) by simp
  have "d * x + n mod d = n" "0 \<le> n mod d" "n mod d < d" using d "1.prems"(2) by simp_all
  then have low: "d * x \<le> n" and up: "n < d * x + d" by linarith+
  show ?case
  proof (cases "x \<ge> 1024")
    case True
    then have "d * 1024 \<le> d * x" using d by simp
    then have "d * 1024 < 2 ^ 63" using low "1.prems"(4) by linarith
    then have keep: "int64 (d * 1024) = d * 1024" using d by (intro int64_id) simp_all
    then have wrap: "int64 (d * 1024) = 1024 ^ Suc (Suc e)" using "1.prems"(1) by simp
    have quot: "x div 1024 = n div int64 (d * 1024)"
      unfolding keep using "1.prems"(2) zdiv_zmult2_eq [of 1024 n d] by simp
    have "1 \<le> x div 1024" using zdiv_mono1 [OF True, of 1024] by simp
    then show ?thesis using "1.IH" [OF True wrap quot _ "1.prems"(4)] True by (simp only: size_loop.simps [of x d e] if_True)
  next
    case False
    have "d * 1 \<le> d * x" "d * x \<le> d * 1023" using d False "1.prems"(3) by (intro mult_left_mono; simp)+
    then have "d \<le> n" "n < d * 1024" using low up by linarith+
    then show ?thesis using False "1.prems"(1) by (auto simp: size_loop.simps [of x] mult.commute)
  qed
qed

text \<open>No size of a file makes \<^verbatim>\<open>formatSize\<close> panic: exabytes are the greatest unit that is needed.\<close>

lemma formatSize_total:
  assumes "n < 2 ^ 63"
  shows "formatSize n \<noteq> None"
proof (cases "n < 1024")
  case False
  then have "1 \<le> n div 1024" using zdiv_mono1 [of 1024 n 1024] by simp
  then obtain k where k: "size_loop (n div 1024) 1024 0 = (1024 ^ Suc k, k)" "1024 ^ Suc k \<le> n"
    using size_loop_unit [of 1024 0 "n div 1024" n] assms by auto
  have "k < 6"
  proof (rule ccontr)
    assume "\<not> k < 6"
    then have "(1024 :: int) ^ 7 \<le> 1024 ^ Suc k" by (intro power_increasing) simp_all
    then show False using k(2) assms by simp
  qed
  then show ?thesis using False k(1) by (simp add: formatSize_def)
qed (simp add: formatSize_def)

text \<open>Rounding can reach the next unit: sizes just below a mebibyte are shown as 1024.0KB.\<close>

lemma formatSize_below_unit: "formatSize 1048575 = Some ''1024.0KB''"
  by code_simp

end
