(* ===== verification/Master_Solo.thy ===== *)
theory Master_Solo
  imports Master_Apply Raft_Properties
begin

text \<open>
  A master cluster of one node: the master's handlers on top of the Raft node's own operations. While a
  handler waits, the node's apply loop delivers what is committed and \<^verbatim>\<open>Run\<close> applies it. A proposal is
  then committed at once, and \<^verbatim>\<open>FinalizeWrite\<close> returns with the file in the namespace.
\<close>

section \<open>A Raft cluster of one node\<close>

definition solo :: "Node \<Rightarrow> bool" where
  "solo n \<longleftrightarrow> nd_peers n = [] \<and> nd_state n = Leader \<and> matchIndex n = [(nd_id n, lastIndex (nd_log n))] \<and>
     log_wf (nd_log n) \<and> commitIndex n = lastIndex (nd_log n) \<and> lastApplied n = lastIndex (nd_log n)"

text \<open>Such a node exists: a node without peers that starts an election.\<close>

definition elected_alone :: "string \<Rightarrow> Node" where
  "elected_alone nodeID = (case startElection (raft_New (raft_DefaultConfig nodeID [])) of
     (n, Some (el, _)) \<Rightarrow> snd (singleNodeWin el n) | (n, None) \<Rightarrow> n)"

lemma elected_alone_solo: "solo (elected_alone nodeID)" "lastIndex (nd_log (elected_alone nodeID)) = 0"
  by (simp_all add: solo_def elected_alone_def startElection_def singleNodeWin_def becomeLeader_def raft_New_def raft_DefaultConfig_def
      electionQuorum_def newRaftLog_wf Let_def) (simp_all add: newRaftLog_def lastIndex_def)

lemma solo_propose:
  assumes "solo n" and "unat (lastIndex (nd_log n)) + 2 < 2 ^ 64"
  obtains n1 n2 e where "Propose n data = (n1, Inr ())" "applyCommitted None n1 = (n2, [e])" "e_Command e = data"
proof -
  let ?last = "lastIndex (nd_log n)"
  define e where "e = \<lparr>e_Index = ?last + 1, e_Term = currentTerm n, e_Command = data\<rparr>"
  define l where "l = log_Append (nd_log n) [e]"
  define n1 where "n1 = n\<lparr>nd_log := l, matchIndex := [(nd_id n, ?last + 1)], commitIndex := ?last + 1, applySig := True, heartbeatSig := True\<rparr>"
  have wf: "log_wf (nd_log n)" using assms(1) by (simp add: solo_def)
  have le: "unat (?last + 1) = unat ?last + 1"
    using assms(2) by (simp add: unat_word_ariths(1))
  have ends: "?last + 1 \<noteq> - 1"
  proof
    assume "?last + 1 = - 1"
    then have "unat ?last + 1 = unat (- 1 :: u64)" by (simp only: le [symmetric])
    moreover have "unat (- 1 :: u64) = 2 ^ 64 - 1" by (simp add: unsigned_minus_1_eq_mask mask_eq_exp_minus_1)
    ultimately show False using assms(2) by simp
  qed
  have less: "?last < ?last + 1" using le by (simp add: word_less_nat_alt)
  have lwf: "log_wf l" unfolding l_def using wf le assms(2) by (intro log_Append_wf) (simp_all add: consecutive_from_def e_def)
  have member: "e \<in> set (log_entries l)" by (simp add: l_def log_Append_def)
  have "log_Term l (?last + 1) = Inr (currentTerm n)" using log_Term_entry [OF lwf member] by (simp add: e_def)
  then have proposed: "Propose n data = (n1, Inr ())"
    using assms(1) less
    by (simp add: Propose_def solo_def advanceCommitIndex_def signalApply_def Let_def n1_def l_def e_def)
  have sn: "snapIndex l = snapIndex (nd_log n)" by (simp add: l_def log_Append_def)
  have lo: "snapIndex (nd_log n1) \<le> lastApplied n1"
    using unat_lastIndex [OF wf] assms(1) by (simp add: n1_def sn solo_def word_le_nat_alt)
  have bounds: "log_wf (nd_log n1)" "lastApplied n1 = ?last" "commitIndex n1 = ?last + 1" "lastIndex (nd_log n1) = ?last + 1"
    using lwf assms(1) by (simp_all add: n1_def solo_def l_def log_Append_def lastIndex_def e_def)
  have due: "applyEntries n1 = due_entries n1" by (rule applyEntries_due) (use bounds lo less ends in simp_all)
  have "length (due_entries n1) = 1"
    using due_entries_segment(2) [of n1] bounds lo less le by simp
  moreover have "e \<in> set (due_entries n1)" using member less bounds by (simp add: due_entries_def n1_def e_def)
  ultimately have "due_entries n1 = [e]" by (cases "due_entries n1") auto
  moreover have "\<not> ?last + 1 \<le> ?last" using less by (simp only: not_le)
  ultimately have "applyCommitted None n1 = (applyCompact (n1\<lparr>lastApplied := e_Index e\<rparr>), [e])"
    using due bounds by (simp add: applyCommitted_def)
  with proposed show thesis by (rule that) (simp add: e_def)
qed

section \<open>Finalizing a write\<close>

text \<open>The apply loop and \<^verbatim>\<open>Run\<close>, up to the point where nothing committed is left.\<close>

definition solo_run :: "'s namespace_ops \<Rightarrow> gob_codec \<Rightarrow> (nat \<Rightarrow> gtime) \<Rightarrow> gtime \<Rightarrow> 's master \<Rightarrow> 's master" where
  "solo_run N G clk now m =
     (case applyCommitted None (ms_node m) of
        (n', es) \<Rightarrow> fold (\<lambda>e m. fst (master_Run_step N G clk now e m)) es (m\<lparr>ms_node := n'\<rparr>))"

lemma master_apply_frame:
  "ms_waiters (fst (master_apply N clk now cmd m)) = ms_waiters m" "ms_chunkNodes (fst (master_apply N clk now cmd m)) = ms_chunkNodes m"
  "ms_rf (fst (master_apply N clk now cmd m)) = ms_rf m"
  by (auto simp: master_apply_def recordChunkLocations_def Let_def split: sum.splits prod.splits option.splits)

lemma placement_cong: "ms_chunkNodes m = ms_chunkNodes m' \<Longrightarrow> ms_rf m = ms_rf m' \<Longrightarrow> placement m = placement m'"
  by (simp add: placement_def)

lemma finalize_write_solo:
  assumes ok: "ns_ok B J (ms_ns m)" and rel: "never_fails B J" and gob: "gob_ok G" and node: "solo (ms_node m)"
    and room: "unat (lastIndex (nd_log (ms_node m))) + 2 < 2 ^ 64"
    and clk: "\<forall>i. json_time (clk i)" and now: "json_time now"
    and args: "ascii path" "\<forall>chunkID \<in> set chunkIDs. ascii chunkID" "- (2 ^ 63) \<le> sz" "sz < 2 ^ 63"
  obtains m' fi where "master_FinalizeWrite (NewNamespace B J) G (solo_run (NewNamespace B J) G clk now) None path chunkIDs sz m =
      Some (m', Inr (fileInfoToProto fi))"
    "ns_ok B J (ms_ns m')" "ns_view B J (ms_ns m') path = Some fi" "fi_ChunkIDs fi = chunkIDs" "fi_Size fi = sz" "placement m' = placement m"
proof -
  let ?N = "NewNamespace B J"
  define seq where "seq = ms_opSeq m + 1"
  define opID where "opID = decimal (unat seq)"
  define cmd0 where "cmd0 = zero_command\<lparr>cmd_Kind := opFinalize, cmd_Path := path, cmd_ChunkIDs := chunkIDs, cmd_Size := sz\<rparr>"
  define cmd where "cmd = cmd0\<lparr>cmd_OpID := opID\<rparr>"
  have cmd: "command_ok cmd" "cmd_Kind cmd = opFinalize" "cmd_OpID cmd = opID" "cmd_Path cmd = path"
    using args by (simp_all add: cmd_def cmd0_def command_ok_def)
  obtain data where data: "gob_Encode G cmd = Some data" "gob_Decode G data = Some cmd"
    using gob [unfolded gob_ok_def, rule_format, of cmd] args(3,4) by (auto simp: cmd_def cmd0_def)
  obtain n1 n2 e where raft: "Propose (ms_node m) data = (n1, Inr ())" "applyCommitted None n1 = (n2, [e])" "e_Command e = data"
    using solo_propose [OF node room] by metis
  define m1 where "m1 = m\<lparr>ms_opSeq := seq, ms_waiters := gm_set opID None (ms_waiters m), ms_node := n1\<rparr>"
  have start: "propose_begin G cmd0 m = (m1, Inr opID)"
    using data(1) raft(1) by (simp add: propose_begin_def encode_def seq_def [symmetric] opID_def [symmetric] cmd_def [symmetric] m1_def Let_def)
  define m2 where "m2 = m1\<lparr>ms_node := n2\<rparr>"
  have ok2: "ns_ok B J (ms_ns m2)" using ok by (simp add: m2_def m1_def)
  obtain m3 where applied: "master_apply ?N clk now cmd m2 = (m3, None)"
    using finalize_ok [OF rel ok2 cmd(1,2) clk now] by (metis prod.collapse)
  have frame: "ms_waiters m3 = ms_waiters m2" "placement m3 = placement m"
    using master_apply_frame [of ?N clk now cmd m2] applied placement_cong [of m3 m] by (simp_all add: m2_def m1_def)
  have wait: "gm_lookup (ms_waiters m3) opID = Some None" by (simp add: frame m2_def m1_def gomap_simps)
  define m4 where "m4 = m3\<lparr>ms_waiters := gm_set opID (Some None) (ms_waiters m3)\<rparr>"
  have run: "solo_run ?N G clk now m1 = m4"
    using raft(2,3) data(2) applied wait cmd(3)
    by (simp add: solo_run_def m2_def m1_def master_Run_step_def decode_def m4_def)
  have view: "ns_ok B J (ms_ns m4) \<and> timeless (ns_view B J (ms_ns m4)) = apply_spec cmd (timeless (ns_view B J (ms_ns m2)))"
    using nsi.master_apply_view [OF ok2 cmd(1) clk now applied] by (simp add: applied_def m4_def)
  then have "timeless (ns_view B J (ms_ns m4)) path = Some (finalized cmd)" by (simp add: apply_spec_def cmd)
  then obtain fi where fi: "ns_view B J (ms_ns m4) path = Some fi" "no_times fi = finalized cmd" by (auto simp: timeless_def)
  then have "fi_ChunkIDs (no_times fi) = chunkIDs" "fi_Size (no_times fi) = sz" by (simp_all add: finalized_def no_times_def cmd_def cmd0_def)
  then have fields: "fi_ChunkIDs fi = chunkIDs" "fi_Size fi = sz" by (simp_all add: no_times_def)
  define m5 where "m5 = m4\<lparr>ms_waiters := gm_delete opID (ms_waiters m4)\<rparr>"
  have "propose G (solo_run ?N G clk now) None cmd0 m = Some (m5, Inr ())"
    by (simp add: propose_def start run propose_end_def m5_def) (simp add: m4_def gomap_simps)
  moreover have "nso_Stat ?N (ms_ns m5) path = Inr fi" using nsi.stat_law [of B J "ms_ns m5" path] view fi(1) by (simp add: m5_def)
  ultimately have "master_FinalizeWrite ?N G (solo_run ?N G clk now) None path chunkIDs sz m =
      Some (master_record ''finalize_write'' StatusOK m5, Inr (fileInfoToProto fi))"
    by (simp add: master_FinalizeWrite_def cmd0_def)
  moreover have "placement (master_record ''finalize_write'' StatusOK m5) = placement m"
    by (subst frame(2) [symmetric], rule placement_cong) (simp_all add: master_record_def m5_def m4_def)
  ultimately show thesis using that view fi(1) fields by (simp add: master_record_def m5_def)
qed

end
