(* ===== verification/VaultFS_System.thy ===== *)
theory VaultFS_System
  imports Master_Solo Client Chunk_Server
begin

text \<open>
  The composition of the parts: a client, one master and a cluster of chunk servers. The world of the
  client holds the master and the chunk servers; the services it calls are the handlers of \<^verbatim>\<open>master\<close>
  and \<^verbatim>\<open>chunkserver\<close>. The result is that a file which was uploaded is downloaded unchanged.
\<close>

section \<open>The world\<close>

record 's world =
  w_master :: "'s master"
  w_chunks :: chunk_cluster

text \<open>A call of the client: the request, the handler and the reply. A server that panics closes the connection.\<close>

definition call_server :: "rpc_env \<Rightarrow> string \<Rightarrow> ('w \<Rightarrow> 'w \<times> (error_code + 'r)) \<Rightarrow> 'w \<Rightarrow> 'w \<times> (error_code + 'r)" where
  "call_server env addr f w =
     (if \<not> env_request env ''client'' addr then (w, Inl Unavailable)
      else case f w of (w', r) \<Rightarrow> (w', if r = Inl Panic \<or> \<not> env_reply env ''client'' addr then Inl Unavailable else r))"

definition at_master :: "rpc_env \<Rightarrow> string \<Rightarrow> string \<Rightarrow> ('s master \<Rightarrow> 's master \<times> (error_code + 'r)) \<Rightarrow> 's world \<Rightarrow> 's world \<times> (error_code + 'r)" where
  "at_master env maddr addr f =
     call_server env addr (\<lambda>w. if addr \<noteq> maddr then (w, Inl Unavailable)
       else case f (w_master w) of (m', r) \<Rightarrow> (w\<lparr>w_master := m'\<rparr>, r))"

definition at_chunks :: "rpc_env \<Rightarrow> string \<Rightarrow> (chunk_cluster \<Rightarrow> chunk_cluster \<times> (error_code + 'r)) \<Rightarrow> 's world \<Rightarrow> 's world \<times> (error_code + 'r)" where
  "at_chunks env addr f = call_server env addr (\<lambda>w. case f (w_chunks w) of (cl', r) \<Rightarrow> (w\<lparr>w_chunks := cl'\<rparr>, r))"

text \<open>A handler that would wait for ever is ended by the deadline of the client's call.\<close>

definition until_deadline :: "(error_code option \<Rightarrow> 'm \<Rightarrow> ('m \<times> (error_code + 'r)) option) \<Rightarrow> 'm \<Rightarrow> 'm \<times> (error_code + 'r)" where
  "until_deadline f m =
     (case f None m of
        Some mr \<Rightarrow> mr
      | None \<Rightarrow> (case f (Some DeadlineExceeded) m of Some mr \<Rightarrow> mr | None \<Rightarrow> (m, Inl DeadlineExceeded)))"

definition system_services :: "rpc_env \<Rightarrow> 's namespace_ops \<Rightarrow> gob_codec \<Rightarrow> (nat \<Rightarrow> gtime) \<Rightarrow> gtime \<Rightarrow> string \<Rightarrow> 's world services" where
  "system_services env N G clk now maddr = \<lparr>
     sv_OpenForWrite = (\<lambda>addr path chunkIDs. at_master env maddr addr (\<lambda>m. (m, master_OpenForWrite chunkIDs m))),
     sv_FinalizeWrite = (\<lambda>addr path chunkIDs sz. at_master env maddr addr
       (until_deadline (\<lambda>ctxDone. master_FinalizeWrite N G (solo_run N G clk now) ctxDone path chunkIDs sz))),
     sv_OpenForRead = (\<lambda>addr path. at_master env maddr addr (\<lambda>m. (m, master_OpenForRead N path m))),
     sv_Stat = (\<lambda>addr path. at_master env maddr addr (\<lambda>m. (m, master_Stat N path m))),
     sv_ListDir = (\<lambda>addr path. at_master env maddr addr (\<lambda>m. (m, master_ListDir N path m))),
     sv_DeleteFile = (\<lambda>addr path. at_master env maddr addr (until_deadline (\<lambda>ctxDone. master_DeleteFile G (solo_run N G clk now) ctxDone path))),
     sv_ClusterStatus = (\<lambda>addr. at_master env maddr addr (\<lambda>m. (m, master_ClusterStatus N clk m))),
     sv_WriteChunk = (\<lambda>addr req. at_chunks env addr (serve_write env (wr_Downstream req) addr req)),
     sv_ReadChunk = (\<lambda>addr chunkID. at_chunks env addr (serve_read env addr chunkID))\<rparr>"

lemma at_master_healthy:
  "healthy_env env \<Longrightarrow> f (w_master w) = (m', Inr r) \<Longrightarrow> at_master env maddr maddr f w = (w\<lparr>w_master := m'\<rparr>, Inr r)"
  by (simp add: at_master_def call_server_def healthy_env_def)

lemma at_chunks_healthy:
  "healthy_env env \<Longrightarrow> f (w_chunks w) = (cl', Inr r) \<Longrightarrow> at_chunks env addr f w = (w\<lparr>w_chunks := cl'\<rparr>, Inr r)"
  by (simp add: at_chunks_def call_server_def healthy_env_def)

section \<open>Chunk servers without faults\<close>

text \<open>Disks without temporary files; writes that do not fail leave none.\<close>

definition tidy :: "chunk_disk \<Rightarrow> bool" where
  "tidy d \<longleftrightarrow> (\<forall>path. gm_lookup d path \<noteq> None \<longrightarrow> Valid (last path))"

definition tidy_cluster :: "chunk_cluster \<Rightarrow> bool" where
  "tidy_cluster cl \<longleftrightarrow> (\<forall>addr n. gm_lookup cl addr = Some n \<longrightarrow> tidy (cn_disk n))"

lemma tidy_temp_unused: "tidy_cluster cl \<Longrightarrow> temp_unused env data cl addr"
  using temp_not_valid by (fastforce simp: tidy_cluster_def tidy_def temp_unused_def split: option.split)

lemma tidy_write:
  assumes "store_ok (cs_root s) d" and "tidy d" and "chunk_WriteChunk no_store_faults rnd data s d = (s', d', r)"
  shows "tidy d'"
proof -
  have path: "chunk_path (cs_root s) (Hash data) = Some (chunk_file (cs_root s) (Hash data))"
    using assms by (simp add: chunk_path_valid store_ok_def)
  show ?thesis
    using assms(2,3) Valid_Hash [of data]
    by (auto simp: tidy_def chunk_WriteChunk_def write_chunk_file_def no_store_faults_def path Let_def gomap_simps on_file_lookup
        split: if_splits option.splits prod.splits)
qed

lemma tidy_metrics [simp]:
  "tidy_cluster (update_node addr (\<lambda>n. n\<lparr>cn_metrics := f n\<rparr>) cl) = tidy_cluster cl"
  "tidy_cluster (record_op addr opType status cl) = tidy_cluster cl"
  by (auto simp: tidy_cluster_def record_op_def update_node_def gomap_simps split: option.splits if_splits)

lemma serve_write_tidy:
  assumes "healthy_env env" and "cluster_ok cl" and "tidy_cluster cl" and "wr_Downstream req = ds" and "\<forall>a \<in> set (addr # ds). ready cl a"
  shows "tidy_cluster (fst (serve_write env ds addr req cl))"
  using assms(2-)
proof (induction ds arbitrary: addr req cl)
  case Nil
  from Nil.prems(4) obtain n where n: "gm_lookup cl addr = Some n" "cs_writing (cn_store n) = []" by (auto simp: ready_def)
  obtain s' d' r where w: "chunk_WriteChunk no_store_faults (env_rnd env addr) (wr_Data req) (cn_store n) (cn_disk n) = (s', d', r)"
    using prod_cases3 by blast
  have "tidy d'" using tidy_write [OF _ _ w] Nil.prems(1,2) n(1) by (simp add: cluster_ok_def node_ok_def tidy_cluster_def)
  then have "tidy_cluster (gm_set addr (n\<lparr>cn_store := s', cn_disk := d'\<rparr>) cl)"
    using Nil.prems(2) by (simp add: tidy_cluster_def gomap_simps)
  then show ?case
    using assms(1) Nil.prems(2,3) n w by (simp add: srv_WriteChunk_def healthy_env_def Let_def split: sum.split)
next
  case (Cons nxt ds)
  from Cons.prems(4) obtain n where n: "gm_lookup cl addr = Some n" "cn_dial n" "cs_writing (cn_store n) = []" by (auto simp: ready_def)
  obtain s' d' r where w: "chunk_WriteChunk no_store_faults (env_rnd env addr) (wr_Data req) (cn_store n) (cn_disk n) = (s', d', r)"
    using prod_cases3 by blast
  let ?cl1 = "gm_set addr (n\<lparr>cn_store := s', cn_disk := d'\<rparr>) cl"
  have "tidy d'" using tidy_write [OF _ _ w] Cons.prems(1,2) n(1) by (simp add: cluster_ok_def node_ok_def tidy_cluster_def)
  then have tidy1: "tidy_cluster ?cl1" using Cons.prems(2) by (simp add: tidy_cluster_def gomap_simps)
  have "cluster_ok ?cl1" "idle ?cl1 = idle cl" using chain_written_local [OF Cons.prems(1) n(1,3) w] by (simp_all add: chain_written_def)
  then have "tidy_cluster (fst (serve_write env ds nxt (req\<lparr>wr_Downstream := ds\<rparr>) ?cl1))"
    using Cons.IH [OF _ tidy1, of "req\<lparr>wr_Downstream := ds\<rparr>" nxt] Cons.prems(4) by (simp add: ready_idle)
  moreover obtain cl2 r2 where "serve_write env ds nxt (req\<lparr>wr_Downstream := ds\<rparr>) ?cl1 = (cl2, r2)" by fastforce
  ultimately show ?case
    using assms(1) Cons.prems(2,3) n w tidy1
    by (auto simp: srv_WriteChunk_def srv_forward_def healthy_env_def Let_def split: sum.split)
qed

text \<open>\<open>live A cl\<close>: the servers at the addresses \<open>A\<close> take writes.\<close>

definition live :: "string set \<Rightarrow> chunk_cluster \<Rightarrow> bool" where
  "live A cl \<longleftrightarrow> cluster_ok cl \<and> tidy_cluster cl \<and> (\<forall>a \<in> A. ready cl a)"

lemma healthy_chain:
  assumes "healthy_env env" and "live (set (addr # ds)) cl" and "distinct (addr # ds)"
  obtains cl' where "serve_write env ds addr \<lparr>wr_ChunkId = Hash data, wr_Data = data, wr_Downstream = ds\<rparr> cl = (cl', Inr (Hash data))"
    "live (set (addr # ds)) cl'" "\<And>a. cluster_chunks cl' a \<in> {cluster_chunks cl a, (cluster_chunks cl a)(Hash data \<mapsto> data)}"
    "\<And>a. a \<in> set (addr # ds) \<Longrightarrow> cluster_chunks cl' a (Hash data) \<noteq> None"
proof -
  let ?req = "\<lparr>wr_ChunkId = Hash data, wr_Data = data, wr_Downstream = ds\<rparr>"
  have ok: "cluster_ok cl" "tidy_cluster cl" and ready: "\<forall>a \<in> set (addr # ds). ready cl a" using assms(2) by (simp_all add: live_def)
  obtain cl' r where run: "serve_write env ds addr ?req cl = (cl', r)" by fastforce
  have "r = Inr (Hash data)"
    using serve_write_succeeds [OF assms(1) ok(1), of ?req ds addr] assms(3) ready tidy_temp_unused [OF ok(2)] run by (simp add: Verify_def)
  moreover note effect = serve_write_effect [OF ok(1) _ ready run]
  moreover have "tidy_cluster cl'" using serve_write_tidy [OF assms(1) ok _ ready, of ?req] run by simp
  moreover have "live (set (addr # ds)) cl'"
    using effect ready \<open>tidy_cluster cl'\<close> by (simp add: live_def chain_written_def ready_idle)
  ultimately show thesis using run by (intro that [of cl']) (auto simp: chain_written_def)
qed

lemma serve_read_healthy:
  assumes "healthy_env env" and "cluster_ok cl" and "cluster_chunks cl addr chunkID = Some data"
  obtains cl' where "serve_read env addr chunkID cl = (cl', Inr data)" "cluster_ok cl'" "cluster_chunks cl' = cluster_chunks cl"
proof -
  obtain n where n: "gm_lookup cl addr = Some n" "stored (cs_root (cn_store n)) (cn_disk n) chunkID = Some data"
    using assms(3) by (auto simp: cluster_chunks_def node_chunks_def split: option.splits)
  have ok: "store_ok (cs_root (cn_store n)) (cn_disk n)" using assms(2) n(1) by (simp add: cluster_ok_def node_ok_def)
  have "Valid chunkID" using n(2) by (simp add: stored_def split: if_splits)
  then have "chunk_ReadChunk no_store_faults chunkID (cn_store n) (cn_disk n) = Inr data"
    using chunk_ReadChunk_stored [OF ok] n(2) by simp
  then have "snd (serve_read env addr chunkID cl) = Inr data"
    using assms(1) n(1) by (simp add: serve_read_def srv_ReadChunk_def healthy_env_def)
  then obtain cl' where run: "serve_read env addr chunkID cl = (cl', Inr data)" by (metis prod.collapse)
  with serve_read_effect [OF assms(2) run] show thesis by (intro that [of cl']) simp_all
qed

section \<open>Client calls without faults\<close>

text \<open>A context that is never done, every address accepted, and at least one attempt per call.\<close>

definition calm_client :: "'w client_env \<Rightarrow> Client \<Rightarrow> bool" where
  "calm_client cenv c \<longleftrightarrow> patient cenv \<and> (\<forall>addr. ce_NewClient cenv addr) \<and> 0 < rp_maxAttempts (c_retry c)"

text \<open>A client after some calls: only the cache of connections differs.\<close>

definition same_client :: "Client \<Rightarrow> Client \<Rightarrow> bool" where
  "same_client c c' \<longleftrightarrow> c_retry c' = c_retry c \<and> c_chunkSize c' = c_chunkSize c \<and> pl_masterAddrs (c_pool c') = pl_masterAddrs (c_pool c)"

lemma same_client_trans: "same_client c c' \<Longrightarrow> same_client c' c'' \<Longrightarrow> same_client c c''"
  by (simp add: same_client_def)

lemma same_client_refl [simp]: "same_client c c"
  by (simp add: same_client_def)

lemma same_client_calm: "same_client c c' \<Longrightarrow> calm_client cenv c \<Longrightarrow> calm_client cenv c'"
  by (simp add: same_client_def calm_client_def)

lemma calm_conn:
  assumes "calm_client cenv c"
  obtains p where "pool_conn cenv addr (c_pool c) = (p, Inr addr)" "same_client c (c\<lparr>c_pool := p\<rparr>)"
proof -
  obtain p r where conn: "pool_conn cenv addr (c_pool c) = (p, r)" by fastforce
  with pool_conn_result [OF conn] assms show thesis by (intro that [of p]) (simp_all add: calm_client_def same_client_def)
qed

lemma callMaster_calm:
  assumes "calm_client cenv c" and "pl_masterAddrs (c_pool c) = [maddr]" and "fn maddr w = (w', Inr r)"
  obtains c' where "callMaster cenv fn c w = (c', w', Inr (Some r))" "same_client c c'"
proof -
  obtain p where p: "pool_conn cenv maddr (c_pool c) = (p, Inr maddr)" "same_client c (c\<lparr>c_pool := p\<rparr>)" using calm_conn [OF assms(1)] by blast
  have "retry_do cenv (c_retry c) (rpc (fn maddr)) w = (w', Inr (Some r))"
    using assms(1,3) by (intro retry_do_ok) (simp_all add: calm_client_def rpc_Inr)
  then have "callMaster cenv fn c w = (c\<lparr>c_pool := p\<rparr>, w', Inr (Some r))"
    using assms(1,2) p(1) by (simp add: callMaster_def calm_client_def patient_def)
  with p(2) show thesis by (rule that [rotated])
qed

lemma writeChunk_calm:
  assumes "calm_client cenv c" and "lc_Nodes loc = primary # secondaries"
    and "sv_WriteChunk S (ni_Address primary) \<lparr>wr_ChunkId = ck_id ch, wr_Data = ck_data ch, wr_Downstream = map ni_Address secondaries\<rparr> w = (w', Inr r)"
  obtains c' where "client_writeChunk cenv S loc ch c w = (c', w', None)" "same_client c c'"
proof -
  obtain p where p: "pool_conn cenv (ni_Address primary) (c_pool c) = (p, Inr (ni_Address primary))" "same_client c (c\<lparr>c_pool := p\<rparr>)"
    using calm_conn [OF assms(1)] by blast
  have "retry_do cenv (c_retry c) (rpc (sv_WriteChunk S (ni_Address primary)
      \<lparr>wr_ChunkId = ck_id ch, wr_Data = ck_data ch, wr_Downstream = map ni_Address secondaries\<rparr>)) w = (w', Inr (Some r))"
    using assms(1,3) by (intro retry_do_ok) (simp_all add: calm_client_def rpc_Inr)
  then have "client_writeChunk cenv S loc ch c w = (c\<lparr>c_pool := p\<rparr>, w', None)"
    using assms(2) p(1) by (simp add: client_writeChunk_def chunkClient_def)
  with p(2) show thesis by (rule that [rotated])
qed

lemma readChunk_calm:
  assumes "calm_client cenv c" and "lc_Nodes loc = primary # secondaries"
    and "sv_ReadChunk S (ni_Address primary) chunkID w = (w', Inr data)" and "Hash data = chunkID"
  obtains c' where "client_readChunk cenv S chunkID loc c w = (c', w', Inr data)" "same_client c c'"
proof -
  obtain p where p: "pool_conn cenv (ni_Address primary) (c_pool c) = (p, Inr (ni_Address primary))" "same_client c (c\<lparr>c_pool := p\<rparr>)"
    using calm_conn [OF assms(1)] by blast
  have "retry_do cenv (c_retry c) (rpc (sv_ReadChunk S (ni_Address primary) chunkID)) w = (w', Inr (Some data))"
    using assms(1,3) by (intro retry_do_ok) (simp_all add: calm_client_def rpc_Inr)
  moreover have "verifyChunk chunkID data = None" using assms(4) by (simp add: verifyChunk_None)
  ultimately have "client_readChunk cenv S chunkID loc c w = (c\<lparr>c_pool := p\<rparr>, w', Inr data)"
    using assms(2) p(1) by (simp add: client_readChunk_def chunkClient_def)
  with p(2) show thesis by (rule that [rotated])
qed

section \<open>Writing and reading all chunks of a file\<close>

text \<open>
  The chunks of a file are named by their hashes and no two of them collide; what the servers hold
  under these names is the file's data.
\<close>

definition chunks_named :: "chunk list \<Rightarrow> bool" where
  "chunks_named cs \<longleftrightarrow> (\<forall>ch \<in> set cs. ck_id ch = Hash (ck_data ch)) \<and>
     (\<forall>ch \<in> set cs. \<forall>ch' \<in> set cs. ck_id ch = ck_id ch' \<longrightarrow> ck_data ch = ck_data ch')"

definition agrees :: "string set \<Rightarrow> chunk list \<Rightarrow> chunk_cluster \<Rightarrow> bool" where
  "agrees A cs cl \<longleftrightarrow> (\<forall>ch \<in> set cs. \<forall>a \<in> A. cluster_chunks cl a (ck_id ch) \<in> {None, Some (ck_data ch)})"

definition holds :: "string set \<Rightarrow> chunk_cluster \<Rightarrow> chunk \<Rightarrow> bool" where
  "holds A cl ch \<longleftrightarrow> (\<forall>a \<in> A. cluster_chunks cl a (ck_id ch) = Some (ck_data ch))"

lemma chunk_written:
  assumes "chunks_named cs" and "ch \<in> set cs" and "agrees A cs cl"
    and up: "\<And>a. cluster_chunks cl' a \<in> {cluster_chunks cl a, (cluster_chunks cl a)(Hash (ck_data ch) \<mapsto> ck_data ch)}"
    and there: "\<And>a. a \<in> A \<Longrightarrow> cluster_chunks cl' a (Hash (ck_data ch)) \<noteq> None"
  shows "agrees A cs cl'" and "holds A cl' ch" and "\<And>ch'. ch' \<in> set cs \<Longrightarrow> holds A cl ch' \<Longrightarrow> holds A cl' ch'"
proof -
  have other: "cluster_chunks cl' a (ck_id ch') \<in> {cluster_chunks cl a (ck_id ch'), Some (ck_data ch')}" if "ch' \<in> set cs" for a ch'
  proof (cases "ck_id ch' = Hash (ck_data ch)")
    case True
    then have "ck_data ch' = ck_data ch" using assms(1,2) that unfolding chunks_named_def by metis
    then show ?thesis using up [of a] True by auto
  next
    case False
    then show ?thesis using up [of a] by auto
  qed
  show agree: "agrees A cs cl'" unfolding agrees_def
  proof (intro ballI)
    fix ch' a assume "ch' \<in> set cs" "a \<in> A"
    then show "cluster_chunks cl' a (ck_id ch') \<in> {None, Some (ck_data ch')}"
      using other [of ch' a] assms(3) unfolding agrees_def by (metis insertE insertI1 insertI2 singletonD)
  qed
  show "holds A cl' ch'" if "ch' \<in> set cs" "holds A cl ch'" for ch'
    using other [OF that(1)] that(2) unfolding holds_def by (metis insertE singletonD)
  have id: "ck_id ch = Hash (ck_data ch)" using assms(1,2) unfolding chunks_named_def by blast
  show "holds A cl' ch" unfolding holds_def
  proof
    fix a assume a: "a \<in> A"
    have "cluster_chunks cl' a (ck_id ch) \<in> {None, Some (ck_data ch)}" using agree assms(2) a unfolding agrees_def by blast
    then show "cluster_chunks cl' a (ck_id ch) = Some (ck_data ch)" using there [OF a] unfolding id by blast
  qed
qed

lemma write_loop_calm:
  fixes env :: rpc_env and nodes :: "NodeInfo list"
  defines "A \<equiv> set (map ni_Address nodes)"
  assumes env: "healthy_env env" and nodes: "nodes \<noteq> []" "distinct (map ni_Address nodes)" and named: "chunks_named all"
    and "set cs \<subseteq> set all" and "calm_client cenv c" and "live A (w_chunks w)" and "agrees A all (w_chunks w)"
  shows "\<exists>c' w'. write_loop cenv (system_services env N G clk now maddr) (map (\<lambda>ch. (\<lparr>lc_ChunkId = ck_id ch, lc_Nodes = nodes\<rparr>, ch)) cs) c w = (c', w', None) \<and>
     same_client c c' \<and> w_master w' = w_master w \<and> live A (w_chunks w') \<and> agrees A all (w_chunks w') \<and>
     (\<forall>ch \<in> set all. holds A (w_chunks w) ch \<or> ch \<in> set cs \<longrightarrow> holds A (w_chunks w') ch)"
  using assms(6-)
proof (induction cs arbitrary: c w)
  case Nil
  then show ?case by auto
next
  case (Cons ch cs)
  let ?S = "system_services env N G clk now maddr" and ?loc = "\<lparr>lc_ChunkId = ck_id ch, lc_Nodes = nodes\<rparr>"
  obtain primary secondaries where split: "nodes = primary # secondaries" using nodes(1) by (cases nodes) auto
  have ch: "ch \<in> set all" "ck_id ch = Hash (ck_data ch)" using Cons.prems(1) named by (auto simp: chunks_named_def)
  have A: "A = set (ni_Address primary # map ni_Address secondaries)" and dist: "distinct (ni_Address primary # map ni_Address secondaries)"
    using nodes(2) by (simp_all add: A_def split)
  obtain cl1 where cl1: "serve_write env (map ni_Address secondaries) (ni_Address primary)
        \<lparr>wr_ChunkId = Hash (ck_data ch), wr_Data = ck_data ch, wr_Downstream = map ni_Address secondaries\<rparr> (w_chunks w) = (cl1, Inr (Hash (ck_data ch)))"
      "live A cl1" "\<And>a. cluster_chunks cl1 a \<in> {cluster_chunks (w_chunks w) a, (cluster_chunks (w_chunks w) a)(Hash (ck_data ch) \<mapsto> ck_data ch)}"
      "\<And>a. a \<in> A \<Longrightarrow> cluster_chunks cl1 a (Hash (ck_data ch)) \<noteq> None"
    using healthy_chain [OF env Cons.prems(3) [unfolded A] dist, of "ck_data ch"] unfolding A by metis
  let ?w1 = "w\<lparr>w_chunks := cl1\<rparr>"
  have sent: "sv_WriteChunk ?S (ni_Address primary) \<lparr>wr_ChunkId = ck_id ch, wr_Data = ck_data ch, wr_Downstream = map ni_Address secondaries\<rparr> w =
      (?w1, Inr (Hash (ck_data ch)))"
    using cl1(1) at_chunks_healthy [OF env] by (simp add: system_services_def ch(2))
  have "lc_Nodes ?loc = primary # secondaries" by (simp add: split)
  from writeChunk_calm [OF Cons.prems(2) this sent]
  obtain c1 where c1: "client_writeChunk cenv ?S ?loc ch c w = (c1, ?w1, None)" "same_client c c1" .
  note written = chunk_written [OF named ch(1) Cons.prems(4) cl1(3,4)]
  have "calm_client cenv c1" using same_client_calm [OF c1(2) Cons.prems(2)] .
  with Cons.IH [of c1 ?w1] Cons.prems(1) cl1(2) written(1) obtain c' w' where IH:
    "write_loop cenv ?S (map (\<lambda>ch. (\<lparr>lc_ChunkId = ck_id ch, lc_Nodes = nodes\<rparr>, ch)) cs) c1 ?w1 = (c', w', None)" "same_client c1 c'"
    "w_master w' = w_master w" "live A (w_chunks w')" "agrees A all (w_chunks w')"
    "\<forall>ch \<in> set all. holds A cl1 ch \<or> ch \<in> set cs \<longrightarrow> holds A (w_chunks w') ch"
    by auto
  show ?case using c1 IH written(2,3) same_client_trans [OF c1(2) IH(2)] by auto
qed

lemma get_loop_calm:
  fixes env :: rpc_env and nodes :: "NodeInfo list"
  defines "A \<equiv> set (map ni_Address nodes)"
  assumes env: "healthy_env env" and nodes: "nodes \<noteq> []" and named: "\<forall>ch \<in> set cs. ck_id ch = Hash (ck_data ch)"
    and "calm_client cenv c" and "cluster_ok (w_chunks w)" and "\<forall>ch \<in> set cs. holds A (w_chunks w) ch"
    and "i + length cs \<le> length locs" and "\<forall>j < length locs. lc_Nodes (locs ! j) = nodes"
  shows "\<exists>c' w'. get_loop cenv (system_services env N G clk now maddr) (\<lambda>_. None) locs i (map ck_id cs) out c w =
     (c', w', out @ concat (map ck_data cs), None)"
  using assms(4-8)
proof (induction cs arbitrary: c w i out)
  case (Cons ch cs)
  let ?S = "system_services env N G clk now maddr"
  obtain primary secondaries where split: "nodes = primary # secondaries" using nodes(1) by (cases nodes) auto
  have "cluster_chunks (w_chunks w) (ni_Address primary) (ck_id ch) = Some (ck_data ch)"
    using Cons.prems(4) by (simp add: holds_def A_def split)
  then obtain cl1 where cl1: "serve_read env (ni_Address primary) (ck_id ch) (w_chunks w) = (cl1, Inr (ck_data ch))"
      "cluster_ok cl1" "cluster_chunks cl1 = cluster_chunks (w_chunks w)"
    using serve_read_healthy [OF env Cons.prems(3)] by blast
  let ?w1 = "w\<lparr>w_chunks := cl1\<rparr>"
  have read: "sv_ReadChunk ?S (ni_Address primary) (ck_id ch) w = (?w1, Inr (ck_data ch))"
    using cl1(1) at_chunks_healthy [OF env] by (simp add: system_services_def)
  have loc: "lc_Nodes (locs ! i) = primary # secondaries" "i < length locs" using Cons.prems(5) assms(9) split by auto
  have "Hash (ck_data ch) = ck_id ch" using Cons.prems(1) by simp
  then obtain c1 where c1: "client_readChunk cenv ?S (ck_id ch) (locs ! i) c w = (c1, ?w1, Inr (ck_data ch))" "same_client c c1"
    using readChunk_calm [OF Cons.prems(2) loc(1) read] by blast
  have "calm_client cenv c1" using same_client_calm [OF c1(2) Cons.prems(2)] .
  moreover have "\<forall>ch \<in> set cs. holds A (w_chunks ?w1) ch" using Cons.prems(4) cl1(3) by (simp add: holds_def)
  ultimately obtain c' w' where "get_loop cenv ?S (\<lambda>_. None) locs (Suc i) (map ck_id cs) (out @ ck_data ch) c1 ?w1 =
      (c', w', (out @ ck_data ch) @ concat (map ck_data cs), None)"
    using Cons.IH [of c1 ?w1 "Suc i" "out @ ck_data ch"] Cons.prems(1,5) cl1(2) by auto
  then show ?case using c1 loc(2) by simp
qed auto

section \<open>Upload and download\<close>

lemma ascii_Hash: "ascii (Hash data)"
proof -
  have "of_char ch < (128 :: nat)" if "CHR ''0'' \<le> ch \<and> ch \<le> CHR ''9'' \<or> CHR ''a'' \<le> ch \<and> ch \<le> CHR ''f''" for ch
    using that by (auto simp: less_eq_char_def)
  then show ?thesis using Valid_Hash [of data] by (auto simp: ascii_def Valid_def valid_loop_all split: if_splits)
qed

lemma total_size:
  assumes "0 \<le> t" and "t + int (length (concat (map ck_data cs))) < 2 ^ 63"
  shows "foldl (\<lambda>t ch. int64 (t + int (length (ck_data ch)))) t cs = t + int (length (concat (map ck_data cs)))"
  using assms
proof (induction cs arbitrary: t)
  case (Cons ch cs)
  then have "int64 (t + int (length (ck_data ch))) = t + int (length (ck_data ch))" by (intro int64_id) simp_all
  with Cons show ?case by simp
qed simp

lemma splitChunks_named:
  assumes "splitChunks \<lparr>in_bytes = data, in_fails = False\<rparr> sz = Inr chunks"
  shows "concat (map ck_data chunks) = data \<and> (\<forall>ch \<in> set chunks. ck_id ch = Hash (ck_data ch))"
  using split_loop_result [of "\<lparr>in_bytes = data, in_fails = False\<rparr>" "nat (if sz \<le> 0 then DefaultChunkSize else sz) - 1" "[]"] assms
  by (auto simp: splitChunks_def)

lemma put_calm:
  fixes env :: rpc_env and m :: "'s master" and B J G clk now maddr
  defines "A \<equiv> set (map ni_Address (placement m))" and "S \<equiv> system_services env (NewNamespace B J) G clk now maddr"
  assumes ns: "ns_ok B J (ms_ns m)" "never_fails B J" and gob: "gob_ok G"
    and node: "solo (ms_node m)" "unat (lastIndex (nd_log (ms_node m))) + 2 < 2 ^ 64"
    and clk: "\<forall>i. json_time (clk i)" "json_time now" and path: "ascii path"
    and env: "healthy_env env" and A: "live A (w_chunks w)" and nodes: "placement m \<noteq> []" "distinct (map ni_Address (placement m))"
    and cl: "calm_client cenv c" "pl_masterAddrs (c_pool c) = [maddr]" and m: "w_master w = m"
    and sz: "length data < 2 ^ 63" and split: "splitChunks \<lparr>in_bytes = data, in_fails = False\<rparr> (c_chunkSize c) = Inr chunks"
    and chunks: "concat (map ck_data chunks) = data" "chunks_named chunks" "agrees A chunks (w_chunks w)"
  obtains c' w' fi where "client_Put cenv S (Some \<lparr>in_bytes = data, in_fails = False\<rparr>) path c w = (c', w', None)"
    "ns_ok B J (ms_ns (w_master w'))" "ns_view B J (ms_ns (w_master w')) path = Some fi" "fi_ChunkIDs fi = map ck_id chunks"
    "placement (w_master w') = placement m" "cluster_ok (w_chunks w')" "\<forall>ch \<in> set chunks. holds A (w_chunks w') ch"
proof -
  let ?ids = "map ck_id chunks" and ?locs = "map (\<lambda>chunkID. \<lparr>lc_ChunkId = chunkID, lc_Nodes = placement m\<rparr>) (map ck_id chunks)"
  have "ms_chunkNodes m \<noteq> []" using nodes(1) by (auto simp: placement_def)
  then have plan: "sv_OpenForWrite S maddr path ?ids w = (w, Inr ?locs)"
    using at_master_healthy [OF env, of "\<lambda>m. (m, master_OpenForWrite ?ids m)" w "w_master w"] m
    by (simp add: S_def system_services_def master_OpenForWrite_def)
  obtain c1 where c1: "callMaster cenv (\<lambda>a. sv_OpenForWrite S a path ?ids) c w = (c1, w, Inr (Some ?locs))" "same_client c c1"
    by (rule callMaster_calm [of cenv c maddr "\<lambda>a. sv_OpenForWrite S a path ?ids" w w ?locs]) (use cl plan in auto)
  have cl1: "calm_client cenv c1" using same_client_calm [OF c1(2) cl(1)] .
  have zip: "zip ?locs chunks = map (\<lambda>ch. (\<lparr>lc_ChunkId = ck_id ch, lc_Nodes = placement m\<rparr>, ch)) chunks" by (simp add: zip_map1 zip_same_conv_map)
  obtain c2 w2 where w2: "write_loop cenv S (zip ?locs chunks) c1 w = (c2, w2, None)" "same_client c1 c2"
    "w_master w2 = w_master w" "live A (w_chunks w2)" "\<forall>ch \<in> set chunks. holds A (w_chunks w2) ch"
    using write_loop_calm [OF env nodes chunks(2) subset_refl cl1 A [unfolded A_def] chunks(3) [unfolded A_def],
        of "NewNamespace B J" G clk now maddr, folded S_def A_def zip]
    by (elim exE conjE) (rule that, assumption+, blast)
  have ids: "\<forall>chunkID \<in> set ?ids. ascii chunkID"
    using conjunct1 [OF chunks(2) [unfolded chunks_named_def]] by (simp add: ascii_Hash)
  have total: "foldl (\<lambda>t ch. int64 (t + int (length (ck_data ch)))) 0 chunks = int (length data)"
    using total_size [of 0 chunks] chunks(1) sz by simp
  obtain m' fi where fin: "master_FinalizeWrite (NewNamespace B J) G (solo_run (NewNamespace B J) G clk now) None path ?ids (int (length data)) m =
      Some (m', Inr (fileInfoToProto fi))"
    "ns_ok B J (ms_ns m')" "ns_view B J (ms_ns m') path = Some fi" "fi_ChunkIDs fi = ?ids" "placement m' = placement m"
    by (rule finalize_write_solo [OF ns gob node clk path ids, of "int (length data)"]) (use sz in simp_all)
  let ?w3 = "w2\<lparr>w_master := m'\<rparr>"
  have "sv_FinalizeWrite S maddr path ?ids (int (length data)) w2 = (?w3, Inr (fileInfoToProto fi))"
    unfolding S_def system_services_def by simp (rule at_master_healthy [OF env], simp add: until_deadline_def w2(3) m fin(1))
  moreover have "calm_client cenv c2" "pl_masterAddrs (c_pool c2) = [maddr]"
    using same_client_calm [OF w2(2) cl1] cl(2) c1(2) w2(2) by (simp_all add: same_client_def)
  ultimately obtain c3 where c3: "callMaster cenv (\<lambda>a. sv_FinalizeWrite S a path ?ids (int (length data))) c2 w2 =
      (c3, ?w3, Inr (Some (fileInfoToProto fi)))"
    using callMaster_calm [of cenv c2 maddr "\<lambda>a. sv_FinalizeWrite S a path ?ids (int (length data))"] by metis
  have "client_Put cenv S (Some \<lparr>in_bytes = data, in_fails = False\<rparr>) path c w = (c3, ?w3, None)"
    using c1(1) w2(1) c3 by (simp add: client_Put_def split total del: map_map)
  then show thesis using fin w2(4,5) by (intro that [of c3 ?w3 fi]) (simp_all add: live_def)
qed

lemma get_calm:
  fixes env :: rpc_env and B J G clk now maddr
  defines "S \<equiv> system_services env (NewNamespace B J) G clk now maddr"
  assumes "healthy_env env" and "calm_client cenv c" and "pl_masterAddrs (c_pool c) = [maddr]"
    and "ns_ok B J (ms_ns (w_master w))" and "ns_view B J (ms_ns (w_master w)) path = Some fi" and "fi_ChunkIDs fi = map ck_id chunks"
    and "placement (w_master w) \<noteq> []" and "cluster_ok (w_chunks w)" and "\<forall>ch \<in> set chunks. ck_id ch = Hash (ck_data ch)"
    and "\<forall>ch \<in> set chunks. holds (set (map ni_Address (placement (w_master w)))) (w_chunks w) ch"
  shows "\<exists>c' w'. client_Get cenv S False (\<lambda>_. None) path c w = (c', w', Some (concat (map ck_data chunks)), None)"
proof -
  let ?locs = "map (\<lambda>chunkID. \<lparr>lc_ChunkId = chunkID, lc_Nodes = placement (w_master w)\<rparr>) (map ck_id chunks)"
  let ?resp = "\<lparr>or_File = fileInfoToProto fi, or_Locations = ?locs\<rparr>"
  have "nso_Stat (NewNamespace B J) (ms_ns (w_master w)) path = Inr fi" using nsi.stat_law [OF assms(5)] assms(6) by simp
  then have "sv_OpenForRead S maddr path w = (w, Inr ?resp)"
    using at_master_healthy [OF assms(2), of "\<lambda>m. (m, master_OpenForRead (NewNamespace B J) path m)" w "w_master w"] assms(7)
    by (simp add: S_def system_services_def master_OpenForRead_def)
  then obtain c1 where c1: "callMaster cenv (\<lambda>a. sv_OpenForRead S a path) c w = (c1, w, Inr (Some ?resp))" "same_client c c1"
    using callMaster_calm [OF assms(3,4), of "\<lambda>a. sv_OpenForRead S a path"] by metis
  obtain c2 w2 where "get_loop cenv S (\<lambda>_. None) ?locs 0 (map ck_id chunks) [] c1 w = (c2, w2, [] @ concat (map ck_data chunks), None)"
    using get_loop_calm [OF assms(2,8,10) same_client_calm [OF c1(2) assms(3)] assms(9,11), of 0 ?locs] unfolding S_def by fastforce
  then show ?thesis using c1(1) assms(7) by (simp add: client_Get_def fileInfoToProto_def)
qed


text \<open>The laws can hold: a codec for commands over bytes, and a system of one master and three chunk servers.\<close>

definition mem_gob :: gob_codec where
  "mem_gob = \<lparr>
     gob_Encode = (\<lambda>cmd. Some (enc_string (cmd_OpID cmd) @ enc_nat (unat (cmd_Kind cmd)) @ enc_string (cmd_Path cmd) @
       enc_list enc_string (cmd_ChunkIDs cmd) @ enc_int (cmd_Size cmd))),
     gob_Decode = (\<lambda>b. Option.bind (dec_string b) (\<lambda>(opID, r1). Option.bind (dec_nat r1) (\<lambda>(kind, r2).
       Option.bind (dec_string r2) (\<lambda>(path, r3). Option.bind (dec_list dec_string r3) (\<lambda>(ids, r4).
       Option.bind (dec_int r4) (\<lambda>(sz, _). Some \<lparr>cmd_OpID = opID, cmd_Kind = of_nat kind, cmd_Path = path, cmd_ChunkIDs = ids, cmd_Size = sz\<rparr>))))))\<rparr>"

lemma mem_gob_ok: "gob_ok mem_gob"
  unfolding gob_ok_def
proof (intro allI impI)
  fix cmd :: command
  show "\<exists>b. gob_Encode mem_gob cmd = Some b \<and> gob_Decode mem_gob b = Some cmd"
    using dec_enc_int [of "cmd_Size cmd" "[]"] by (simp add: mem_gob_def)
qed

definition sample_world :: "mem_db world" where
  "sample_world = \<lparr>w_master = master_New [] (NewLeaseManager 0) (elected_alone ''m1'')
       (map (\<lambda>a. \<lparr>ni_NodeId = a, ni_Address = a\<rparr>) [''cs1'', ''cs2'', ''cs3'']) 3 None None None,
     w_chunks = sample_cluster\<rparr>"

lemma sample_world_placement: "map ni_Address (placement (w_master sample_world)) = [''cs1'', ''cs2'', ''cs3'']"
  by (simp add: sample_world_def master_New_def placement_def)

lemma sample_world_live: "live {''cs1'', ''cs2'', ''cs3''} (w_chunks sample_world)"
  using sample_cluster_ok sample_cluster_ready
  by (auto simp: live_def sample_world_def tidy_cluster_def sample_cluster_lookup chunkserver_New_def tidy_def gomap_simps)


end
