(* ===== verification/Spec2Isabelle.thy ===== *)
theory Spec2Isabelle
  imports VaultFS_Prelude Clock Raft_Log Raft_Node Raft_Replication Raft_CatchUp Raft_Properties Raft_Limits Raft_Cluster
    Raft_Abstract Raft_Safety Raft_Agreement
    Wal_Entry Go_Strings Wal Wal_Recovery
    Lease Chunk_Map Namespace_Properties Chunk_Store Chunk_GC Chunk_Server Client Master_Apply Master_Limits
    Raft_Transport Security Commands VaultFS_System
begin

text \<open>
  \<^bold>\<open>VaultFS, a distributed file system in Go: a verification development.\<close>

  \<^bold>\<open>The program.\<close> A file is cut into chunks that are named by the SHA-256 of their bytes. Chunk servers keep
  chunks as files and pass writes down a chain of replicas. Masters keep the tree of inodes in BadgerDB; they
  change it only by applying commands that Raft has committed, and they tell clients where chunks are. The
  client library asks a master for a plan, moves the bytes from and to the chunk servers, and checks every chunk
  it reads. Chunk servers send heartbeats to the masters, whose monitor finds dead servers and chunks with too
  few replicas. A write-ahead log, logical clocks and leases are libraries of the same repository.

  \<^bold>\<open>How the code is modelled.\<close> One function per method or critical section, with the names of the source; a
  prefix tells methods of one name apart (\<open>ns_Stat\<close>, \<open>master_Stat\<close>, \<open>client_Stat\<close>). A struct is a record, an
  error a value of a datatype, and a method that changes its receiver returns the new one. \<^verbatim>\<open>uint64\<close> is a
  64 bit word and wraps; \<^verbatim>\<open>int64\<close> and \<^verbatim>\<open>int\<close> are integers with the wrap-around written as \<open>int64\<close> where the
  code adds or multiplies them without a bound; times and durations are integers in nanoseconds. A Go map is an
  association list with distinct keys whose order is the order of one \<^verbatim>\<open>range\<close> loop, and the lemmas hold for
  every order. What happens to the program from outside is an argument of the functions: readings of the clock,
  failures of system calls, lost requests and replies, crashes of a disk, the end of a context, and what other
  goroutines do while a lock is not held. BadgerDB, \<^verbatim>\<open>encoding/json\<close> and \<^verbatim>\<open>encoding/gob\<close> are records of functions
  with their documented behaviour as named laws (\<open>badger_ok\<close>, \<open>json_ok\<close>, \<open>gob_ok\<close>, \<open>gob_law\<close>);
  \<^verbatim>\<open>Namespace_Memory\<close> and \<^verbatim>\<open>Raft_Transport\<close> have instances, so that the laws can hold and the witnesses
  are concrete. The parts of the Go library that carry meaning here are written out: SHA-256, CRC-32, hexadecimal
  and decimal numbers, splitting, trimming and joining of strings and paths, files with synced and unsynced bytes.

  \<^bold>\<open>Theories.\<close>

  \<^item> \<^verbatim>\<open>VaultFS_Prelude\<close>: words, Go maps with the contract \<open>go_map\<close>, shared lemmas. \<^verbatim>\<open>Go_Strings\<close>, \<^verbatim>\<open>Go_Paths\<close>,
    \<^verbatim>\<open>Go_Files\<close>: the standard library.
  \<^item> \<^verbatim>\<open>Clock\<close>: \<^verbatim>\<open>internal/clock\<close> and \<^verbatim>\<open>internal/metadata/version.go\<close>. The four relations of vector clocks exclude each
    other, merging is the least upper bound, and concurrent writes are detected.
  \<^item> \<^verbatim>\<open>Raft_Log\<close>, \<^verbatim>\<open>Raft_Node\<close>: \<^verbatim>\<open>internal/raft/log.go\<close>, \<^verbatim>\<open>node.go\<close>, \<^verbatim>\<open>election.go\<close>, \<^verbatim>\<open>replication.go\<close>, \<^verbatim>\<open>snapshot.go\<close>.
    The compacted log is a log by index (contract \<open>indexed_log\<close>). \<^verbatim>\<open>Raft_Replication\<close>, \<^verbatim>\<open>Raft_CatchUp\<close>,
    \<^verbatim>\<open>Raft_Properties\<close>: the decisions of the handlers on every branch, the commit rule, delivery in order, the log
    invariant, and that a leader brings a follower up to date; \<open>nextIndex + 1\<close> rounds are enough fuel for the
    latter, since each failed round lowers \<open>nextIndex\<close>. \<^verbatim>\<open>Raft_Cluster\<close>: nodes as a step relation over a network
    that delays, reorders, loses and repeats messages, and election safety, from the contract \<open>quorum_system\<close>.
    \<^verbatim>\<open>Raft_Limits\<close>: runs that leave the contract of Raft.
  \<^item> \<^verbatim>\<open>Raft_Abstract\<close>, \<^verbatim>\<open>Raft_Safety\<close>, \<^verbatim>\<open>Raft_Agreement\<close>: Raft without messages as a step relation, whose leaders
    have everything that a quorum acknowledged in an earlier term (contract \<open>node_quorums\<close>); a simulation of every
    step of \<open>cluster_step\<close> by it; and what follows for the node code. For clusters of odd size and logs that are not
    compacted, logs that agree on a term agree up to it, a leader has what was committed before, and nodes hand the same
    entries to their state machines.
  \<^item> \<^verbatim>\<open>Raft_Transport\<close>: \<^verbatim>\<open>internal/raft/transport.go\<close> and \<^verbatim>\<open>transport_grpc.go\<close>. Both transports meet the contract
    \<open>raft_transport\<close>, a granted vote in a reply is recorded at its peer, and the production transport acts like the
    network of the tests.
  \<^item> \<^verbatim>\<open>Wal_Entry\<close>, \<^verbatim>\<open>Wal\<close>, \<^verbatim>\<open>Wal_Recovery\<close>: \<^verbatim>\<open>internal/wal\<close>. Records are read back or their damage is reported;
    acknowledged entries survive a crash; an interrupted append is there after recovery completely or not at all.
  \<^item> \<^verbatim>\<open>Lease\<close>, \<^verbatim>\<open>Chunk_Map\<close>, \<^verbatim>\<open>Meta_Store\<close>, \<^verbatim>\<open>Namespace\<close>, \<^verbatim>\<open>Namespace_Memory\<close>, \<^verbatim>\<open>Namespace_Properties\<close>:
    \<^verbatim>\<open>internal/metadata\<close>. Leases exclude each other; the chunk map is a relation of chunks and nodes; a sweep
    of the monitor finds exactly the dead nodes and the chunks that need replicas; the namespace is a map from paths
    to inodes under any failing writes (contract \<open>namespace_api\<close>), and renaming is atomic.
  \<^item> \<^verbatim>\<open>Chunk_Hash\<close>, \<^verbatim>\<open>Chunk_Store\<close>, \<^verbatim>\<open>Chunk_GC\<close>: \<^verbatim>\<open>internal/chunk\<close>. Whatever fails, a visible chunk is complete and
    has the hash it is named by; what was written is read back; garbage collection keeps its grace period.
  \<^item> \<^verbatim>\<open>Rpc_Base\<close>, \<^verbatim>\<open>Chunk_Server\<close>: messages, metrics, and \<^verbatim>\<open>internal/chunkserver\<close>. An acknowledged write is
    held by every server of its chain.
  \<^item> \<^verbatim>\<open>Client_Retry\<close>, \<^verbatim>\<open>Client\<close>: \<^verbatim>\<open>pkg/client\<close>. Retries are bounded, calls move on to the next master, and
    data whose hash is wrong is never returned.
  \<^item> \<^verbatim>\<open>Master\<close>, \<^verbatim>\<open>Master_Apply\<close>: \<^verbatim>\<open>internal/master\<close>. Applying a command refines an operation on maps, and masters
    that apply the same commands agree on everything but the times. \<^verbatim>\<open>Master_Limits\<close>: what the handlers do not
    guarantee.
  \<^item> \<^verbatim>\<open>Security\<close>, \<^verbatim>\<open>Commands\<close>: \<^verbatim>\<open>internal/security\<close> and the logic of \<^verbatim>\<open>cmd\<close>: expiry and mutual TLS, reading lists
    and nodes from the configuration, heartbeats as they show in the status of a master, and formatting of sizes
    that never leaves the table of units.
  \<^item> \<^verbatim>\<open>Master_Solo\<close>, \<^verbatim>\<open>VaultFS_System\<close>: the composition. Client, a master that leads a cluster of one, its Raft node,
    its namespace, and chunk servers with their disks: a file that was put is got back unchanged by any client.

  \<^bold>\<open>Bounds.\<close> Statements about indices and terms assume, where they need it, that the 64 bit counters are not at
  their end; \<^verbatim>\<open>json_time\<close> and \<^verbatim>\<open>ascii\<close> restrict times and paths to those that JSON represents exactly; the sizes of
  files are below \<open>2 ^ 63\<close>. Hash collisions are never excluded globally: the theorems about content state what
  holds of hashes, and the round trip assumes that the chunks at hand do not collide. Loops are total functions;
  only \<open>catch_up\<close> has fuel, and the waiting of a handler that nothing ends is the value \<open>None\<close>.

  \<^bold>\<open>Not modelled.\<close> The goroutines that only call modelled critical sections (\<^verbatim>\<open>Node.run\<close>, \<^verbatim>\<open>applyLoop\<close>,
  \<^verbatim>\<open>GC.Run\<close>), whose effect is the order of steps. A restart of a Raft node: its state is in memory only, and
  \<open>restarted_node_votes_again\<close> shows that election safety would not survive it. Opening and closing of BadgerDB,
  the servers and connections of gRPC, registration with Prometheus and its HTTP endpoint, the generation of
  development certificates, signals and listeners of the commands, and the closures of the command line client,
  which call one method of the client and print: they are calls of libraries without logic of their own. Code
  generated from the \<^verbatim>\<open>.proto\<close> files. Real time: durations are compared, but nothing states how long a step takes.
  Agreement of the logs is proved for clusters of odd size without compaction, because the code supports no more: with
  the commit quorum of the source a cluster of even size commits without a majority (\<open>pair_leader_commits_alone\<close>),
  compaction can break the index of a log (\<open>append_below_snapshot_breaks_index\<close>), and a refused snapshot counts as
  delivered (\<open>refused_snapshot_counts_as_delivered\<close>).
\<close>

end
